(* ===== verification/Bridge_Base.thy ===== *)
theory Bridge_Base
  imports Main "HOL-Library.Word" "HOL-Library.Monad_Syntax"
begin

unbundle bit_operations_syntax

text \<open>
  Shared ground of the development: the machine integers of the firmware, byte slices with
  Rust's out-of-range behaviour, and little-endian encodings.

  A function of the code that may panic returns \<open>'a may_panic\<close>, where \<open>None\<close> is
  the panic (the release profile aborts, and the panic handlers of both firmwares spin for
  ever). A Rust \<open>Result<T, E>\<close> is a sum \<open>'e + 't\<close> with \<open>Inl\<close> for
  \<open>Err\<close>; a Rust \<open>Option<T>\<close> is \<open>'t option\<close>. Sizes and indices of
  type \<open>usize\<close> are \<open>nat\<close>; where the width of \<open>usize\<close> matters it is
  written out.
\<close>

type_synonym u8 = "8 word"
type_synonym u16 = "16 word"
type_synonym u32 = "32 word"
type_synonym u64 = "64 word"
type_synonym bytes = "8 word list"
type_synonym 'a may_panic = "'a option"
type_synonym ('e, 'a) rust_result = "'e + 'a"

named_theorems slice_simps \<open>slices and copies within their bounds\<close>
named_theorems wf_defs \<open>well-formedness of fixed-size buffers\<close>

section \<open>Slices\<close>

text \<open>\<open>xs.get(a..b)\<close>, and \<open>&xs[a..b]\<close> with \<open>None\<close> as the panic.\<close>

definition slice :: "'a list \<Rightarrow> nat \<Rightarrow> nat \<Rightarrow> 'a list option" where
  "slice xs a b = (if a \<le> b \<and> b \<le> length xs then Some (take (b - a) (drop a xs)) else None)"

text \<open>\<open>xs[a..a + src.len()].copy_from_slice(src)\<close>; \<open>None\<close> when the range leaves
  \<open>xs\<close>.\<close>

definition copy_into :: "'a list \<Rightarrow> nat \<Rightarrow> 'a list \<Rightarrow> 'a list option" where
  "copy_into xs a src =
     (if a + length src \<le> length xs
      then Some (take a xs @ src @ drop (a + length src) xs) else None)"

text \<open>\<open>xs[i] = v\<close> with the bounds check of the language.\<close>

definition set_at :: "'a list \<Rightarrow> nat \<Rightarrow> 'a \<Rightarrow> 'a list option" where
  "set_at xs i v = (if i < length xs then Some (xs[i := v]) else None)"

text \<open>\<open>xs[i]\<close> read with the bounds check of the language.\<close>

definition get_at :: "'a list \<Rightarrow> nat \<Rightarrow> 'a option" where
  "get_at xs i = (if i < length xs then Some (xs ! i) else None)"

lemma get_at_in_range [slice_simps]: "i < length xs \<Longrightarrow> get_at xs i = Some (xs ! i)"
  by (simp add: get_at_def)

lemma slice_in_range [slice_simps]:
  "a \<le> b \<Longrightarrow> b \<le> length xs \<Longrightarrow> slice xs a b = Some (take (b - a) (drop a xs))"
  by (simp add: slice_def)

lemma slice_out_of_range [slice_simps]: "length xs < b \<Longrightarrow> slice xs a b = None"
  by (simp add: slice_def)

lemma slice_length: "slice xs a b = Some ys \<Longrightarrow> length ys = b - a"
  by (auto simp: slice_def split: if_splits)

lemma copy_into_in_range [slice_simps]:
  "a + length src \<le> length xs \<Longrightarrow>
     copy_into xs a src = Some (take a xs @ src @ drop (a + length src) xs)"
  by (simp add: copy_into_def)

lemma copy_into_length: "copy_into xs a src = Some ys \<Longrightarrow> length ys = length xs"
  by (auto simp: copy_into_def split: if_splits)

lemma set_at_in_range [slice_simps]: "i < length xs \<Longrightarrow> set_at xs i v = Some (xs[i := v])"
  by (simp add: set_at_def)

text \<open>Reading back what a copy wrote, and reading beside it.\<close>

lemma slice_copy_same:
  assumes "copy_into xs a src = Some ys"
  shows "slice ys a (a + length src) = Some src"
  using assms by (auto simp: copy_into_def slice_def split: if_splits)

lemma copy_into_nth_outside:
  assumes "copy_into xs a src = Some ys" and "i < a \<or> a + length src \<le> i"
  shows "ys ! i = xs ! i"
  using assms by (auto simp: copy_into_def nth_append split: if_splits)

lemma slice_nth:
  assumes "slice xs a b = Some ys" and "i < b - a"
  shows "ys ! i = xs ! (a + i)"
  using assms by (auto simp: slice_def split: if_splits)

lemma slice_cong_nth:
  assumes "length xs = length ys" and "\<And>i. a \<le> i \<Longrightarrow> i < b \<Longrightarrow> xs ! i = ys ! i"
  shows "slice xs a b = slice ys a b"
proof (cases "a \<le> b \<and> b \<le> length xs")
  case True
  then have "take (b - a) (drop a xs) = take (b - a) (drop a ys)"
    using assms by (intro nth_equalityI) auto
  then show ?thesis using True assms(1) by (simp add: slice_def)
next
  case False
  then show ?thesis using assms(1) by (auto simp: slice_def)
qed

lemma slice_copy_disjoint:
  assumes "copy_into xs a src = Some ys" and "d \<le> a \<or> a + length src \<le> c"
  shows "slice ys c d = slice xs c d"
  using assms copy_into_length [OF assms(1)]
  by (intro slice_cong_nth) (auto intro!: copy_into_nth_outside)

lemma slice_concat:
  assumes "slice xs a b = Some ys" and "slice xs b c = Some zs"
  shows "slice xs a c = Some (ys @ zs)"
proof -
  from assms have le: "a \<le> b" "b \<le> c" "c \<le> length xs"
    and ys: "ys = take (b - a) (drop a xs)" and zs: "zs = take (c - b) (drop b xs)"
    by (auto simp: slice_def split: if_splits)
  from le have "c - a = (b - a) + (c - b)" and "drop b xs = drop (b - a) (drop a xs)"
    by simp_all
  then have "ys @ zs = take (c - a) (drop a xs)"
    using ys zs by (simp only: take_add)
  with le show ?thesis by (simp add: slice_def)
qed

lemma slice_concat3:
  assumes "slice xs a b = Some ys" and "slice xs b c = Some zs" and "slice xs c d = Some us"
  shows "slice xs a d = Some (ys @ zs @ us)"
  using slice_concat [OF assms(1) slice_concat [OF assms(2,3)]] .

lemma slice_middle:
  "a = length xs \<Longrightarrow> b = length xs + length ys \<Longrightarrow> slice (xs @ ys @ zs) a b = Some ys"
  by (simp add: slice_def)

lemma take_take_drop_sub:
  "c + n \<le> m \<Longrightarrow> take n (drop c (take m xs)) = take n (drop c xs)"
  by (simp add: drop_take)

section \<open>Little-endian words\<close>

text \<open>\<open>uN::from_le_bytes\<close> and \<open>uN::to_le_bytes\<close>.\<close>

fun from_le_bytes :: "bytes \<Rightarrow> 'a::len word" where
  "from_le_bytes [] = 0"
| "from_le_bytes (b # bs) = ucast b OR push_bit 8 (from_le_bytes bs)"

fun to_le_bytes :: "nat \<Rightarrow> 'a::len word \<Rightarrow> bytes" where
  "to_le_bytes 0 w = []"
| "to_le_bytes (Suc n) w = ucast w # to_le_bytes n (drop_bit 8 w)"

lemma length_to_le_bytes [simp]: "length (to_le_bytes n w) = n"
  by (induction n arbitrary: w) auto

lemma bit_from_le_bytes:
  "bit (from_le_bytes bs :: 'a::len word) i \<longleftrightarrow>
     i < LENGTH('a) \<and> i div 8 < length bs \<and> bit (bs ! (i div 8)) (i mod 8)"
proof (induction bs arbitrary: i)
  case Nil
  then show ?case by simp
next
  case (Cons b bs)
  show ?case
  proof (cases "i < 8")
    case True
    then show ?thesis by (auto simp: bit_simps)
  next
    case False
    then obtain j where "i = j + 8"
      by (metis add.commute le_iff_add not_less)
    then have "i div 8 = Suc ((i - 8) div 8)" and "i mod 8 = (i - 8) mod 8"
      by simp_all
    moreover have "\<not> bit b i"
      using False bit_imp_le_length [of b i] by auto
    ultimately show ?thesis
      using False by (auto simp: bit_simps Cons.IH)
  qed
qed

lemma to_le_bytes_nth:
  "k < n \<Longrightarrow> to_le_bytes n w ! k = ucast (drop_bit (8 * k) (w :: 'a::len word))"
proof (induction n arbitrary: w k)
  case 0
  then show ?case by simp
next
  case (Suc n)
  show ?case
  proof (cases k)
    case 0
    then show ?thesis by simp
  next
    case (Suc j)
    with Suc.prems have "to_le_bytes (Suc n) w ! k = ucast (drop_bit (8 * j) (drop_bit 8 w))"
      using Suc.IH [of j "drop_bit 8 w"] by simp
    then show ?thesis using Suc by (simp add: add.commute)
  qed
qed

lemma from_to_le_bytes:
  assumes "LENGTH('a) \<le> 8 * n"
  shows "from_le_bytes (to_le_bytes n w) = (w :: 'a::len word)"
proof (rule bit_word_eqI)
  fix i
  assume i: "i < LENGTH('a)"
  then have k: "i div 8 < n" using assms by simp
  have "bit (from_le_bytes (to_le_bytes n w) :: 'a word) i
      = bit (ucast (drop_bit (8 * (i div 8)) w) :: u8) (i mod 8)"
    using i k by (simp add: bit_from_le_bytes to_le_bytes_nth)
  also have "\<dots> = bit w i"
    by (simp add: bit_simps)
  finally show "bit (from_le_bytes (to_le_bytes n w) :: 'a word) i = bit w i" .
qed

lemma to_from_le_bytes:
  assumes "8 * length bs = LENGTH('a)"
  shows "to_le_bytes (length bs) (from_le_bytes bs :: 'a::len word) = bs"
proof (rule nth_equalityI)
  show "length (to_le_bytes (length bs) (from_le_bytes bs :: 'a word)) = length bs" by simp
next
  fix k
  assume "k < length (to_le_bytes (length bs) (from_le_bytes bs :: 'a word))"
  then have k: "k < length bs" by simp
  show "to_le_bytes (length bs) (from_le_bytes bs :: 'a word) ! k = bs ! k"
  proof (rule bit_word_eqI)
    fix j
    assume j: "j < LENGTH(8)"
    with k assms have "8 * k + j < LENGTH('a)" by simp
    with j k show "bit (to_le_bytes (length bs) (from_le_bytes bs :: 'a word) ! k) j = bit (bs ! k) j"
      by (simp add: to_le_bytes_nth bit_simps bit_from_le_bytes)
  qed
qed

declare from_le_bytes.simps [simp del] to_le_bytes.simps [simp del]

lemmas le_bytes_eval = from_le_bytes.simps to_le_bytes.simps

lemma list_of_length:
  "length h = 2 \<Longrightarrow> \<exists>a b. h = [a, b]" "length k = 4 \<Longrightarrow> \<exists>a b c d. k = [a, b, c, d]"
  by (auto simp: numeral_2_eq_2 eval_nat_numeral length_Suc_conv)

lemma le_bytes_2: "to_le_bytes 2 (from_le_bytes [x, y] :: u16) = [x, y]"
  using to_from_le_bytes [of "[x, y]", where ?'a = 16] by (simp flip: numeral_2_eq_2)

lemma le_bytes_4: "to_le_bytes 4 (from_le_bytes [x, y, z, w] :: u32) = [x, y, z, w]"
  using to_from_le_bytes [of "[x, y, z, w]", where ?'a = 32] by (simp add: eval_nat_numeral)

lemma to_le_bytes_zero: "to_le_bytes n 0 = replicate n 0"
  by (induction n) (simp_all add: le_bytes_eval)

section \<open>Checked arithmetic\<close>

text \<open>\<open>checked_add\<close> and \<open>checked_mul\<close> of the unsigned integer types, and of
  \<open>usize\<close>, which has 32 bits on the firmware's target \<open>riscv32imc\<close>.\<close>

definition checked_add :: "'a::len word \<Rightarrow> 'a word \<Rightarrow> 'a word option" where
  "checked_add x y = (if unat x + unat y < 2 ^ LENGTH('a) then Some (x + y) else None)"

definition checked_mul :: "'a::len word \<Rightarrow> 'a word \<Rightarrow> 'a word option" where
  "checked_mul x y = (if unat x * unat y < 2 ^ LENGTH('a) then Some (x * y) else None)"

definition usize_add :: "nat \<Rightarrow> nat \<Rightarrow> nat option" where
  "usize_add a b = (if a + b < 2 ^ 32 then Some (a + b) else None)"

definition usize_mul :: "nat \<Rightarrow> nat \<Rightarrow> nat option" where
  "usize_mul a b = (if a * b < 2 ^ 32 then Some (a * b) else None)"

lemma checked_add_SomeD: "checked_add x y = Some z \<Longrightarrow> unat z = unat x + unat y"
  by (auto simp: checked_add_def unat_word_ariths split: if_splits)

lemma checked_mul_SomeD: "checked_mul x y = Some z \<Longrightarrow> unat z = unat x * unat y"
  by (auto simp: checked_mul_def unat_word_ariths split: if_splits)

section \<open>Sums and binds\<close>

lemma bind_some_iff:
  "(m \<bind> f) = Some y \<longleftrightarrow> (\<exists>x. m = Some x \<and> f x = Some y)"
  by (cases m) auto

lemma bit_times_two [simp]:
  "bit (w * 2) i \<longleftrightarrow> 0 < i \<and> i < LENGTH('a) \<and> bit (w :: 'a::len word) (i - 1)"
  by (metis bit_double_iff bot_nat_0.not_eq_extremum mult.commute possible_bit_word)

lemma xor_eq_0_iff: "(x :: 'a::len word) XOR y = 0 \<longleftrightarrow> x = y"
  by (metis xor_self_eq xor.right_neutral xor.assoc)

lemma xor_right_cancel [simp]: "(x :: 'a::len word) XOR z = y XOR z \<longleftrightarrow> x = y"
  by (metis xor_self_eq xor.right_neutral xor.assoc)

lemma xor_left_cancel [simp]: "z XOR (x :: 'a::len word) = z XOR y \<longleftrightarrow> x = y"
  by (metis xor_right_cancel xor.commute)

lemma unat_u8_less: "unat (b :: u8) < 256"
  using unsigned_less [of b] by simp

lemma unat_u16_less: "unat (b :: u16) < 65536"
  using unsigned_less [of b] by simp

lemma unat_u32_less: "unat (b :: u32) < 4294967296"
  using unsigned_less [of b] by simp

lemma unat_of_nat_id: "n < 2 ^ LENGTH('a) \<Longrightarrow> unat (of_nat n :: 'a::len word) = n"
  by (simp add: unat_of_nat take_bit_nat_eq_self)

lemma unat_add_id:
  "unat x + unat y < 2 ^ LENGTH('a) \<Longrightarrow> unat (x + y) = unat x + unat (y :: 'a::len word)"
  by (simp add: unat_word_ariths)

lemma unat_ucast_up:
  assumes "LENGTH('a) \<le> LENGTH('b)"
  shows "unat (ucast (w :: 'a::len word) :: 'b::len word) = unat w"
proof -
  have "unat w < 2 ^ LENGTH('a)" by (rule unsigned_less)
  also have "\<dots> \<le> (2 :: nat) ^ LENGTH('b)" using assms by (intro power_increasing) auto
  finally show ?thesis by (simp add: unsigned_ucast_eq take_bit_nat_eq_self)
qed

lemma length_16_cases:
  assumes "length xs = 16"
  shows "\<exists>a0 a1 a2 a3 rest. xs = a0 # a1 # a2 # a3 # rest \<and> length rest = 12"
  using assms by (auto simp: numeral_eq_Suc length_Suc_conv)

end
