(* ===== verification/Wire_Protocol.thy ===== *)
theory Wire_Protocol
  imports Bridge_Base
begin

text \<open>
  The shared frame protocol of \<^verbatim>\<open>crates/optibridge-protocol/src/lib.rs\<close>: its constants, the
  \<open>Request\<close> structure, the incremental byte parser \<open>Parser\<close>, the capture parser
  \<open>parse_packet\<close>, the response encoder, and the request check of the I2C bridge.

  The parser is related to a buffer machine \<open>feed\<close> that only remembers the bytes of the
  frame being received; the language accepted by \<open>parse_packet\<close> is then characterised as
  the non-empty concatenations of encoded requests.
\<close>

section \<open>Constants\<close>

definition MAGIC :: u8 where "MAGIC = 0xa5"
definition HEADER_LEN :: nat where [simp]: "HEADER_LEN = 5"
definition MAX_PAYLOAD :: nat where [simp]: "MAX_PAYLOAD = 16"
definition MAX_FRAME :: nat where [simp]: "MAX_FRAME = 21"

definition CMD_RESET :: u8 where "CMD_RESET = 0x01"
definition CMD_LOAD_BPF :: u8 where "CMD_LOAD_BPF = 0x02"
definition CMD_START_BPF :: u8 where "CMD_START_BPF = 0x03"
definition CMD_READ_BPF_MAP :: u8 where "CMD_READ_BPF_MAP = 0x04"
definition CMD_WRITE_BPF_MAP :: u8 where "CMD_WRITE_BPF_MAP = 0x05"
definition CMD_READ_STATUS :: u8 where "CMD_READ_STATUS = 0x06"
definition CMD_QUERY_BPF_CRC :: u8 where "CMD_QUERY_BPF_CRC = 0x07"
definition CMD_I2C_WRITE :: u8 where "CMD_I2C_WRITE = 0x10"
definition CMD_I2C_READ :: u8 where "CMD_I2C_READ = 0x11"

definition STATUS_OK :: u8 where "STATUS_OK = 0x00"
definition STATUS_BAD_COMMAND :: u8 where "STATUS_BAD_COMMAND = 0x01"
definition STATUS_BAD_LENGTH :: u8 where "STATUS_BAD_LENGTH = 0x02"
definition STATUS_BAD_FLAGS :: u8 where "STATUS_BAD_FLAGS = 0x03"
definition STATUS_NOT_IMPLEMENTED :: u8 where "STATUS_NOT_IMPLEMENTED = 0x04"
definition STATUS_BUSY :: u8 where "STATUS_BUSY = 0x05"
definition STATUS_BAD_STATE :: u8 where "STATUS_BAD_STATE = 0x06"
definition STATUS_BAD_CRC :: u8 where "STATUS_BAD_CRC = 0x07"
definition STATUS_FLASH_ERROR :: u8 where "STATUS_FLASH_ERROR = 0x08"
definition STATUS_NO_PROGRAM :: u8 where "STATUS_NO_PROGRAM = 0x09"

lemmas command_codes = CMD_RESET_def CMD_LOAD_BPF_def CMD_START_BPF_def CMD_READ_BPF_MAP_def
  CMD_WRITE_BPF_MAP_def CMD_READ_STATUS_def CMD_QUERY_BPF_CRC_def CMD_I2C_WRITE_def
  CMD_I2C_READ_def

lemmas status_codes = STATUS_OK_def STATUS_BAD_COMMAND_def STATUS_BAD_LENGTH_def
  STATUS_BAD_FLAGS_def STATUS_NOT_IMPLEMENTED_def STATUS_BUSY_def STATUS_BAD_STATE_def
  STATUS_BAD_CRC_def STATUS_FLASH_ERROR_def STATUS_NO_PROGRAM_def

section \<open>Requests\<close>

record request =
  req_command :: u8
  req_sequence :: u8
  req_flags :: u8
  req_payload :: bytes
  req_payload_len :: u8

definition request_empty :: request where
  "request_empty = \<lparr>req_command = 0, req_sequence = 0, req_flags = 0,
     req_payload = replicate MAX_PAYLOAD 0, req_payload_len = 0\<rparr>"

text \<open>The payload of a request: \<open>&request.payload[..request.payload_len as usize]\<close>.\<close>

definition request_body :: "request \<Rightarrow> bytes" where
  "request_body r = take (unat (req_payload_len r)) (req_payload r)"

text \<open>A request as the parsers build it: the payload array has its 16 bytes, the length
  fits, and the unused tail is zero.\<close>

definition wf_request :: "request \<Rightarrow> bool" where
  "wf_request r \<longleftrightarrow> length (req_payload r) = MAX_PAYLOAD \<and> unat (req_payload_len r) \<le> MAX_PAYLOAD
     \<and> drop (unat (req_payload_len r)) (req_payload r)
         = replicate (MAX_PAYLOAD - unat (req_payload_len r)) 0"

section \<open>The incremental parser\<close>

datatype parse_error = BadMagic | FrameTooLong | BadLength

record parser =
  ps_frame :: bytes
  ps_length :: nat

definition parser_new :: parser where
  "parser_new = \<lparr>ps_frame = replicate MAX_FRAME 0, ps_length = 0\<rparr>"

definition parser_reset :: "parser \<Rightarrow> parser" where
  "parser_reset p = p\<lparr>ps_length := 0\<rparr>"

definition push :: "parser \<Rightarrow> u8 \<Rightarrow> ((parse_error + request option) \<times> parser) may_panic" where
  "push p byte =
     (if ps_length p = 0 \<and> byte \<noteq> MAGIC then Some (Inl BadMagic, p)
      else if ps_length p = MAX_FRAME then Some (Inl FrameTooLong, parser_reset p)
      else do {
        frame \<leftarrow> set_at (ps_frame p) (ps_length p) byte;
        let p = p\<lparr>ps_frame := frame, ps_length := ps_length p + 1\<rparr>;
        if ps_length p = HEADER_LEN \<and> unat (frame ! 2) > MAX_PAYLOAD
        then Some (Inl BadLength, parser_reset p)
        else if ps_length p \<ge> HEADER_LEN \<and> ps_length p = HEADER_LEN + unat (frame ! 2)
        then do {
          body \<leftarrow> slice frame HEADER_LEN (ps_length p);
          payload \<leftarrow> copy_into (replicate MAX_PAYLOAD 0) 0 body;
          Some (Inr (Some \<lparr>req_command = frame ! 1, req_sequence = frame ! 3,
                            req_flags = frame ! 4, req_payload = payload,
                            req_payload_len = of_nat (unat (frame ! 2))\<rparr>),
                parser_reset p)
        }
        else Some (Inr None, p)
      })"

text \<open>The loop of \<open>parse_packet\<close>: a later frame replaces an earlier one, an error
  abandons the capture, and a trailing partial frame rejects it.\<close>

fun parse_packet_loop :: "parser \<Rightarrow> request option \<Rightarrow> bytes \<Rightarrow> request option may_panic" where
  "parse_packet_loop p req [] = Some (if ps_length p \<noteq> 0 then None else req)"
| "parse_packet_loop p req (b # bs) = do {
     (res, p') \<leftarrow> push p b;
     (case res of
        Inr (Some v) \<Rightarrow> parse_packet_loop p' (Some v) bs
      | Inr None \<Rightarrow> parse_packet_loop p' req bs
      | Inl _ \<Rightarrow> Some None)
   }"

definition parse_packet :: "bytes \<Rightarrow> bool \<Rightarrow> request option may_panic" where
  "parse_packet packet truncated =
     (if truncated then Some None else parse_packet_loop parser_new None packet)"

section \<open>Responses and the bridge's request check\<close>

definition encode_response ::
    "u8 \<Rightarrow> u8 \<Rightarrow> u8 \<Rightarrow> bytes \<Rightarrow> bytes \<Rightarrow> ((parse_error + nat) \<times> bytes) may_panic" where
  "encode_response status sq fl payload output =
     (if length payload > MAX_PAYLOAD then Some (Inl BadLength, output)
      else do {
        let output = output[0 := MAGIC, 1 := status, 2 := of_nat (length payload), 3 := sq, 4 := fl];
        output \<leftarrow> copy_into output HEADER_LEN payload;
        Some (Inr (HEADER_LEN + length payload), output)
      })"

definition validate_i2c_request :: "request \<Rightarrow> (u8, unit) rust_result" where
  "validate_i2c_request r =
     (let payload_len = unat (req_payload_len r) in
      if req_flags r \<noteq> 0 then Inl STATUS_BAD_FLAGS
      else if req_command r \<noteq> CMD_I2C_WRITE \<and> req_command r \<noteq> CMD_I2C_READ
      then Inl STATUS_BAD_COMMAND
      else if payload_len = 0 \<or> payload_len > MAX_PAYLOAD then Inl STATUS_BAD_LENGTH
      else if (req_payload r ! 0) AND 0x80 \<noteq> 0 then Inl STATUS_BAD_COMMAND
      else if req_command r = CMD_I2C_READ
              \<and> (payload_len \<noteq> 2 \<or> unat (req_payload r ! 1) > MAX_PAYLOAD)
      then Inl STATUS_BAD_LENGTH
      else Inr ())"

section \<open>Frames as byte lists\<close>

text \<open>The bytes of a frame on the wire, and the frame read back.\<close>

definition encode_request :: "request \<Rightarrow> bytes" where
  "encode_request r =
     [MAGIC, req_command r, req_payload_len r, req_sequence r, req_flags r] @ request_body r"

definition decode_frame :: "bytes \<Rightarrow> request" where
  "decode_frame f = \<lparr>req_command = f ! 1, req_sequence = f ! 3, req_flags = f ! 4,
     req_payload = drop 5 f @ replicate (21 - length f) 0, req_payload_len = f ! 2\<rparr>"

definition complete_frame :: "bytes \<Rightarrow> bool" where
  "complete_frame f \<longleftrightarrow> 5 \<le> length f \<and> f ! 0 = MAGIC \<and> unat (f ! 2) \<le> 16
     \<and> length f = 5 + unat (f ! 2)"

definition partial_frame :: "bytes \<Rightarrow> bool" where
  "partial_frame f \<longleftrightarrow> (f \<noteq> [] \<longrightarrow> f ! 0 = MAGIC)
     \<and> (5 \<le> length f \<longrightarrow> unat (f ! 2) \<le> 16 \<and> length f < 5 + unat (f ! 2))"

lemma length_encode_request:
  "wf_request r \<Longrightarrow> length (encode_request r) = 5 + unat (req_payload_len r)"
  by (simp add: encode_request_def request_body_def wf_request_def)

lemma complete_encode_request: "wf_request r \<Longrightarrow> complete_frame (encode_request r)"
  by (simp add: complete_frame_def length_encode_request)
     (simp add: encode_request_def wf_request_def)

lemma decode_encode_request:
  assumes "wf_request r"
  shows "decode_frame (encode_request r) = r"
proof -
  let ?n = "unat (req_payload_len r)"
  have "request_body r @ replicate (16 - ?n) 0 = req_payload r"
    using assms append_take_drop_id [of ?n "req_payload r"]
    by (simp add: wf_request_def request_body_def)
  moreover have "21 - length (encode_request r) = 16 - ?n"
    using length_encode_request [OF assms] by simp
  ultimately show ?thesis
    by (simp add: decode_frame_def encode_request_def)
qed

lemma wf_decode_frame:
  assumes "complete_frame f"
  shows "wf_request (decode_frame f)"
  using assms by (auto simp: complete_frame_def wf_request_def decode_frame_def)

lemma encode_decode_frame:
  assumes "complete_frame f"
  shows "encode_request (decode_frame f) = f"
proof -
  from assms obtain a b c d e rest where f: "f = a # b # c # d # e # rest"
    by (auto simp: complete_frame_def numeral_eq_Suc Suc_le_length_iff)
  with assms have "a = MAGIC" and "length rest = unat c"
    by (simp_all add: complete_frame_def)
  with f show ?thesis
    by (simp add: encode_request_def decode_frame_def request_body_def)
qed

lemma partial_not_complete: "partial_frame f \<Longrightarrow> f \<noteq> [] \<Longrightarrow> \<not> complete_frame f"
  by (auto simp: partial_frame_def complete_frame_def)

lemma complete_frame_prefix:
  assumes "complete_frame f" and "complete_frame g" and "f @ xs = g @ ys"
  shows "f = g \<and> xs = ys"
proof -
  from assms(1,2) have "(f @ xs) ! 2 = f ! 2" and "(g @ ys) ! 2 = g ! 2"
    by (simp_all add: complete_frame_def nth_append)
  with assms(3) have "f ! 2 = g ! 2" by simp
  with assms(1,2) have "length f = length g" by (simp add: complete_frame_def)
  with assms(3) show ?thesis by simp
qed

section \<open>The parser as a buffer machine\<close>

text \<open>What a parser remembers is the bytes of the frame it is receiving.\<close>

definition parser_buf :: "parser \<Rightarrow> bytes" where
  "parser_buf p = take (ps_length p) (ps_frame p)"

definition parser_wf :: "parser \<Rightarrow> bool" where
  "parser_wf p \<longleftrightarrow> length (ps_frame p) = MAX_FRAME \<and> ps_length p < MAX_FRAME
     \<and> partial_frame (parser_buf p)"

definition feed :: "bytes \<Rightarrow> u8 \<Rightarrow> (parse_error + request option) \<times> bytes" where
  "feed buf b =
     (if buf = [] \<and> b \<noteq> MAGIC then (Inl BadMagic, [])
      else let f = buf @ [b] in
        if length f = 5 \<and> unat (f ! 2) > 16 then (Inl BadLength, [])
        else if complete_frame f then (Inr (Some (decode_frame f)), [])
        else (Inr None, f))"

lemma parser_new_wf: "parser_wf parser_new"
  by (simp add: parser_wf_def parser_new_def parser_buf_def partial_frame_def)

lemma parser_new_buf: "parser_buf parser_new = []"
  by (simp add: parser_new_def parser_buf_def)

lemma parser_reset_wf: "length (ps_frame p) = MAX_FRAME \<Longrightarrow> parser_wf (parser_reset p)"
  by (simp add: parser_wf_def parser_reset_def parser_buf_def partial_frame_def)

lemma parser_reset_buf: "parser_buf (parser_reset p) = []"
  by (simp add: parser_reset_def parser_buf_def)

lemma partial_frame_snoc:
  assumes "partial_frame buf" and "buf \<noteq> [] \<or> b = MAGIC"
    and "\<not> (length (buf @ [b]) = 5 \<and> unat ((buf @ [b]) ! 2) > 16)"
    and "\<not> complete_frame (buf @ [b])"
  shows "partial_frame (buf @ [b])"
proof -
  have magic: "(buf @ [b]) ! 0 = MAGIC"
    using assms(1,2) by (cases buf) (auto simp: partial_frame_def)
  have "unat ((buf @ [b]) ! 2) \<le> 16 \<and> length (buf @ [b]) \<le> 5 + unat ((buf @ [b]) ! 2)"
    if "5 \<le> length (buf @ [b])"
  proof (cases "length (buf @ [b]) = 5")
    case True
    then show ?thesis using assms(3) by simp
  next
    case False
    with that have "5 \<le> length buf" by simp
    moreover from this have "(buf @ [b]) ! 2 = buf ! 2" by (simp add: nth_append)
    ultimately show ?thesis using assms(1) by (auto simp: partial_frame_def)
  qed
  moreover have "length (buf @ [b]) \<noteq> 5 + unat ((buf @ [b]) ! 2)"
    if "5 \<le> length (buf @ [b])"
    using assms(4) magic calculation [OF that] that by (simp add: complete_frame_def)
  ultimately show ?thesis
    using magic by (simp add: partial_frame_def le_neq_implies_less)
qed

lemma feed_partial: "partial_frame buf \<Longrightarrow> partial_frame (snd (feed buf b))"
  using partial_frame_snoc [of buf b] by (auto simp: feed_def Let_def partial_frame_def)

text \<open>A step of the real parser is a step of the buffer machine; it never panics.\<close>

lemma push_feed:
  assumes wf: "parser_wf p"
  shows "\<exists>p'. push p b = Some (fst (feed (parser_buf p) b), p')
           \<and> parser_wf p' \<and> parser_buf p' = snd (feed (parser_buf p) b)"
proof (cases "ps_length p = 0 \<and> b \<noteq> MAGIC")
  case True
  then have "parser_buf p = []" by (simp add: parser_buf_def)
  with True wf show ?thesis by (auto simp: push_def feed_def)
next
  case False
  let ?k = "ps_length p" let ?buf = "parser_buf p"
  from wf have len: "length (ps_frame p) = 21" and k: "?k < 21"
    by (simp_all add: parser_wf_def)
  have lenbuf: "length ?buf = ?k" using len k by (simp add: parser_buf_def)
  have guard: "\<not> (?buf = [] \<and> b \<noteq> MAGIC)"
    using False lenbuf by (metis length_0_conv)
  obtain F where set: "set_at (ps_frame p) ?k b = Some F" and lenF: "length F = 21"
    and buf': "take (?k + 1) F = ?buf @ [b]"
    using len k by (simp add: set_at_def parser_buf_def take_Suc_conv_app_nth)
  have nth: "F ! i = (?buf @ [b]) ! i" if "i < ?k + 1" for i
    using buf' that by (metis nth_take)
  let ?q = "p\<lparr>ps_frame := F, ps_length := ?k + 1\<rparr>"
  have qbuf: "parser_buf ?q = ?buf @ [b]" using buf' by (simp add: parser_buf_def)
  consider (long) "?k + 1 = 5" "unat (F ! 2) > 16"
    | (full) "\<not> (?k + 1 = 5 \<and> unat (F ! 2) > 16)" "5 \<le> ?k + 1" "?k + 1 = 5 + unat (F ! 2)"
    | (more) "\<not> (?k + 1 = 5 \<and> unat (F ! 2) > 16)" "\<not> (5 \<le> ?k + 1 \<and> ?k + 1 = 5 + unat (F ! 2))"
    by blast
  then show ?thesis
  proof cases
    case long
    then have "feed ?buf b = (Inl BadLength, [])"
      using guard lenbuf nth [of 2] by (simp add: feed_def)
    moreover have "push p b = Some (Inl BadLength, parser_reset ?q)"
      using False k set long by (simp add: push_def)
    ultimately show ?thesis
      using lenF by (simp add: parser_reset_wf parser_reset_buf)
  next
    case full
    have le16: "unat (F ! 2) \<le> 16" using full(3) k by linarith
    have magic: "(?buf @ [b]) ! 0 = MAGIC"
      using wf guard lenbuf by (cases ?buf) (auto simp: parser_wf_def partial_frame_def)
    have comp: "complete_frame (?buf @ [b])"
      using full le16 magic lenbuf nth [of 2]
      by (simp add: complete_frame_def)
    have fd: "feed ?buf b = (Inr (Some (decode_frame (?buf @ [b]))), [])"
      using guard comp by (auto simp: feed_def Let_def complete_frame_def)
    have sl: "slice F 5 (?k + 1) = Some (drop 5 (?buf @ [b]))"
      unfolding slice_def buf' [symmetric] drop_take using full(2) lenF k by simp
    have body: "length (drop 5 (?buf @ [b])) = unat (F ! 2)"
      using full lenbuf by (simp)
    have cp: "copy_into (replicate 16 0) 0 (drop 5 (?buf @ [b]))
        = Some (drop 5 (?buf @ [b]) @ replicate (21 - length (?buf @ [b])) 0)"
      using le16 body full(3) lenbuf by (simp add: copy_into_def)
    have "push p b = Some (Inr (Some (decode_frame (?buf @ [b]))), parser_reset ?q)"
      using False k set full sl cp nth [of 1] nth [of 2] nth [of 3] nth [of 4] le16
      by (simp add: push_def decode_frame_def)
    with fd show ?thesis
      using lenF by (simp add: parser_reset_wf parser_reset_buf)
  next
    case more
    have nc: "\<not> complete_frame (?buf @ [b])"
      using more(2) lenbuf nth [of 2] by (auto simp: complete_frame_def)
    have nl: "\<not> (length (?buf @ [b]) = 5 \<and> unat ((?buf @ [b]) ! 2) > 16)"
      using more(1) lenbuf nth [of 2] by auto
    have fd: "feed ?buf b = (Inr None, ?buf @ [b])"
      using guard nc nl by (simp add: feed_def Let_def)
    have part: "partial_frame (?buf @ [b])"
      using wf guard nc nl by (intro partial_frame_snoc) (auto simp: parser_wf_def)
    then have "?k + 1 < 21"
      using lenbuf by (cases "5 \<le> ?k + 1") (auto simp: partial_frame_def)
    moreover have "push p b = Some (Inr None, ?q)"
      using False k set more by (auto simp: push_def)
    ultimately show ?thesis
      using fd part qbuf lenF by (simp add: parser_wf_def)
  qed
qed

section \<open>The language of captures\<close>

fun feed_loop :: "bytes \<Rightarrow> request option \<Rightarrow> bytes \<Rightarrow> request option" where
  "feed_loop buf req [] = (if buf \<noteq> [] then None else req)"
| "feed_loop buf req (b # bs) =
     (case feed buf b of
        (Inr (Some v), buf') \<Rightarrow> feed_loop buf' (Some v) bs
      | (Inr None, buf') \<Rightarrow> feed_loop buf' req bs
      | (Inl _, _) \<Rightarrow> None)"

lemma parse_packet_loop_feed:
  "parser_wf p \<Longrightarrow> parse_packet_loop p req bs = Some (feed_loop (parser_buf p) req bs)"
proof (induction bs arbitrary: p req)
  case Nil
  then have "(parser_buf p = []) = (ps_length p = 0)"
    by (auto simp: parser_wf_def parser_buf_def)
  then show ?case by simp
next
  case (Cons b bs)
  obtain p' where p': "push p b = Some (fst (feed (parser_buf p) b), p')" "parser_wf p'"
    "parser_buf p' = snd (feed (parser_buf p) b)"
    using push_feed [OF Cons.prems, of b] by blast
  then show ?case
    using Cons.IH [OF p'(2)] by (auto split: prod.splits sum.splits option.splits)
qed

text \<open>The frames a byte sequence spells, read from a parser that already holds
  \<open>buf\<close>.\<close>

definition frames_from :: "bytes \<Rightarrow> bytes \<Rightarrow> request list \<Rightarrow> bool" where
  "frames_from buf bs rs \<longleftrightarrow>
     (\<forall>r \<in> set rs. wf_request r) \<and> buf @ bs = concat (map encode_request rs)"

lemma frames_from_complete:
  assumes "complete_frame f"
  shows "frames_from f bs rs \<longleftrightarrow> (\<exists>rs'. rs = decode_frame f # rs' \<and> frames_from [] bs rs')"
proof
  assume fr: "frames_from f bs rs"
  have "f \<noteq> []" using assms by (auto simp: complete_frame_def)
  with fr obtain r rs' where rs: "rs = r # rs'" by (cases rs) (auto simp: frames_from_def)
  with fr have wf: "wf_request r" and "f @ bs = encode_request r @ concat (map encode_request rs')"
    by (auto simp: frames_from_def)
  then have "f = encode_request r \<and> bs = concat (map encode_request rs')"
    using complete_frame_prefix [OF assms complete_encode_request [OF wf]] by blast
  then show "\<exists>rs'. rs = decode_frame f # rs' \<and> frames_from [] bs rs'"
    using fr rs decode_encode_request [OF wf] by (auto simp: frames_from_def)
next
  assume "\<exists>rs'. rs = decode_frame f # rs' \<and> frames_from [] bs rs'"
  then show "frames_from f bs rs"
    using wf_decode_frame [OF assms] encode_decode_frame [OF assms] by (auto simp: frames_from_def)
qed

lemma frames_from_bad_magic: "b \<noteq> MAGIC \<Longrightarrow> \<not> frames_from [] (b # bs) rs"
  by (cases rs) (auto simp: frames_from_def encode_request_def)

lemma frames_from_bad_length:
  assumes "length f = 5" and "unat (f ! 2) > 16"
  shows "\<not> frames_from f bs rs"
proof
  assume fr: "frames_from f bs rs"
  with assms(1) obtain r rs' where "rs = r # rs'"
    by (cases rs) (auto simp: frames_from_def)
  with fr have "wf_request r" and "(f @ bs) ! 2 = req_payload_len r"
    by (auto simp: frames_from_def encode_request_def)
  with assms show False by (simp add: nth_append wf_request_def)
qed

lemma frames_from_partial_end:
  assumes "partial_frame f" and "f \<noteq> []"
  shows "\<not> frames_from f [] rs"
proof
  assume fr: "frames_from f [] rs"
  with assms(2) obtain r rs' where rs: "rs = r # rs'" by (cases rs) (auto simp: frames_from_def)
  with fr have wf: "wf_request r" and f: "f = encode_request r @ concat (map encode_request rs')"
    by (auto simp: frames_from_def)
  then have "5 \<le> length f" and "f ! 2 = req_payload_len r"
    and "5 + unat (req_payload_len r) \<le> length f"
    by (simp_all add: length_encode_request) (simp add: encode_request_def)
  with assms(1) show False by (simp add: partial_frame_def)
qed

lemma feed_loop_iff:
  assumes "partial_frame buf"
  shows "feed_loop buf req bs = Some r \<longleftrightarrow>
    (\<exists>rs. frames_from buf bs rs \<and> Some r = (if rs = [] then req else Some (last rs)))"
  using assms
proof (induction bs arbitrary: buf req)
  case Nil
  show ?case
  proof (cases "buf = []")
    case True
    have "frames_from [] [] rs \<longleftrightarrow> rs = []" for rs
      by (cases rs) (simp_all add: frames_from_def encode_request_def)
    with True show ?thesis by auto
  next
    case False
    then show ?thesis using frames_from_partial_end [OF Nil False] by simp
  qed
next
  case (Cons b bs)
  let ?f = "buf @ [b]"
  have shift: "frames_from buf (b # bs) rs = frames_from ?f bs rs" for rs
    by (simp add: frames_from_def)
  consider (magic) "buf = []" "b \<noteq> MAGIC"
    | (long) "\<not> (buf = [] \<and> b \<noteq> MAGIC)" "length ?f = 5 \<and> unat (?f ! 2) > 16"
    | (comp) "\<not> (buf = [] \<and> b \<noteq> MAGIC)" "complete_frame ?f"
    | (more) "\<not> (buf = [] \<and> b \<noteq> MAGIC)" "\<not> (length ?f = 5 \<and> unat (?f ! 2) > 16)"
        "\<not> complete_frame ?f"
    by blast
  then show ?case
  proof cases
    case magic
    then show ?thesis using frames_from_bad_magic by (simp add: feed_def)
  next
    case long
    then have "feed buf b = (Inl BadLength, [])" by (simp add: feed_def Let_def)
    then show ?thesis
      using frames_from_bad_length [of ?f bs] long by (simp add: shift)
  next
    case comp
    then have fd: "feed buf b = (Inr (Some (decode_frame ?f)), [])"
      by (auto simp: feed_def Let_def complete_frame_def)
    let ?v = "decode_frame ?f"
    have "frames_from buf (b # bs) rs \<longleftrightarrow> (\<exists>rs'. rs = ?v # rs' \<and> frames_from [] bs rs')" for rs
      unfolding shift by (rule frames_from_complete [OF comp(2)])
    then have "(\<exists>rs. frames_from buf (b # bs) rs \<and> Some r = (if rs = [] then req else Some (last rs)))
        \<longleftrightarrow> (\<exists>rs'. frames_from [] bs rs' \<and> Some r = Some (last (?v # rs')))"
      by (metis list.distinct(1))
    also have "\<dots> \<longleftrightarrow>
        (\<exists>rs'. frames_from [] bs rs' \<and> Some r = (if rs' = [] then Some ?v else Some (last rs')))"
      by (simp add: if_distrib)
    also have "\<dots> \<longleftrightarrow> feed_loop [] (Some ?v) bs = Some r"
      by (rule Cons.IH [symmetric]) (simp add: partial_frame_def)
    finally show ?thesis by (simp add: fd)
  next
    case more
    then have fd: "feed buf b = (Inr None, ?f)" by (simp add: feed_def Let_def)
    have "partial_frame ?f" using Cons.prems more by (intro partial_frame_snoc) auto
    from Cons.IH [OF this] show ?thesis by (simp add: fd shift)
  qed
qed

lemma parse_packet_feed: "parse_packet bs False = Some (feed_loop [] None bs)"
  using parse_packet_loop_feed [OF parser_new_wf, of None bs]
  by (simp add: parse_packet_def parser_new_buf)

lemma partial_frame_Nil [simp]: "partial_frame []"
  by (simp add: partial_frame_def)

lemma parse_packet_wf: "parse_packet bs t = Some (Some r) \<Longrightarrow> wf_request r"
proof (cases t)
  case False
  assume "parse_packet bs t = Some (Some r)"
  then obtain rs where "frames_from [] bs rs" "Some r = (if rs = [] then None else Some (last rs))"
    using False feed_loop_iff [of "[]" None bs r] by (auto simp: parse_packet_feed)
  then show ?thesis by (auto simp: frames_from_def split: if_splits)
qed (simp add: parse_packet_def)

lemma parse_packet_not_none: "\<exists>res. parse_packet bs t = Some res"
  by (cases t) (auto simp: parse_packet_feed, simp add: parse_packet_def)

lemma parse_packet_single:
  assumes "wf_request r"
  shows "parse_packet (encode_request r) False = Some (Some r)"
proof -
  have "feed_loop [] None (encode_request r) = Some r"
    unfolding feed_loop_iff [OF partial_frame_Nil]
    by (rule exI [of _ "[r]"]) (simp add: frames_from_def assms)
  then show ?thesis by (simp add: parse_packet_feed)
qed

lemma drop_five: "drop (5 + n) (a # b # c # d # e # rest) = drop n rest"
  by (simp add: numeral_eq_Suc)

lemma take_five: "take (5 + n) (a # b # c # d # e # rest) = a # b # c # d # e # take n rest"
  by (simp add: numeral_eq_Suc)

text \<open>The frame a response leaves in an output buffer, with zero flags.\<close>

definition reply_frame :: "u8 \<Rightarrow> u8 \<Rightarrow> bytes \<Rightarrow> bytes" where
  "reply_frame status sq payload = [MAGIC, status, of_nat (length payload), sq, 0] @ payload"

lemma encode_response_ok:
  assumes "length out = MAX_FRAME" and "length pl \<le> MAX_PAYLOAD"
  shows "encode_response status sq fl pl out =
    Some (Inr (5 + length pl), [MAGIC, status, of_nat (length pl), sq, fl] @ pl @ drop (5 + length pl) out)"
proof -
  from assms(1) have "5 \<le> length out" by simp
  then obtain a b c d e rest where "out = a # b # c # d # e # rest"
    by (auto simp: numeral_eq_Suc Suc_le_length_iff)
  with assms(1) have "out = a # b # c # d # e # rest" "length rest = 16" by simp_all
  then show ?thesis using assms(2)
    by (simp add: encode_response_def copy_into_def drop_five)
qed

lemma and_high_bit_clear: "((w :: u8) AND 0x80 = 0) \<longleftrightarrow> unat w < 128"
proof -
  have "(w AND 0x80 = 0) \<longleftrightarrow> \<not> bit w 7"
  proof -
    have "(0x80 :: u8) = push_bit 7 1" by simp
    then show ?thesis
      by (metis (no_types) and_exp_eq_0_iff_not_bit push_bit_eq_mult mult_1)
  qed
  also have "\<dots> \<longleftrightarrow> unat w < 128"
  proof -
    have "bit w 7 \<longleftrightarrow> odd (unat w div 128)"
      using bit_iff_odd [of "unat w" 7] by (simp add: bit_unsigned_iff)
    moreover have "unat w div 128 < 2"
      using unat_u8_less [of w] by (intro less_mult_imp_div_less) simp
    then have "odd (unat w div 128) \<longleftrightarrow> unat w div 128 \<noteq> 0"
      by (auto simp: less_2_cases_iff)
    ultimately show ?thesis by (simp add: div_eq_0_iff)
  qed
  finally show ?thesis .
qed

section \<open>Properties of the wire protocol\<close>

text \<open>C19: A capture is accepted exactly when it is a non-empty concatenation of well-formed
  frames with nothing left over, and the request returned is the last of them.\<close>

theorem parse_packet_language:
  "parse_packet bs False = Some (Some r) \<longleftrightarrow>
     (\<exists>rs. rs \<noteq> [] \<and> list_all wf_request rs \<and> bs = concat (map encode_request rs) \<and> r = last rs)"
proof -
  have "parse_packet bs False = Some (Some r) \<longleftrightarrow>
      (\<exists>rs. frames_from [] bs rs \<and> Some r = (if rs = [] then None else Some (last rs)))"
    by (simp add: parse_packet_feed feed_loop_iff)
  then show ?thesis by (auto simp: frames_from_def list_all_iff)
qed

text \<open>Every error of the byte parser leaves it at a frame boundary, well-formed, so the next
  magic byte starts a frame; the \<open>FrameTooLong\<close> error is never raised.\<close>

lemma push_error_resynchronises:
  assumes "parser_wf p" and "push p b = Some (Inl e, p')"
  shows "e \<noteq> FrameTooLong \<and> parser_wf p' \<and> parser_buf p' = []"
proof -
  obtain q where q: "push p b = Some (fst (feed (parser_buf p) b), q)" "parser_wf q"
    "parser_buf q = snd (feed (parser_buf p) b)"
    using push_feed [OF assms(1)] by blast
  with assms(2) have "fst (feed (parser_buf p) b) = Inl e" and "q = p'" by simp_all
  with q show ?thesis by (auto simp: feed_def Let_def split: if_splits)
qed

text \<open>C25: A response is a frame the same parser reads back: within the frame bound, with the
  status, sequence, flags and payload that were given, and without a panic.\<close>

theorem encode_response_roundtrip:
  assumes "length out = MAX_FRAME" and "length pl \<le> MAX_PAYLOAD"
  shows "\<exists>out'. encode_response status sq fl pl out = Some (Inr (HEADER_LEN + length pl), out')
    \<and> length out' = MAX_FRAME
    \<and> parse_packet (take (HEADER_LEN + length pl) out') False
        = Some (Some \<lparr>req_command = status, req_sequence = sq, req_flags = fl,
            req_payload = pl @ replicate (MAX_PAYLOAD - length pl) 0,
            req_payload_len = of_nat (length pl)\<rparr>)"
proof -
  let ?out = "[MAGIC, status, of_nat (length pl), sq, fl] @ pl @ drop (5 + length pl) out"
  let ?r = "\<lparr>req_command = status, req_sequence = sq, req_flags = fl,
      req_payload = pl @ replicate (MAX_PAYLOAD - length pl) 0,
      req_payload_len = of_nat (length pl)\<rparr>"
  have len: "unat (of_nat (length pl) :: u8) = length pl"
    using assms(2) by (simp add: unat_of_nat)
  have wf: "wf_request ?r" using assms(2) len by (simp add: wf_request_def)
  have "take (5 + length pl) ?out = [MAGIC, status, of_nat (length pl), sq, fl] @ pl"
    by (simp add: take_five)
  also have "\<dots> = encode_request ?r"
    using len by (simp add: encode_request_def request_body_def)
  finally have "parse_packet (take (5 + length pl) ?out) False = Some (Some ?r)"
    using parse_packet_single [OF wf] by simp
  then show ?thesis
    using encode_response_ok [OF assms, of status sq fl] assms by simp
qed

theorem encode_response_roundtrip_witness:
  "length (replicate MAX_FRAME (0::u8)) = MAX_FRAME \<and> length [1::u8, 2] \<le> MAX_PAYLOAD
   \<and> (\<exists>out'. encode_response STATUS_OK 9 0 [1, 2] (replicate MAX_FRAME 0) = Some (Inr 7, out')
      \<and> length out' = MAX_FRAME)"
  using encode_response_roundtrip [of "replicate MAX_FRAME 0" "[1, 2]" STATUS_OK 9 0] by auto

text \<open>The bridge accepts a request exactly when its flags are zero, it is an I2C write with
  at least an address or an I2C read of at most 16 bytes, and the address has seven bits.\<close>

lemma validate_i2c_request_accepts:
  "validate_i2c_request r = Inr () \<longleftrightarrow>
     req_flags r = 0 \<and> unat (req_payload r ! 0) < 128
     \<and> (req_command r = CMD_I2C_WRITE \<and> unat (req_payload_len r) \<in> {1..16}
        \<or> req_command r = CMD_I2C_READ \<and> unat (req_payload_len r) = 2
            \<and> unat (req_payload r ! 1) \<le> 16)"
  by (auto simp: validate_i2c_request_def Let_def command_codes and_high_bit_clear
      split: if_splits)

end
