(* ===== verification/Crc32.thy ===== *)
theory Crc32
  imports Bridge_Base
begin

text \<open>
  The CRC-32 of \<^verbatim>\<open>crates/optibridge-protocol/src/lib.rs\<close> (\<open>crc32_update\<close>,
  \<open>crc32_finish\<close>, \<open>crc32_iso_hdlc\<close>), which the loader runs over the image as it
  arrives and again over the flash at boot.

  The reference is the bit-serial division of CRC-32/ISO-HDLC as its parameters state it
  (polynomial \<open>0x04C11DB7\<close>, reflected input and output, all-ones initial value and final
  exclusive-or), most significant bit first. The byte loop of the code is its mirror image. The
  step is linear and injective, which gives the error detection the boot check relies on.
\<close>

definition crc32_bit :: "u32 \<Rightarrow> u32" where
  "crc32_bit crc =
     (if crc AND 1 \<noteq> 0 then drop_bit 1 crc XOR 0xedb88320 else drop_bit 1 crc)"

fun crc32_update :: "u32 \<Rightarrow> bytes \<Rightarrow> u32" where
  "crc32_update crc [] = crc"
| "crc32_update crc (b # bs) = crc32_update ((crc32_bit ^^ 8) (crc XOR ucast b)) bs"

definition crc32_finish :: "u32 \<Rightarrow> u32" where
  "crc32_finish crc = crc XOR 0xffffffff"

definition crc32_iso_hdlc :: "bytes \<Rightarrow> u32" where
  "crc32_iso_hdlc bs = crc32_finish (crc32_update 0xffffffff bs)"

lemma crc32_update_append:
  "crc32_update c (xs @ ys) = crc32_update (crc32_update c xs) ys"
  by (induction xs arbitrary: c) auto

section \<open>Reference: bit-serial division\<close>

definition division_step :: "u32 \<Rightarrow> bool \<Rightarrow> u32" where
  "division_step r m = (if bit r 31 \<noteq> m then push_bit 1 r XOR 0x04C11DB7 else push_bit 1 r)"

definition message_bits :: "bytes \<Rightarrow> bool list" where
  "message_bits bs = concat (map (\<lambda>b. map (bit b) [0..<8]) bs)"

definition crc32_reference :: "bytes \<Rightarrow> u32" where
  "crc32_reference bs = word_reverse (foldl division_step 0xffffffff (message_bits bs)) XOR 0xffffffff"

section \<open>The step of the code\<close>

lemma crc32_bit_alt:
  "crc32_bit c = drop_bit 1 c XOR (if bit c 0 then 0xedb88320 else 0)"
  by (auto simp: crc32_bit_def and_one_eq bit_0 odd_iff_mod_2_eq_one)

lemma crc32_bit_xor: "crc32_bit (x XOR y) = crc32_bit x XOR crc32_bit y"
  by (rule bit_word_eqI) (auto simp: crc32_bit_alt bit_simps)

lemma crc32_bit_funpow_xor: "(crc32_bit ^^ n) (x XOR y) = (crc32_bit ^^ n) x XOR (crc32_bit ^^ n) y"
  by (induction n) (auto simp: crc32_bit_xor)

lemma crc32_bit_zero_iff: "crc32_bit x = 0 \<longleftrightarrow> x = 0"
proof
  assume z: "crc32_bit x = 0"
  have "\<not> bit x 0"
  proof
    assume "bit x 0"
    moreover have "\<not> bit x 32" using bit_imp_le_length [of x 32] by auto
    ultimately have "bit (crc32_bit x) 31" by (simp add: crc32_bit_alt bit_simps)
    with z show False by simp
  qed
  with z have "drop_bit 1 x = 0" by (simp add: crc32_bit_alt)
  show "x = 0"
  proof (rule bit_word_eqI)
    fix i
    assume "i < LENGTH(32)"
    show "bit x i = bit 0 i"
    proof (cases i)
      case 0
      then show ?thesis using \<open>\<not> bit x 0\<close> by simp
    next
      case (Suc j)
      have "bit (drop_bit 1 x) j = bit x (Suc j)" by (simp add: bit_drop_bit_eq)
      then show ?thesis using \<open>drop_bit 1 x = 0\<close> Suc by simp
    qed
  qed
qed (simp add: crc32_bit_def)

lemma crc32_bit_funpow_zero_iff: "(crc32_bit ^^ n) x = 0 \<longleftrightarrow> x = 0"
  by (induction n) (auto simp: crc32_bit_zero_iff)

lemma crc32_bit_funpow_inject: "(crc32_bit ^^ n) x = (crc32_bit ^^ n) y \<longleftrightarrow> x = y"
proof -
  have "(crc32_bit ^^ n) x = (crc32_bit ^^ n) y \<longleftrightarrow> (crc32_bit ^^ n) (x XOR y) = 0"
    by (simp only: crc32_bit_funpow_xor xor_eq_0_iff)
  then show ?thesis by (simp only: crc32_bit_funpow_zero_iff xor_eq_0_iff)
qed

section \<open>One message bit at a time\<close>

definition serial_step :: "u32 \<Rightarrow> bool \<Rightarrow> u32" where
  "serial_step c m = crc32_bit (c XOR of_bool m)"

lemma crc32_bit_push:
  assumes "\<not> bit z 31"
  shows "crc32_bit (c XOR push_bit 1 z) = crc32_bit c XOR z"
proof -
  have "drop_bit 1 (push_bit 1 z) = z"
  proof (rule bit_word_eqI)
    fix i
    assume "i < LENGTH(32)"
    then have "1 + i < 32 \<or> i = 31" by auto
    then show "bit (drop_bit 1 (push_bit 1 z)) i = bit z i"
      unfolding bit_drop_bit_eq bit_push_bit_iff
      using assms bit_imp_le_length [of z 32] by auto
  qed
  moreover have "\<not> bit (push_bit 1 z) 0"
    unfolding bit_push_bit_iff by simp
  ultimately have "crc32_bit (push_bit 1 z) = z"
    by (simp add: crc32_bit_alt)
  then show ?thesis by (simp add: crc32_bit_xor)
qed

lemma take_bit_Suc_split:
  "take_bit (Suc n) (y :: u32) = of_bool (bit y 0) XOR push_bit 1 (take_bit n (drop_bit 1 y))"
proof (rule bit_word_eqI)
  fix i
  assume "i < LENGTH(32)"
  then show "bit (take_bit (Suc n) y) i
      = bit (of_bool (bit y 0) XOR push_bit 1 (take_bit n (drop_bit 1 y))) i"
    by (cases i) (auto simp: bit_simps)
qed

lemma serial_bits:
  assumes "n \<le> 32"
  shows "foldl serial_step c (map (bit y) [0..<n]) = (crc32_bit ^^ n) (c XOR take_bit n y)"
  using assms
proof (induction n arbitrary: c y)
  case 0
  then show ?case by simp
next
  case (Suc n)
  let ?z = "take_bit n (drop_bit 1 y)"
  have "map (bit y) [0..<Suc n] = bit y 0 # map (bit (drop_bit 1 y)) [0..<n]"
    by (rule nth_equalityI) (auto simp: nth_Cons bit_drop_bit_eq simp del: upt_Suc split: nat.split)
  then have "foldl serial_step c (map (bit y) [0..<Suc n])
      = (crc32_bit ^^ n) (serial_step c (bit y 0) XOR ?z)"
    using Suc by simp
  also have "serial_step c (bit y 0) XOR ?z = crc32_bit (c XOR take_bit (Suc n) y)"
  proof -
    have "\<not> bit ?z 31"
      using Suc.prems by (auto simp: bit_simps)
    from crc32_bit_push [OF this] show ?thesis
      by (simp only: take_bit_Suc_split serial_step_def xor.assoc [symmetric])
  qed
  finally show ?case by (simp add: funpow_swap1)
qed

lemma crc32_update_serial: "crc32_update c bs = foldl serial_step c (message_bits bs)"
proof (induction bs arbitrary: c)
  case Nil
  then show ?case by (simp add: message_bits_def)
next
  case (Cons b bs)
  have "map (bit b) [0..<8] = map (bit (ucast b :: u32)) [0..<8]"
    by (auto simp: bit_simps)
  moreover have "8 \<le> (32 :: nat)" by simp
  ultimately have "foldl serial_step c (map (bit b) [0..<8]) = (crc32_bit ^^ 8) (c XOR take_bit 8 (ucast b))"
    by (simp only: serial_bits)
  also have "take_bit 8 (ucast b :: u32) = ucast b"
    by (rule bit_word_eqI) (auto simp: bit_simps dest: bit_imp_le_length)
  finally show ?case by (simp add: message_bits_def Cons.IH)
qed

section \<open>The code computes the reference\<close>

lemma word_reverse_poly: "word_reverse (0xedb88320 :: u32) = 0x04C11DB7"
  by code_simp

lemma word_reverse_serial: "word_reverse (serial_step c m) = division_step (word_reverse c) m"
proof -
  have "word_reverse (drop_bit 1 c) = push_bit 1 (word_reverse c)"
  proof (rule bit_word_eqI)
    fix i
    assume i: "i < LENGTH(32)"
    then have "Suc (31 - i) = 32 - i" by simp
    with i show "bit (word_reverse (drop_bit 1 c)) i = bit (push_bit 1 (word_reverse c)) i"
      unfolding bit_word_reverse_iff bit_push_bit_iff bit_drop_bit_eq
      using bit_imp_le_length [of c 32] by (cases "i = 0") (auto simp: Suc_diff_Suc Suc_le_eq)
  qed
  moreover have "serial_step c m = drop_bit 1 c XOR (if bit c 0 \<noteq> m then 0xedb88320 else 0)"
    by (rule bit_word_eqI) (auto simp: serial_step_def crc32_bit_alt bit_simps)
  moreover have "word_reverse (x XOR y) = word_reverse x XOR word_reverse y" for x y :: u32
    by (rule bit_word_eqI) (auto simp: bit_simps bit_word_reverse_iff)
  moreover have "word_reverse (0 :: u32) = 0"
    by (rule bit_word_eqI) (simp add: bit_word_reverse_iff)
  moreover have "bit (word_reverse c) 31 = bit c 0"
    by (simp add: bit_word_reverse_iff)
  ultimately show ?thesis
    by (simp add: division_step_def word_reverse_poly)
qed

lemma word_reverse_foldl:
  "word_reverse (foldl serial_step c ms) = foldl division_step (word_reverse c) ms"
  by (induction ms arbitrary: c) (auto simp: word_reverse_serial)

text \<open>C23: The byte loop of the code computes CRC-32/ISO-HDLC: bit-serial division by the
  polynomial \<open>0x04C11DB7\<close>, most significant bit first, with reflected input and output.\<close>

theorem crc32_matches_reference: "crc32_iso_hdlc bs = crc32_reference bs"
proof -
  have "word_reverse (0xffffffff :: u32) = 0xffffffff" by code_simp
  then have "foldl division_step 0xffffffff (message_bits bs)
      = word_reverse (crc32_update 0xffffffff bs)"
    by (simp add: crc32_update_serial word_reverse_foldl)
  then show ?thesis
    by (simp add: crc32_iso_hdlc_def crc32_finish_def crc32_reference_def)
qed

section \<open>Error detection\<close>

lemma length_message_bits: "length (message_bits bs) = 8 * length bs"
  by (induction bs) (auto simp: message_bits_def)

lemma nth_message_bits: "i < 8 * length bs \<Longrightarrow> message_bits bs ! i = bit (bs ! (i div 8)) (i mod 8)"
proof (induction bs arbitrary: i)
  case (Cons b bs)
  show ?case
  proof (cases "i < 8")
    case True
    then show ?thesis by (simp add: message_bits_def nth_append)
  next
    case False
    then obtain j where j: "i = j + 8" by (metis add.commute le_iff_add not_less)
    moreover have "(j + 8) div 8 = Suc (j div 8)" by simp
    ultimately show ?thesis using Cons by (simp add: message_bits_def nth_append)
  qed
qed simp

text \<open>A change is a burst of 32 bits when it lies in 32 consecutive bits of the message, wherever
  these start; bit \<open>8 * k + j\<close> of the message is bit \<open>j\<close> of byte \<open>k\<close>.\<close>

definition same_outside :: "nat \<Rightarrow> bytes \<Rightarrow> bytes \<Rightarrow> bool" where
  "same_outside p xs ys \<longleftrightarrow> length xs = length ys
     \<and> (\<forall>k<length xs. \<forall>j<8. 8 * k + j < p \<or> p + 32 \<le> 8 * k + j \<longrightarrow> bit (xs ! k) j = bit (ys ! k) j)"

lemma serial_foldl_inject: "foldl serial_step c ms = foldl serial_step d ms \<longleftrightarrow> c = d"
proof (induction ms arbitrary: c d)
  case (Cons m ms)
  have "serial_step c m = serial_step d m \<longleftrightarrow> c XOR of_bool m = d XOR of_bool m"
    using crc32_bit_funpow_inject [of 1 "c XOR of_bool m" "d XOR of_bool m"] by (simp add: serial_step_def)
  also have "\<dots> \<longleftrightarrow> c = d" by (metis xor.assoc xor.right_neutral xor_self_eq)
  finally show ?case using Cons by simp
qed simp

lemma serial_bits_inject:
  assumes "length us = length vs" and "length us \<le> 32"
    and "foldl serial_step c us = foldl serial_step c vs"
  shows "us = vs"
proof -
  have word: "foldl serial_step c bs = (crc32_bit ^^ length bs) (c XOR horner_sum of_bool 2 bs)"
    if "length bs \<le> 32" for bs
  proof -
    let ?y = "horner_sum of_bool 2 bs :: u32"
    have "map (bit ?y) [0..<length bs] = bs"
      using that by (intro nth_equalityI) (simp_all add: bit_horner_sum_bit_word_iff)
    moreover have "take_bit (length bs) ?y = ?y" by (simp add: take_bit_horner_sum_bit_eq)
    ultimately show ?thesis using serial_bits [OF that, of c ?y] by simp
  qed
  have "horner_sum of_bool 2 us = (horner_sum of_bool 2 vs :: u32)"
    using assms word [of us] word [of vs] by (simp add: crc32_bit_funpow_inject)
  then have "us ! i = vs ! i" if "i < length us" for i
    using that assms(1,2) bit_horner_sum_bit_word_iff [of us i, where ?'a = 32]
      bit_horner_sum_bit_word_iff [of vs i, where ?'a = 32] by simp
  then show ?thesis using assms(1) by (intro nth_equalityI)
qed

lemma message_bits_inject:
  assumes "length xs = length ys" and "message_bits xs = message_bits ys"
  shows "xs = ys"
proof (rule nth_equalityI [OF assms(1)])
  fix k
  assume k: "k < length xs"
  show "xs ! k = ys ! k"
  proof (rule bit_word_eqI)
    fix j
    assume j: "j < LENGTH(8)"
    then have i: "8 * k + j < 8 * length xs" "(8 * k + j) div 8 = k" "(8 * k + j) mod 8 = j"
      using k by simp_all
    then show "bit (xs ! k) j = bit (ys ! k) j"
      using nth_message_bits [of "8 * k + j" xs] nth_message_bits [of "8 * k + j" ys] assms by simp
  qed
qed

lemma same_outside_bits:
  assumes "same_outside p xs ys"
  shows "take p (message_bits xs) = take p (message_bits ys)"
    and "drop (p + 32) (message_bits xs) = drop (p + 32) (message_bits ys)"
proof -
  have bits: "message_bits xs ! i = message_bits ys ! i" if "i < 8 * length xs" "i < p \<or> p + 32 \<le> i" for i
  proof -
    have "i div 8 < length xs" "i mod 8 < 8" "8 * (i div 8) + i mod 8 = i" using that(1) by simp_all
    then have "bit (xs ! (i div 8)) (i mod 8) = bit (ys ! (i div 8)) (i mod 8)"
      using assms that(2) unfolding same_outside_def by metis
    then show ?thesis
      using assms that(1) nth_message_bits [of i xs] nth_message_bits [of i ys] by (simp add: same_outside_def)
  qed
  have len: "length (message_bits xs) = 8 * length xs" "length (message_bits ys) = 8 * length xs"
    using assms by (simp_all add: length_message_bits same_outside_def)
  show "take p (message_bits xs) = take p (message_bits ys)"
    using bits by (intro nth_equalityI) (simp_all add: len)
  show "drop (p + 32) (message_bits xs) = drop (p + 32) (message_bits ys)"
    using bits by (intro nth_equalityI) (simp_all add: len)
qed

text \<open>C24: The CRC detects every change confined to 32 consecutive bits of the image, at any bit
  position: two images of the same length that agree outside such a window have equal CRCs only if they
  are equal.\<close>

theorem crc32_detects_bursts:
  assumes "same_outside p xs ys"
  shows "crc32_iso_hdlc xs = crc32_iso_hdlc ys \<longleftrightarrow> xs = ys"
proof
  assume eq: "crc32_iso_hdlc xs = crc32_iso_hdlc ys"
  let ?m = "message_bits xs" let ?n = "message_bits ys"
  let ?u = "take 32 (drop p ?m)" let ?v = "take 32 (drop p ?n)"
  have split: "ms = take p ms @ take 32 (drop p ms) @ drop (p + 32) ms" for ms :: "bool list"
    by (metis add.commute append_take_drop_id drop_drop)
  have l: "length xs = length ys" using assms by (simp add: same_outside_def)
  then have len: "length ?u = length ?v" "length ?u \<le> 32" by (simp_all add: length_message_bits)
  have "foldl serial_step 0xffffffff ?m = foldl serial_step 0xffffffff ?n"
    using eq by (simp add: crc32_iso_hdlc_def crc32_finish_def crc32_update_serial)
  then have "foldl serial_step 0xffffffff (take p ?m @ ?u @ drop (p + 32) ?m)
      = foldl serial_step 0xffffffff (take p ?n @ ?v @ drop (p + 32) ?n)"
    by (simp only: split [symmetric])
  then have "?u = ?v"
    using serial_bits_inject [OF len] same_outside_bits [OF assms] by (simp add: serial_foldl_inject)
  then have "?m = ?n" using split [of ?m] split [of ?n] same_outside_bits [OF assms] by simp
  then show "xs = ys" by (rule message_bits_inject [OF l])
qed simp

theorem crc32_detects_bursts_witness:
  "same_outside 5 [0x20, 1, 2, 3, 0x10] [0, 0xff, 2, 3, 0]
   \<and> crc32_iso_hdlc [0x20, 1, 2, 3, 0x10] \<noteq> crc32_iso_hdlc [0, 0xff, 2, 3, 0]"
proof -
  have "same_outside 5 [0x20, 1, 2, 3, 0x10] [0, 0xff, 2, 3, 0]"
    by (simp add: same_outside_def numeral_eq_Suc All_less_Suc)
  then show ?thesis
    using crc32_detects_bursts [of 5 "[0x20, 1, 2, 3, 0x10]" "[0, 0xff, 2, 3, 0]"] by simp
qed

text \<open>Kernel evaluation of the CRC on concrete bytes, and the check value of the algorithm over
  the ASCII digits \<open>123456789\<close>.\<close>

lemma crc32_eight_bits:
  "(crc32_bit ^^ 8) x = crc32_bit (crc32_bit (crc32_bit (crc32_bit
     (crc32_bit (crc32_bit (crc32_bit (crc32_bit x)))))))"
  by (simp add: numeral_eq_Suc)

lemmas crc32_eval = crc32_iso_hdlc_def crc32_finish_def crc32_bit_def crc32_eight_bits

lemma crc32_check_value:
  "crc32_iso_hdlc [0x31, 0x32, 0x33, 0x34, 0x35, 0x36, 0x37, 0x38, 0x39] = 0xcbf43926"
  by (simp add: crc32_eval)

end
