(* ===== verification/Flash_Store.thy ===== *)
theory Flash_Store
  imports Bridge_Base
begin

text \<open>
  The trait \<open>BpfFlash\<close> of \<^verbatim>\<open>crates/optibridge-protocol/src/lib.rs\<close> as a record of
  operations over an abstract device, and what the loader relies on as a locale: the laws of a
  NOR flash, where programming only clears bits and erasing sets whole pages to \<open>0xff\<close>.
  The repository's own implementation is the \<open>FakeFlash\<close> of its tests; it satisfies the
  laws. The firmware's \<open>FlashStorage\<close> (\<^verbatim>\<open>firmware/optibridge/src/main.rs\<close>)
  forwards to the generated HAL and forgets the error values.

  A failed operation may leave anything inside the range it was given, and nothing outside it.
\<close>

section \<open>The interface\<close>

record 'f bpf_flash =
  fl_read :: "'f \<Rightarrow> u32 \<Rightarrow> nat \<Rightarrow> bytes option \<times> 'f"
  fl_write :: "'f \<Rightarrow> u32 \<Rightarrow> bytes \<Rightarrow> bool \<times> 'f"
  fl_erase :: "'f \<Rightarrow> u32 \<Rightarrow> u32 \<Rightarrow> bool \<times> 'f"

text \<open>Programming: the old bytes of the range and the new ones, bit by bit.\<close>

definition program :: "bytes \<Rightarrow> nat \<Rightarrow> bytes \<Rightarrow> bytes" where
  "program cs a bs = take a cs @ map2 (AND) (drop a cs) bs @ drop (a + length bs) cs"

definition same_outside :: "nat \<Rightarrow> nat \<Rightarrow> bytes \<Rightarrow> bytes \<Rightarrow> bool" where
  "same_outside a b cs cs' \<longleftrightarrow> length cs' = length cs \<and> (\<forall>i. i < a \<or> b \<le> i \<longrightarrow> cs' ! i = cs ! i)"

lemma length_program: "a + length bs \<le> length cs \<Longrightarrow> length (program cs a bs) = length cs"
  by (simp add: program_def)

lemma program_nth:
  assumes "a + length bs \<le> length cs" and "i < length cs"
  shows "program cs a bs ! i =
    (if a \<le> i \<and> i < a + length bs then cs ! i AND bs ! (i - a) else cs ! i)"
  using assms by (auto simp: program_def nth_append)

lemma same_outside_program:
  "a + length bs \<le> length cs \<Longrightarrow> same_outside a (a + length bs) cs (program cs a bs)"
  by (auto simp: same_outside_def length_program program_def nth_append)

lemma same_outside_slice:
  assumes "same_outside a b cs cs'" and "d \<le> a \<or> b \<le> c"
  shows "slice cs' c d = slice cs c d"
  using assms by (intro slice_cong_nth) (auto simp: same_outside_def)

lemma same_outside_refl [simp]: "same_outside a b cs cs"
  by (simp add: same_outside_def)

lemma same_outside_mono:
  "same_outside a b cs cs' \<Longrightarrow> a' \<le> a \<Longrightarrow> b \<le> b' \<Longrightarrow> same_outside a' b' cs cs'"
  by (auto simp: same_outside_def)

lemma same_outside_trans:
  "same_outside a b cs cs' \<Longrightarrow> same_outside a b cs' cs'' \<Longrightarrow> same_outside a b cs cs''"
  by (auto simp: same_outside_def)

lemma and_ff [simp]: "(w :: u8) AND 0xff = w" "0xff AND (w :: u8) = w"
proof -
  have "(0xff :: u8) = -1" by simp
  then show "(w :: u8) AND 0xff = w" "0xff AND (w :: u8) = w" by (simp_all only: and.right_neutral and.left_neutral)
qed

text \<open>Programming an erased range stores the bytes; programming \<open>0xff\<close> keeps what is
  there.\<close>

lemma slice_program_erased:
  assumes "slice cs a (a + length bs) = Some (replicate (length bs) 0xff)"
  shows "slice (program cs a bs) a (a + length bs) = Some bs"
proof -
  from assms have le: "a + length bs \<le> length cs"
    and ff: "\<And>i. i < length bs \<Longrightarrow> cs ! (a + i) = 0xff"
    using slice_nth [OF assms] by (auto simp: slice_def split: if_splits)
  have "take (length bs) (drop a (program cs a bs)) = bs"
    using le ff by (intro nth_equalityI) (auto simp: length_program program_nth)
  then show ?thesis using le by (simp add: slice_def length_program)
qed

section \<open>The laws of a NOR flash\<close>

locale nor_flash =
  fixes api :: "'f bpf_flash" and contents :: "'f \<Rightarrow> bytes"
  assumes read_keeps: "fl_read api f off n = (r, f') \<Longrightarrow> contents f' = contents f"
    and read_ok: "fl_read api f off n = (Some bs, f') \<Longrightarrow>
      slice (contents f) (unat off) (unat off + n) = Some bs"
    and write_outside: "fl_write api f off bs = (ok, f') \<Longrightarrow>
      same_outside (unat off) (unat off + length bs) (contents f) (contents f')"
    and write_ok: "fl_write api f off bs = (True, f') \<Longrightarrow>
      unat off + length bs \<le> length (contents f)
      \<and> contents f' = program (contents f) (unat off) bs"
    and erase_outside: "fl_erase api f from to = (ok, f') \<Longrightarrow>
      same_outside (unat from) (unat to) (contents f) (contents f')"
    and erase_ok: "fl_erase api f from to = (True, f') \<Longrightarrow> unat from \<le> unat to \<Longrightarrow>
      slice (contents f') (unat from) (unat to) = Some (replicate (unat to - unat from) 0xff)"
begin

lemma read_length: "fl_read api f off n = (Some bs, f') \<Longrightarrow> length bs = n"
  using read_ok slice_length by fastforce

lemma write_length: "fl_write api f off bs = (ok, f') \<Longrightarrow> length (contents f') = length (contents f)"
  using write_outside by (auto simp: same_outside_def)

lemma write_slice_outside:
  assumes "fl_write api f off bs = (ok, f')" and "d \<le> unat off \<or> unat off + length bs \<le> c"
  shows "slice (contents f') c d = slice (contents f) c d"
  using write_outside [OF assms(1)] assms(2) by (rule same_outside_slice)

lemma write_slice_erased:
  assumes "fl_write api f off bs = (True, f')"
    and "slice (contents f) (unat off) (unat off + length bs) = Some (replicate (length bs) 0xff)"
  shows "slice (contents f') (unat off) (unat off + length bs) = Some bs"
  using write_ok [OF assms(1)] slice_program_erased [OF assms(2)] by simp

end

text \<open>A healthy device: operations within the device, halfword-aligned for programming and
  page-aligned for erasing, succeed.\<close>

locale reliable_flash = nor_flash +
  fixes healthy :: "'f \<Rightarrow> bool"
  assumes read_total: "healthy f \<Longrightarrow> unat off + n \<le> length (contents f) \<Longrightarrow>
      \<exists>bs f'. fl_read api f off n = (Some bs, f') \<and> healthy f'"
    and write_total: "healthy f \<Longrightarrow> even (unat off) \<Longrightarrow> even (length bs) \<Longrightarrow>
      unat off + length bs \<le> length (contents f) \<Longrightarrow>
      \<exists>f'. fl_write api f off bs = (True, f') \<and> healthy f'"
    and erase_total: "healthy f \<Longrightarrow> 4096 dvd unat from \<Longrightarrow> 4096 dvd unat to \<Longrightarrow>
      unat from \<le> unat to \<Longrightarrow> unat to \<le> length (contents f) \<Longrightarrow>
      \<exists>f'. fl_erase api f from to = (True, f') \<and> healthy f'"
begin

lemma read_value:
  assumes "healthy f" and "slice (contents f) (unat off) (unat off + n) = Some bs"
  shows "\<exists>f'. fl_read api f off n = (Some bs, f') \<and> healthy f' \<and> contents f' = contents f"
proof -
  from assms(2) have "unat off + n \<le> length (contents f)" by (auto simp: slice_def split: if_splits)
  then obtain cs f' where r: "fl_read api f off n = (Some cs, f')" "healthy f'"
    using read_total [OF assms(1)] by blast
  then show ?thesis using read_ok [OF r(1)] read_keeps [OF r(1)] assms(2) by auto
qed

end

section \<open>The repository's flash double\<close>

record fake_flash =
  ff_bytes :: bytes
  ff_fail_write :: bool

definition fake_new :: fake_flash where
  "fake_new = \<lparr>ff_bytes = replicate 32768 0xff, ff_fail_write = False\<rparr>"

definition fake_read :: "fake_flash \<Rightarrow> u32 \<Rightarrow> nat \<Rightarrow> bytes option \<times> fake_flash" where
  "fake_read f off n = (slice (ff_bytes f) (unat off) (unat off + n), f)"

definition fake_write :: "fake_flash \<Rightarrow> u32 \<Rightarrow> bytes \<Rightarrow> bool \<times> fake_flash" where
  "fake_write f off bs =
     (if ff_fail_write f \<or> unat off mod 2 \<noteq> 0 \<or> length bs mod 2 \<noteq> 0 then (False, f)
      else case slice (ff_bytes f) (unat off) (unat off + length bs) of
        None \<Rightarrow> (False, f)
      | Some _ \<Rightarrow> (True, f\<lparr>ff_bytes := program (ff_bytes f) (unat off) bs\<rparr>))"

definition fake_erase :: "fake_flash \<Rightarrow> u32 \<Rightarrow> u32 \<Rightarrow> bool \<times> fake_flash" where
  "fake_erase f from to =
     (if unat from mod 4096 \<noteq> 0 \<or> unat to mod 4096 \<noteq> 0 then (False, f)
      else case slice (ff_bytes f) (unat from) (unat to) of
        None \<Rightarrow> (False, f)
      | Some target \<Rightarrow>
          (True, f\<lparr>ff_bytes := take (unat from) (ff_bytes f) @ replicate (length target) 0xff
                    @ drop (unat to) (ff_bytes f)\<rparr>))"

definition fake_api :: "fake_flash bpf_flash" where
  "fake_api = \<lparr>fl_read = fake_read, fl_write = fake_write, fl_erase = fake_erase\<rparr>"

lemma fake_api_simps [simp]:
  "fl_read fake_api = fake_read" "fl_write fake_api = fake_write" "fl_erase fake_api = fake_erase"
  by (simp_all add: fake_api_def)

lemmas fake_defs = fake_read_def fake_write_def fake_erase_def

lemma fake_erase_outside:
  assumes "fake_erase f from to = (ok, f')"
  shows "same_outside (unat from) (unat to) (ff_bytes f) (ff_bytes f')"
  using assms
  by (auto simp: fake_erase_def slice_def same_outside_def nth_append split: if_splits)

lemma fake_erase_ok:
  assumes "fake_erase f from to = (True, f')" and "unat from \<le> unat to"
  shows "slice (ff_bytes f') (unat from) (unat to) = Some (replicate (unat to - unat from) 0xff)"
  using assms by (auto simp: fake_erase_def slice_def split: if_splits)

interpretation fake: reliable_flash fake_api ff_bytes "\<lambda>f. \<not> ff_fail_write f"
proof (unfold_locales, goal_cases)
  case (5 f "from" to ok f')
  then show ?case using fake_erase_outside by simp
next
  case (6 f "from" to f')
  then show ?case using fake_erase_ok by simp
next
  case (9 f "from" to)
  then show ?case by (auto simp: fake_erase_def slice_def)
qed (auto simp: fake_read_def fake_write_def slice_def same_outside_program
       dest: even_iff_mod_2_eq_zero [THEN iffD1] split: if_splits)

end
