(* ===== verification/Map_Layout.thy ===== *)
theory Map_Layout
  imports Flash_Store
begin

text \<open>
  The image format of \<^verbatim>\<open>crates/optibridge-protocol/src/lib.rs\<close>: its sizes, the length of
  an image (\<open>image_len\<close>), and the placement of the array maps that the image declares in
  the 1,024-byte backing store (\<open>map_layouts\<close>, \<open>MapLayout\<close>).

  \<open>layouts_spec\<close> is the placement over exact arithmetic on a list of descriptors. The
  overflow-checked loop over the flash computes it, never panics, and yields maps that lie one
  after the other inside the backing store.
\<close>

section \<open>Sizes\<close>

definition BPF_FLASH_OFFSET :: u32 where "BPF_FLASH_OFFSET = 0x6000"
definition BPF_FLASH_SIZE :: nat where [simp]: "BPF_FLASH_SIZE = 8192"
definition BPF_HEADER_SIZE :: nat where [simp]: "BPF_HEADER_SIZE = 16"
definition BPF_MAX_BYTECODE :: nat where [simp]: "BPF_MAX_BYTECODE = 7680"
definition BPF_MAX_MAPS :: nat where [simp]: "BPF_MAX_MAPS = 8"
definition BPF_MAP_DESCRIPTOR_SIZE :: nat where [simp]: "BPF_MAP_DESCRIPTOR_SIZE = 16"
definition BPF_MAX_MAP_BYTES :: nat where [simp]: "BPF_MAX_MAP_BYTES = 1024"

definition image_len :: "u16 \<Rightarrow> u8 \<Rightarrow> nat option" where
  "image_len bytecode_len map_count =
     (case usize_mul (unat map_count) BPF_MAP_DESCRIPTOR_SIZE of
        None \<Rightarrow> None
      | Some n \<Rightarrow> usize_add (unat bytecode_len) n)"

lemma image_len_eq: "image_len b m = Some (unat b + 16 * unat m)"
  using unat_u16_less [of b] unat_u8_less [of m]
  by (simp add: image_len_def usize_mul_def usize_add_def)

text \<open>The bounds that \<open>accepts_load\<close> and \<open>validate_committed\<close> both test.\<close>

definition bad_image_bounds :: "u16 \<Rightarrow> u8 \<Rightarrow> nat \<Rightarrow> bool" where
  "bad_image_bounds bytecode_len map_count len \<longleftrightarrow>
     bytecode_len = 0 \<or> unat bytecode_len > BPF_MAX_BYTECODE \<or> unat bytecode_len mod 8 \<noteq> 0
     \<or> unat map_count > BPF_MAX_MAPS \<or> len + BPF_HEADER_SIZE > BPF_FLASH_SIZE"

definition image_bounds :: "u16 \<Rightarrow> u8 \<Rightarrow> bool" where
  "image_bounds b m \<longleftrightarrow> 0 < unat b \<and> unat b \<le> 7680 \<and> 8 dvd unat b \<and> unat m \<le> 8"

lemma image_bounds_iff: "\<not> bad_image_bounds b m (unat b + 16 * unat m) \<longleftrightarrow> image_bounds b m"
  by (auto simp: bad_image_bounds_def image_bounds_def word_neq_0_conv unat_gt_0 unat_eq_zero)

lemma bad_image_bounds_iff: "bad_image_bounds b m (unat b + 16 * unat m) \<longleftrightarrow> \<not> image_bounds b m"
  using image_bounds_iff by blast

section \<open>Placement of the maps\<close>

record map_layout =
  ml_offset :: u16
  ml_len :: u16
  ml_key_size :: u32
  ml_value_size :: u32

definition map_layout_empty :: map_layout where
  "map_layout_empty = \<lparr>ml_offset = 0, ml_len = 0, ml_key_size = 0, ml_value_size = 0\<rparr>"

definition empty_layouts :: "map_layout list" where
  "empty_layouts = replicate BPF_MAX_MAPS map_layout_empty"

definition descriptor_offset :: "u16 \<Rightarrow> nat \<Rightarrow> u32" where
  "descriptor_offset bytecode_len index =
     BPF_FLASH_OFFSET + of_nat BPF_HEADER_SIZE + ucast bytecode_len
       + of_nat (index * BPF_MAP_DESCRIPTOR_SIZE)"

text \<open>The four words of a descriptor, by their constant byte indices.\<close>

definition descriptor_word :: "bytes \<Rightarrow> nat \<Rightarrow> u32" where
  "descriptor_word d k = from_le_bytes [d ! k, d ! (k + 1), d ! (k + 2), d ! (k + 3)]"

fun map_layouts_loop ::
    "'f bpf_flash \<Rightarrow> u16 \<Rightarrow> nat \<Rightarrow> nat \<Rightarrow> u32 \<Rightarrow> map_layout list \<Rightarrow> 'f
       \<Rightarrow> (map_layout list option \<times> 'f) may_panic" where
  "map_layouts_loop api bytecode_len 0 index tot layouts f = Some (Some layouts, f)"
| "map_layouts_loop api bytecode_len (Suc n) index tot layouts f =
     (case fl_read api f (descriptor_offset bytecode_len index) BPF_MAP_DESCRIPTOR_SIZE of
        (None, f) \<Rightarrow> Some (None, f)
      | (Some descriptor, f) \<Rightarrow>
          (let map_type = descriptor_word descriptor 0;
               key_size = descriptor_word descriptor 4;
               value_size = descriptor_word descriptor 8;
               max_entries = descriptor_word descriptor 12 in
           case checked_mul value_size max_entries of
             None \<Rightarrow> Some (None, f)
           | Some bs \<Rightarrow>
             (case checked_add tot bs of
                None \<Rightarrow> Some (None, f)
              | Some next_tot \<Rightarrow>
                  if map_type \<noteq> 1 \<or> key_size \<noteq> 4 \<or> value_size = 0 \<or> max_entries = 0
                     \<or> next_tot > of_nat BPF_MAX_MAP_BYTES
                  then Some (None, f)
                  else do {
                    layouts \<leftarrow> set_at layouts index
                      \<lparr>ml_offset = ucast tot, ml_len = ucast bs,
                       ml_key_size = key_size, ml_value_size = value_size\<rparr>;
                    map_layouts_loop api bytecode_len n (index + 1) next_tot layouts f
                  })))"

declare map_layouts_loop.simps(2) [simp del]

definition map_layouts ::
    "'f bpf_flash \<Rightarrow> 'f \<Rightarrow> u16 \<Rightarrow> u8 \<Rightarrow> ((map_layout list \<times> u8) option \<times> 'f) may_panic" where
  "map_layouts api f bytecode_len map_count = do {
     (layouts, f) \<leftarrow> map_layouts_loop api bytecode_len (unat map_count) 0 0 empty_layouts f;
     Some (map_option (\<lambda>ls. (ls, map_count)) layouts, f)
   }"

section \<open>Specification over exact arithmetic\<close>

record map_desc =
  md_type :: u32
  md_key_size :: u32
  md_value_size :: u32
  md_max_entries :: u32

definition parse_descriptor :: "bytes \<Rightarrow> map_desc" where
  "parse_descriptor d = \<lparr>md_type = descriptor_word d 0, md_key_size = descriptor_word d 4,
     md_value_size = descriptor_word d 8, md_max_entries = descriptor_word d 12\<rparr>"

definition md_bytes :: "map_desc \<Rightarrow> nat" where
  "md_bytes d = unat (md_value_size d) * unat (md_max_entries d)"

definition md_valid :: "nat \<Rightarrow> map_desc \<Rightarrow> bool" where
  "md_valid t d \<longleftrightarrow> md_type d = 1 \<and> md_key_size d = 4 \<and> md_value_size d \<noteq> 0
     \<and> md_max_entries d \<noteq> 0 \<and> t + md_bytes d \<le> BPF_MAX_MAP_BYTES"

definition md_layout :: "nat \<Rightarrow> map_desc \<Rightarrow> map_layout" where
  "md_layout t d = \<lparr>ml_offset = of_nat t, ml_len = of_nat (md_bytes d),
     ml_key_size = md_key_size d, ml_value_size = md_value_size d\<rparr>"

fun layouts_spec :: "nat \<Rightarrow> map_desc list \<Rightarrow> map_layout list option" where
  "layouts_spec t [] = Some []"
| "layouts_spec t (d # ds) =
     (if md_valid t d then map_option ((#) (md_layout t d)) (layouts_spec (t + md_bytes d) ds)
      else None)"

text \<open>The descriptors an image declares, from the device's bytes.\<close>

definition descriptor_at :: "bytes \<Rightarrow> u16 \<Rightarrow> nat \<Rightarrow> map_desc" where
  "descriptor_at cs bytecode_len i =
     parse_descriptor (take 16 (drop (0x6010 + unat bytecode_len + 16 * i) cs))"

definition descriptors_at :: "bytes \<Rightarrow> u16 \<Rightarrow> nat \<Rightarrow> map_desc list" where
  "descriptors_at cs bytecode_len n = map (descriptor_at cs bytecode_len) [0..<n]"

text \<open>Maps one after the other from offset \<open>t\<close>, inside the backing store.\<close>

fun placed_from :: "nat \<Rightarrow> map_layout list \<Rightarrow> bool" where
  "placed_from t [] = True"
| "placed_from t (l # ls) \<longleftrightarrow> unat (ml_offset l) = t \<and> 0 < unat (ml_len l)
     \<and> t + unat (ml_len l) \<le> BPF_MAX_MAP_BYTES \<and> ml_key_size l = 4
     \<and> 0 < unat (ml_value_size l) \<and> unat (ml_value_size l) dvd unat (ml_len l)
     \<and> placed_from (t + unat (ml_len l)) ls"

definition layouts_ok :: "map_layout list \<Rightarrow> nat \<Rightarrow> bool" where
  "layouts_ok ls n \<longleftrightarrow> length ls = BPF_MAX_MAPS \<and> n \<le> BPF_MAX_MAPS \<and> placed_from 0 (take n ls)"

lemma placed_from_nth:
  "placed_from t ls \<Longrightarrow> i < length ls \<Longrightarrow>
     t \<le> unat (ml_offset (ls ! i)) \<and> 0 < unat (ml_len (ls ! i))
     \<and> unat (ml_offset (ls ! i)) + unat (ml_len (ls ! i)) \<le> 1024
     \<and> ml_key_size (ls ! i) = 4 \<and> 0 < unat (ml_value_size (ls ! i))
     \<and> unat (ml_value_size (ls ! i)) dvd unat (ml_len (ls ! i))"
proof (induction ls arbitrary: t i)
  case (Cons l ls)
  then show ?case by (cases i) fastforce+
qed simp

lemma placed_from_ordered:
  "placed_from t ls \<Longrightarrow> i < j \<Longrightarrow> j < length ls \<Longrightarrow>
     unat (ml_offset (ls ! i)) + unat (ml_len (ls ! i)) \<le> unat (ml_offset (ls ! j))"
proof (induction ls arbitrary: t i j)
  case (Cons l ls)
  then obtain j' where j: "j = Suc j'" "j' < length ls" by (cases j) auto
  show ?case
  proof (cases i)
    case 0
    have "t + unat (ml_len l) \<le> unat (ml_offset (ls ! j'))"
      using placed_from_nth [of "t + unat (ml_len l)" ls j'] Cons.prems j by simp
    then show ?thesis using Cons.prems(1) 0 j by simp
  next
    case (Suc i')
    then show ?thesis using Cons.IH [of _ i' j'] Cons.prems j by auto
  qed
qed simp

lemma layouts_ok_nth:
  "layouts_ok ls n \<Longrightarrow> i < n \<Longrightarrow>
     0 < unat (ml_len (ls ! i))
     \<and> unat (ml_offset (ls ! i)) + unat (ml_len (ls ! i)) \<le> 1024
     \<and> ml_key_size (ls ! i) = 4 \<and> 0 < unat (ml_value_size (ls ! i))
     \<and> unat (ml_value_size (ls ! i)) dvd unat (ml_len (ls ! i))"
  using placed_from_nth [of 0 "take n ls" i] by (auto simp: layouts_ok_def)

lemma layouts_ok_ordered:
  "layouts_ok ls n \<Longrightarrow> i < j \<Longrightarrow> j < n \<Longrightarrow>
     unat (ml_offset (ls ! i)) + unat (ml_len (ls ! i)) \<le> unat (ml_offset (ls ! j))"
  using placed_from_ordered [of 0 "take n ls" i j] by (auto simp: layouts_ok_def)

lemma layouts_ok_empty: "layouts_ok empty_layouts 0"
  by (simp add: layouts_ok_def empty_layouts_def)

lemma layouts_spec_placed:
  "layouts_spec t ds = Some ls \<Longrightarrow> placed_from t ls \<and> length ls = length ds"
proof (induction ds arbitrary: t ls)
  case (Cons d ds)
  then obtain ls' where v: "md_valid t d" and ls': "layouts_spec (t + md_bytes d) ds = Some ls'"
    and ls: "ls = md_layout t d # ls'"
    by (auto split: if_splits)
  from v have b: "t + md_bytes d \<le> 1024" by (simp add: md_valid_def)
  have pos: "0 < md_bytes d" "0 < unat (md_value_size d)" "unat (md_value_size d) dvd md_bytes d"
    using v by (simp_all add: md_valid_def md_bytes_def unat_gt_0)
  have "unat (of_nat t :: u16) = t" "unat (of_nat (md_bytes d) :: u16) = md_bytes d"
    using b by (simp_all add: unat_of_nat)
  then show ?case
    using Cons.IH [OF ls'] b v ls pos by (simp add: md_layout_def md_valid_def)
qed simp

section \<open>The checked loop computes the specification\<close>

lemma unat_descriptor_offset:
  assumes "i < 8"
  shows "unat (descriptor_offset b i) = 0x6010 + unat b + 16 * i"
proof -
  have "unat (ucast b :: u32) = unat b"
    by (rule unat_ucast_up) simp
  then show ?thesis
    using assms unat_u16_less [of b]
    by (simp add: descriptor_offset_def BPF_FLASH_OFFSET_def unat_word_ariths unat_of_nat)
qed

lemma layout_word_match:
  assumes "unat bs = md_bytes d"
  shows "\<lparr>ml_offset = ucast tot, ml_len = ucast bs, ml_key_size = md_key_size d,
      ml_value_size = md_value_size d\<rparr> = md_layout (unat (tot :: u32)) d"
  by (simp add: md_layout_def flip: assms)

text \<open>One turn of the loop, with the descriptor already read.\<close>

lemma map_layouts_loop_step:
  assumes read: "fl_read api f (descriptor_offset b i) 16 = (Some bs, f')"
    and tot: "unat tot \<le> 1024" and i: "i < length layouts"
  shows "map_layouts_loop api b (Suc n) i tot layouts f =
    (let d = parse_descriptor bs in
     if md_valid (unat tot) d
     then map_layouts_loop api b n (Suc i) (of_nat (unat tot + md_bytes d))
            (layouts[i := md_layout (unat tot) d]) f'
     else Some (None, f'))"
proof -
  let ?d = "parse_descriptor bs"
  have fields: "descriptor_word bs 0 = md_type ?d" "descriptor_word bs 4 = md_key_size ?d"
    "descriptor_word bs 8 = md_value_size ?d" "descriptor_word bs 12 = md_max_entries ?d"
    by (simp_all add: parse_descriptor_def)
  show ?thesis
  proof (cases "checked_mul (md_value_size ?d) (md_max_entries ?d)")
    case None
    then have "\<not> md_valid (unat tot) ?d"
      by (auto simp: checked_mul_def md_valid_def md_bytes_def split: if_splits)
    then show ?thesis using read None by (simp add: map_layouts_loop.simps(2) fields Let_def)
  next
    case (Some m)
    then have m: "unat m = md_bytes ?d" by (simp add: checked_mul_SomeD md_bytes_def)
    have lt: "unat tot + unat m < 2 ^ 32 \<or> 1024 < unat tot + unat m" by auto
    show ?thesis
    proof (cases "checked_add tot m")
      case None
      then have "\<not> md_valid (unat tot) ?d"
        using m by (auto simp: checked_add_def md_valid_def split: if_splits)
      then show ?thesis using read Some None by (simp add: map_layouts_loop.simps(2) fields Let_def)
    next
      case (Some nt)
      then have nt: "unat nt = unat tot + md_bytes ?d"
        using m by (simp add: checked_add_SomeD)
      have ok: "(md_type ?d \<noteq> 1 \<or> md_key_size ?d \<noteq> 4 \<or> md_value_size ?d = 0
          \<or> md_max_entries ?d = 0 \<or> nt > of_nat BPF_MAX_MAP_BYTES) = (\<not> md_valid (unat tot) ?d)"
        using nt by (auto simp: md_valid_def word_less_nat_alt)
      have nt': "nt = of_nat (unat tot + md_bytes ?d)"
        unfolding nt [symmetric] by simp
      have "set_at layouts i \<lparr>ml_offset = ucast tot, ml_len = ucast m,
          ml_key_size = md_key_size ?d, ml_value_size = md_value_size ?d\<rparr>
        = Some (layouts[i := md_layout (unat tot) ?d])" if "md_valid (unat tot) ?d"
        using that i layout_word_match [OF m, of tot] by (simp add: set_at_def md_valid_def)
      then show ?thesis
        using read \<open>checked_mul _ _ = Some m\<close> Some ok nt'
        by (simp add: map_layouts_loop.simps(2) fields Let_def del: BPF_MAX_MAP_BYTES_def of_nat_add)
    qed
  qed
qed

text \<open>The placement an image on the device asks for, as the loader stores it.\<close>

definition placement :: "bytes \<Rightarrow> u16 \<Rightarrow> u8 \<Rightarrow> (map_layout list \<times> u8) option" where
  "placement cs b m =
     map_option (\<lambda>ls. (ls @ replicate (BPF_MAX_MAPS - unat m) map_layout_empty, m))
       (layouts_spec 0 (descriptors_at cs b (unat m)))"

lemma placement_ok:
  assumes "placement cs b m = Some (ls, c)" and "unat m \<le> 8"
  shows "layouts_ok ls (unat m) \<and> c = m"
proof -
  from assms(1) obtain ks where ks: "layouts_spec 0 (descriptors_at cs b (unat m)) = Some ks"
    and "ls = ks @ replicate (8 - unat m) map_layout_empty" "c = m"
    by (auto simp: placement_def)
  with layouts_spec_placed [OF ks] assms(2) show ?thesis
    by (simp add: layouts_ok_def descriptors_at_def)
qed

lemma descriptor_at_read:
  assumes "slice cs (0x6010 + unat b + 16 * i) (0x6010 + unat b + 16 * i + 16) = Some bs"
  shows "parse_descriptor bs = descriptor_at cs b i"
  using assms by (auto simp: slice_def descriptor_at_def split: if_splits)

context nor_flash
begin

lemma map_layouts_loop_sound:
  assumes "i + n \<le> 8" and "length layouts = 8" and "unat tot \<le> 1024"
  shows "\<exists>res f'. map_layouts_loop api b n i tot layouts f = Some (res, f')
    \<and> contents f' = contents f
    \<and> (\<forall>ls. res = Some ls \<longrightarrow> map_option (\<lambda>ks. take i layouts @ ks @ drop (i + n) layouts)
          (layouts_spec (unat tot) (map (descriptor_at (contents f) b) [i..<i + n])) = Some ls)"
  using assms
proof (induction n arbitrary: i tot layouts f)
  case 0
  then show ?case by simp
next
  case (Suc n)
  obtain r g where read: "fl_read api f (descriptor_offset b i) 16 = (r, g)" by (cases "fl_read api f (descriptor_offset b i) 16")
  have cg: "contents g = contents f" using read_keeps [OF read] .
  show ?case
  proof (cases r)
    case None
    then show ?thesis using read cg by (simp add: map_layouts_loop.simps(2))
  next
    case (Some bs)
    have off: "unat (descriptor_offset b i) = 0x6010 + unat b + 16 * i"
      using Suc.prems(1) by (intro unat_descriptor_offset) simp
    let ?d = "descriptor_at (contents f) b i"
    have d: "parse_descriptor bs = ?d"
      using read_ok [OF read [unfolded Some]] unfolding off by (rule descriptor_at_read)
    have step: "map_layouts_loop api b (Suc n) i tot layouts f =
      (if md_valid (unat tot) ?d
       then map_layouts_loop api b n (Suc i) (of_nat (unat tot + md_bytes ?d))
              (layouts[i := md_layout (unat tot) ?d]) g
       else Some (None, g))"
      using map_layouts_loop_step [OF read [unfolded Some] Suc.prems(3), of layouts n] Suc.prems d
      by (simp add: Let_def)
    show ?thesis
    proof (cases "md_valid (unat tot) ?d")
      case False
      then show ?thesis using cg by (simp add: step)
    next
      case True
      let ?tot = "of_nat (unat tot + md_bytes ?d) :: u32"
      from True have t: "unat ?tot = unat tot + md_bytes ?d"
        by (subst unat_of_nat) (simp add: md_valid_def)
      have t': "unat ?tot \<le> 1024" using True unfolding t by (simp add: md_valid_def)
      have pre: "Suc i + n \<le> 8" "length (layouts[i := md_layout (unat tot) ?d]) = 8"
        using Suc.prems by simp_all
      have upt: "[i..<i + Suc n] = i # [Suc i..<Suc i + n]" by (simp add: upt_conv_Cons)
      have tk: "take (Suc i) (layouts[i := x]) = take i layouts @ [x]"
        "drop (Suc (i + n)) (layouts[i := x]) = drop (Suc (i + n)) layouts" for x
        using Suc.prems(1,2) by (simp_all add: take_Suc_conv_app_nth drop_update_cancel)
      show ?thesis
        using Suc.IH [OF pre t', of g] True step cg t upt
        by (auto simp: tk)
    qed
  qed
qed

lemma map_layouts_sound:
  assumes "unat m \<le> 8"
  shows "\<exists>res f'. map_layouts api f b m = Some (res, f') \<and> contents f' = contents f
    \<and> (\<forall>x. res = Some x \<longrightarrow> placement (contents f) b m = Some x)"
proof -
  have len: "length empty_layouts = 8" by (simp add: empty_layouts_def)
  obtain res f' where r: "map_layouts_loop api b (unat m) 0 0 empty_layouts f = Some (res, f')"
    "contents f' = contents f"
    "\<And>ls. res = Some ls \<Longrightarrow> map_option (\<lambda>ks. ks @ drop (unat m) empty_layouts)
       (layouts_spec 0 (descriptors_at (contents f) b (unat m))) = Some ls"
    using map_layouts_loop_sound [of 0 "unat m" empty_layouts 0 b f] assms len
    by (auto simp: descriptors_at_def)
  then show ?thesis
    by (cases res) (auto simp: map_layouts_def placement_def empty_layouts_def)
qed

end

context reliable_flash
begin

lemma map_layouts_loop_total:
  assumes "i + n \<le> 8" and "length layouts = 8" and "unat tot \<le> 1024" and "healthy f"
    and "0x6010 + unat b + 16 * (i + n) \<le> length (contents f)"
  shows "\<exists>f'. map_layouts_loop api b n i tot layouts f =
      Some (map_option (\<lambda>ks. take i layouts @ ks @ drop (i + n) layouts)
          (layouts_spec (unat tot) (map (descriptor_at (contents f) b) [i..<i + n])), f')
    \<and> contents f' = contents f \<and> healthy f'"
  using assms
proof (induction n arbitrary: i tot layouts f)
  case 0
  then show ?case by simp
next
  case (Suc n)
  have off: "unat (descriptor_offset b i) = 0x6010 + unat b + 16 * i"
    using Suc.prems(1) by (intro unat_descriptor_offset) simp
  obtain bs g where read: "fl_read api f (descriptor_offset b i) 16 = (Some bs, g)" and hg: "healthy g"
    using read_total [OF Suc.prems(4), of "descriptor_offset b i" 16] Suc.prems(5) off by auto
  have cg: "contents g = contents f" using read_keeps [OF read] .
  let ?d = "descriptor_at (contents f) b i"
  have d: "parse_descriptor bs = ?d"
    using read_ok [OF read] unfolding off by (rule descriptor_at_read)
  have step: "map_layouts_loop api b (Suc n) i tot layouts f =
    (if md_valid (unat tot) ?d
     then map_layouts_loop api b n (Suc i) (of_nat (unat tot + md_bytes ?d))
            (layouts[i := md_layout (unat tot) ?d]) g
     else Some (None, g))"
    using map_layouts_loop_step [OF read Suc.prems(3), of layouts n] Suc.prems d
    by (simp add: Let_def)
  have upt: "[i..<i + Suc n] = i # [Suc i..<Suc i + n]" by (simp add: upt_conv_Cons)
  show ?case
  proof (cases "md_valid (unat tot) ?d")
    case False
    then show ?thesis using cg hg upt by (simp add: step)
  next
    case True
    let ?tot = "of_nat (unat tot + md_bytes ?d) :: u32"
    from True have t: "unat ?tot = unat tot + md_bytes ?d"
      by (subst unat_of_nat) (simp add: md_valid_def)
    have t': "unat ?tot \<le> 1024" using True unfolding t by (simp add: md_valid_def)
    have pre: "Suc i + n \<le> 8" "length (layouts[i := md_layout (unat tot) ?d]) = 8"
      "0x6010 + unat b + 16 * (Suc i + n) \<le> length (contents g)"
      using Suc.prems cg by simp_all
    have tk: "take (Suc i) (layouts[i := x]) = take i layouts @ [x]"
      "drop (Suc (i + n)) (layouts[i := x]) = drop (Suc (i + n)) layouts" for x
      using Suc.prems(1,2) by (simp_all add: take_Suc_conv_app_nth drop_update_cancel)
    obtain f' where "map_layouts_loop api b n (Suc i) ?tot (layouts[i := md_layout (unat tot) ?d]) g =
      Some (map_option (\<lambda>ks. take (Suc i) (layouts[i := md_layout (unat tot) ?d]) @ ks
            @ drop (Suc i + n) (layouts[i := md_layout (unat tot) ?d]))
          (layouts_spec (unat ?tot) (map (descriptor_at (contents g) b) [Suc i..<Suc i + n])), f')"
      and "contents f' = contents g" "healthy f'"
      using Suc.IH [OF pre(1,2) t' hg pre(3)] by blast
    then show ?thesis
      using True step cg t upt by (auto simp: tk option.map_comp comp_def)
  qed
qed

lemma map_layouts_total:
  assumes "unat m \<le> 8" and "healthy f" and "0x6010 + unat b + 16 * unat m \<le> length (contents f)"
  shows "\<exists>f'. map_layouts api f b m = Some (placement (contents f) b m, f')
    \<and> contents f' = contents f \<and> healthy f'"
proof -
  have len: "length empty_layouts = 8" by (simp add: empty_layouts_def)
  obtain f' where r: "map_layouts_loop api b (unat m) 0 0 empty_layouts f =
      Some (map_option (\<lambda>ks. ks @ drop (unat m) empty_layouts)
        (layouts_spec 0 (descriptors_at (contents f) b (unat m))), f')"
    "contents f' = contents f" "healthy f'"
    using map_layouts_loop_total [of 0 "unat m" empty_layouts 0 f b] assms len
    by (auto simp: descriptors_at_def)
  then show ?thesis
    by (simp add: map_layouts_def placement_def empty_layouts_def option.map_comp comp_def)
qed

end

end
