(* ===== verification/Bpf_Loader.thy ===== *)
theory Bpf_Loader
  imports Wire_Protocol Crc32 Map_Layout
begin

text \<open>
  The image loader \<open>BpfLoader\<close> of \<^verbatim>\<open>crates/optibridge-protocol/src/lib.rs\<close>: its
  state, the acceptance of a Load request in the I2C callback (\<open>accepts_load\<close>), the
  deferred flash work of the main loop (\<open>execute_pending\<close>, \<open>begin\<close>,
  \<open>finalize\<close>), the boot check (\<open>validate_committed\<close>), the queries, and the
  access to the maps' backing store (\<open>read_map\<close>, \<open>write_map\<close>).

  \<open>loader_inv\<close> is the invariant every operation keeps. Flash is a parameter
  \<open>api\<close>; its device state is threaded through explicitly.
\<close>

section \<open>State\<close>

datatype load_operation =
    Begin u16 u8 u32
  | Data u16 bytes u8
  | Finalize

datatype loader_state =
    Empty
  | Receiving
  | Committed u32
  | Running u32
  | Failed u8

record bpf_map_metadata =
  mm_backing_offset :: u16
  mm_backing_len :: u16
  mm_key_size :: u32
  mm_value_size :: u32

record bpf_program_metadata =
  pm_bytecode_len :: u16
  pm_map_count :: u8
  pm_maps :: "bpf_map_metadata list"

record bpf_loader =
  ld_state :: loader_state
  ld_pending :: "load_operation option"
  ld_bytecode_len :: u16
  ld_map_count :: u8
  ld_image_len :: u16
  ld_next_offset :: u16
  ld_expected_crc :: u32
  ld_crc :: u32
  ld_map_layouts :: "map_layout list"
  ld_committed_map_count :: u8

definition loader_new :: bpf_loader where
  "loader_new = \<lparr>ld_state = Empty, ld_pending = None, ld_bytecode_len = 0, ld_map_count = 0,
     ld_image_len = 0, ld_next_offset = 0, ld_expected_crc = 0, ld_crc = 0xffffffff,
     ld_map_layouts = empty_layouts, ld_committed_map_count = 0\<rparr>"

fun is_running :: "loader_state \<Rightarrow> bool" where
  "is_running (Running _) = True"
| "is_running _ = False"

text \<open>\<open>matches!(self.state, Committed(_) | Running(_))\<close>\<close>

fun has_program :: "loader_state \<Rightarrow> bool" where
  "has_program (Committed _) = True"
| "has_program (Running _) = True"
| "has_program _ = False"

section \<open>Accepting a Load request\<close>

text \<open>The three arms of the match on the first payload byte.\<close>

definition decode_begin :: "bytes \<Rightarrow> (u8, load_operation) rust_result" where
  "decode_begin payload =
     (let bytecode_len = from_le_bytes [payload ! 1, payload ! 2];
          map_count = payload ! 3;
          expected_crc = from_le_bytes [payload ! 4, payload ! 5, payload ! 6, payload ! 7] in
      case image_len bytecode_len map_count of
        None \<Rightarrow> Inl STATUS_BAD_LENGTH
      | Some n \<Rightarrow>
          if bad_image_bounds bytecode_len map_count n then Inl STATUS_BAD_LENGTH
          else Inr (Begin bytecode_len map_count expected_crc))"

definition decode_data :: "bpf_loader \<Rightarrow> bytes \<Rightarrow> (u8, load_operation) rust_result may_panic" where
  "decode_data ld payload =
     (if ld_state ld \<noteq> Receiving then Some (Inl STATUS_BAD_STATE)
      else
        let offset = from_le_bytes [payload ! 1, payload ! 2]; len = length payload - 3 in
        if offset \<noteq> ld_next_offset ld then Some (Inl STATUS_BAD_STATE)
        else if unat offset + len > unat (ld_image_len ld) then Some (Inl STATUS_BAD_LENGTH)
        else do {
          bs \<leftarrow> copy_into (replicate 12 0) 0 (drop 3 payload);
          Some (Inr (Data offset bs (of_nat len)))
        })"

definition decode_finalize :: "bpf_loader \<Rightarrow> (u8, load_operation) rust_result" where
  "decode_finalize ld =
     (if ld_state ld \<noteq> Receiving then Inl STATUS_BAD_STATE
      else if ld_next_offset ld \<noteq> ld_image_len ld then Inl STATUS_BAD_STATE
      else Inr Finalize)"

definition decode_load :: "bpf_loader \<Rightarrow> bytes \<Rightarrow> (u8, load_operation) rust_result may_panic" where
  "decode_load ld payload =
     (case payload of
        [] \<Rightarrow> Some (Inl STATUS_BAD_COMMAND)
      | op # _ \<Rightarrow>
        if op = 0 \<and> length payload = 8 then Some (decode_begin payload)
        else if op = 1 \<and> 5 \<le> length payload \<and> length payload \<le> 15
                \<and> (length payload - 3) mod 2 = 0
        then decode_data ld payload
        else if op = 2 \<and> length payload = 1 then Some (decode_finalize ld)
        else if op \<le> 2 then Some (Inl STATUS_BAD_LENGTH)
        else Some (Inl STATUS_BAD_COMMAND))"

definition accepts_load ::
    "bpf_loader \<Rightarrow> request \<Rightarrow> ((u8, unit) rust_result \<times> bpf_loader) may_panic" where
  "accepts_load ld r =
     (if ld_pending ld \<noteq> None then Some (Inl STATUS_BUSY, ld)
      else if is_running (ld_state ld) then Some (Inl STATUS_BAD_STATE, ld)
      else do {
        payload \<leftarrow> slice (req_payload r) 0 (unat (req_payload_len r));
        decoded \<leftarrow> decode_load ld payload;
        (case decoded of
           Inl status \<Rightarrow> Some (Inl status, ld)
         | Inr operation \<Rightarrow> Some (Inr (), ld\<lparr>ld_pending := Some operation\<rparr>))
      })"

section \<open>Queries and the running state\<close>

definition query :: "bpf_loader \<Rightarrow> (u8, u32) rust_result" where
  "query ld =
     (if ld_pending ld \<noteq> None then Inl STATUS_BUSY
      else case ld_state ld of
        Committed crc \<Rightarrow> Inr crc
      | Running crc \<Rightarrow> Inr crc
      | Failed status \<Rightarrow> Inl status
      | Empty \<Rightarrow> Inl STATUS_NO_PROGRAM
      | Receiving \<Rightarrow> Inl STATUS_NO_PROGRAM)"

definition map_metadata_zero :: bpf_map_metadata where
  "map_metadata_zero =
     \<lparr>mm_backing_offset = 0, mm_backing_len = 0, mm_key_size = 0, mm_value_size = 0\<rparr>"

definition layout_metadata :: "map_layout \<Rightarrow> bpf_map_metadata" where
  "layout_metadata l = \<lparr>mm_backing_offset = ml_offset l, mm_backing_len = ml_len l,
     mm_key_size = ml_key_size l, mm_value_size = ml_value_size l\<rparr>"

fun metadata_loop ::
    "bpf_loader \<Rightarrow> nat \<Rightarrow> nat \<Rightarrow> bpf_map_metadata list \<Rightarrow> bpf_map_metadata list may_panic" where
  "metadata_loop ld 0 index maps = Some maps"
| "metadata_loop ld (Suc n) index maps = do {
     layout \<leftarrow> get_at (ld_map_layouts ld) index;
     maps \<leftarrow> set_at maps index (layout_metadata layout);
     metadata_loop ld n (index + 1) maps
   }"

definition committed_metadata :: "bpf_loader \<Rightarrow> bpf_program_metadata may_panic" where
  "committed_metadata ld = do {
     maps \<leftarrow> metadata_loop ld (unat (ld_committed_map_count ld)) 0
               (replicate BPF_MAX_MAPS map_metadata_zero);
     Some \<lparr>pm_bytecode_len = ld_bytecode_len ld, pm_map_count = ld_committed_map_count ld,
           pm_maps = maps\<rparr>
   }"

definition execution_metadata ::
    "bpf_loader \<Rightarrow> (u8, bpf_program_metadata) rust_result may_panic" where
  "execution_metadata ld =
     (if ld_pending ld \<noteq> None then Some (Inl STATUS_BUSY)
      else case ld_state ld of
        Committed _ \<Rightarrow> map_option Inr (committed_metadata ld)
      | Running _ \<Rightarrow> Some (Inl STATUS_BAD_STATE)
      | Empty \<Rightarrow> Some (Inl STATUS_NO_PROGRAM)
      | Receiving \<Rightarrow> Some (Inl STATUS_NO_PROGRAM)
      | Failed status \<Rightarrow> Some (Inl status))"

definition event_execution_metadata ::
    "bpf_loader \<Rightarrow> (u8, bpf_program_metadata) rust_result may_panic" where
  "event_execution_metadata ld =
     (if ld_pending ld \<noteq> None then Some (Inl STATUS_BUSY)
      else case ld_state ld of
        Committed _ \<Rightarrow> map_option Inr (committed_metadata ld)
      | Running _ \<Rightarrow> map_option Inr (committed_metadata ld)
      | Empty \<Rightarrow> Some (Inl STATUS_NO_PROGRAM)
      | Receiving \<Rightarrow> Some (Inl STATUS_NO_PROGRAM)
      | Failed status \<Rightarrow> Some (Inl status))"

definition mark_running :: "bpf_loader \<Rightarrow> (u8, unit) rust_result \<times> bpf_loader" where
  "mark_running ld =
     (case ld_state ld of
        Committed crc \<Rightarrow> (Inr (), ld\<lparr>ld_state := Running crc\<rparr>)
      | Running _ \<Rightarrow> (Inl STATUS_BAD_STATE, ld)
      | Empty \<Rightarrow> (Inl STATUS_NO_PROGRAM, ld)
      | Receiving \<Rightarrow> (Inl STATUS_NO_PROGRAM, ld)
      | Failed status \<Rightarrow> (Inl status, ld))"

definition has_pending :: "bpf_loader \<Rightarrow> bool" where
  "has_pending ld \<longleftrightarrow> ld_pending ld \<noteq> None"

section \<open>The maps' backing store\<close>

definition MAX_MAP_WRITE_BYTES :: nat where [simp]: "MAX_MAP_WRITE_BYTES = 14"

definition read_map :: "bpf_loader \<Rightarrow> u8 \<Rightarrow> u16 \<Rightarrow> u8 \<Rightarrow> bytes \<Rightarrow> (u8, bytes) rust_result" where
  "read_map ld map_id byte_offset byte_length backing =
     (if byte_length = 0 \<or> unat byte_length > MAX_PAYLOAD then Inl STATUS_BAD_LENGTH
      else if \<not> has_program (ld_state ld) then Inl STATUS_NO_PROGRAM
      else case get_at (ld_map_layouts ld) (unat map_id) of
        None \<Rightarrow> Inl STATUS_BAD_COMMAND
      | Some layout \<Rightarrow>
          if map_id \<ge> ld_committed_map_count ld then Inl STATUS_BAD_COMMAND
          else case checked_add byte_offset (ucast byte_length) of
            None \<Rightarrow> Inl STATUS_BAD_LENGTH
          | Some map_end \<Rightarrow>
              if map_end > ml_len layout then Inl STATUS_BAD_LENGTH
              else
                let start = unat (ml_offset layout) + unat byte_offset in
                case slice backing start (start + unat byte_length) of
                  None \<Rightarrow> Inl STATUS_BAD_LENGTH
                | Some bs \<Rightarrow> Inr bs)"

definition write_map ::
    "bpf_loader \<Rightarrow> u8 \<Rightarrow> u16 \<Rightarrow> bytes \<Rightarrow> bytes \<Rightarrow> (u8, unit) rust_result \<times> bytes" where
  "write_map ld map_id byte_offset replacement backing =
     (if replacement = [] \<or> length replacement > MAX_MAP_WRITE_BYTES
      then (Inl STATUS_BAD_LENGTH, backing)
      else if \<not> has_program (ld_state ld) then (Inl STATUS_NO_PROGRAM, backing)
      else case get_at (ld_map_layouts ld) (unat map_id) of
        None \<Rightarrow> (Inl STATUS_BAD_COMMAND, backing)
      | Some layout \<Rightarrow>
          if map_id \<ge> ld_committed_map_count ld then (Inl STATUS_BAD_COMMAND, backing)
          else case checked_add byte_offset (of_nat (length replacement)) of
            None \<Rightarrow> (Inl STATUS_BAD_LENGTH, backing)
          | Some map_end \<Rightarrow>
              if map_end > ml_len layout then (Inl STATUS_BAD_LENGTH, backing)
              else case copy_into backing (unat (ml_offset layout) + unat byte_offset) replacement of
                None \<Rightarrow> (Inl STATUS_BAD_LENGTH, backing)
              | Some backing' \<Rightarrow> (Inr (), backing'))"

section \<open>Deferred flash work\<close>

definition clear_map_layouts :: "bpf_loader \<Rightarrow> bpf_loader" where
  "clear_map_layouts ld = ld\<lparr>ld_map_layouts := empty_layouts, ld_committed_map_count := 0\<rparr>"

text \<open>The header \<open>begin\<close> programs: \<open>OBPF\<close>, version 1, map count, bytecode length,
  expected CRC, and an erased commit marker and reserve.\<close>

definition obpf :: bytes where
  "obpf = [0x4f, 0x42, 0x50, 0x46]"

definition begin_header :: "u16 \<Rightarrow> u8 \<Rightarrow> u32 \<Rightarrow> bytes" where
  "begin_header bytecode_len map_count expected_crc =
     obpf @ [1, map_count] @ to_le_bytes 2 bytecode_len @ to_le_bytes 4 expected_crc
       @ replicate 4 0xff"

text \<open>\<open>div_ceil(4096)\<close>\<close>

definition erase_pages :: "nat \<Rightarrow> nat" where
  "erase_pages n = (n + 4095) div 4096"

definition loader_begin ::
    "'f bpf_flash \<Rightarrow> bpf_loader \<Rightarrow> 'f \<Rightarrow> u16 \<Rightarrow> u8 \<Rightarrow> u32 \<Rightarrow> bpf_loader \<times> 'f" where
  "loader_begin api ld f bytecode_len map_count expected_crc =
     (let ld = clear_map_layouts ld in
      case image_len bytecode_len map_count of
        None \<Rightarrow> (ld\<lparr>ld_state := Failed STATUS_FLASH_ERROR\<rparr>, f)
      | Some n \<Rightarrow>
        (case fl_erase api f BPF_FLASH_OFFSET
                (BPF_FLASH_OFFSET + of_nat (erase_pages (BPF_HEADER_SIZE + n) * 4096)) of
           (False, f) \<Rightarrow> (ld\<lparr>ld_state := Failed STATUS_FLASH_ERROR\<rparr>, f)
         | (True, f) \<Rightarrow>
           (case fl_write api f BPF_FLASH_OFFSET (begin_header bytecode_len map_count expected_crc) of
              (False, f) \<Rightarrow> (ld\<lparr>ld_state := Failed STATUS_FLASH_ERROR\<rparr>, f)
            | (True, f) \<Rightarrow>
                (ld\<lparr>ld_state := Receiving, ld_bytecode_len := bytecode_len,
                    ld_map_count := map_count, ld_image_len := of_nat n, ld_next_offset := 0,
                    ld_expected_crc := expected_crc, ld_crc := 0xffffffff\<rparr>, f))))"

definition loader_finalize ::
    "'f bpf_flash \<Rightarrow> bpf_loader \<Rightarrow> 'f \<Rightarrow> (bpf_loader \<times> 'f) may_panic" where
  "loader_finalize api ld f =
     (if crc32_finish (ld_crc ld) \<noteq> ld_expected_crc ld
      then Some (ld\<lparr>ld_state := Failed STATUS_BAD_CRC\<rparr>, f)
      else do {
        (layouts, f) \<leftarrow> map_layouts api f (ld_bytecode_len ld) (ld_map_count ld);
        (case layouts of
           None \<Rightarrow> Some (ld\<lparr>ld_state := Failed STATUS_BAD_STATE\<rparr>, f)
         | Some (new_layouts, committed_map_count) \<Rightarrow>
           (case fl_write api f (BPF_FLASH_OFFSET + 12) [0, 0] of
              (False, f) \<Rightarrow> Some (ld\<lparr>ld_state := Failed STATUS_FLASH_ERROR\<rparr>, f)
            | (True, f) \<Rightarrow>
                Some (ld\<lparr>ld_state := Committed (ld_expected_crc ld),
                         ld_map_layouts := new_layouts,
                         ld_committed_map_count := committed_map_count\<rparr>, f)))
      })"

definition image_address :: "nat \<Rightarrow> u32" where
  "image_address offset = BPF_FLASH_OFFSET + of_nat BPF_HEADER_SIZE + of_nat offset"

definition execute_pending ::
    "'f bpf_flash \<Rightarrow> bpf_loader \<Rightarrow> 'f \<Rightarrow> (bpf_loader \<times> 'f) may_panic" where
  "execute_pending api ld f =
     (case ld_pending ld of
        None \<Rightarrow> Some (ld, f)
      | Some operation \<Rightarrow>
        (let ld = ld\<lparr>ld_pending := None\<rparr> in
         case operation of
           Begin bytecode_len map_count expected_crc \<Rightarrow>
             Some (loader_begin api ld f bytecode_len map_count expected_crc)
         | Data offset bs len \<Rightarrow> do {
             chunk \<leftarrow> slice bs 0 (unat len);
             (case fl_write api f (image_address (unat offset)) chunk of
                (False, f) \<Rightarrow> Some (ld\<lparr>ld_state := Failed STATUS_FLASH_ERROR\<rparr>, f)
              | (True, f) \<Rightarrow>
                  Some (ld\<lparr>ld_crc := crc32_update (ld_crc ld) chunk,
                           ld_next_offset := ld_next_offset ld + ucast len\<rparr>, f))
           }
         | Finalize \<Rightarrow> loader_finalize api ld f))"

section \<open>The boot check\<close>

text \<open>The CRC over the flash, in reads of at most 16 bytes.\<close>

function validate_crc_loop :: "'f bpf_flash \<Rightarrow> nat \<Rightarrow> nat \<Rightarrow> u32 \<Rightarrow> 'f \<Rightarrow> u32 option \<times> 'f" where
  "validate_crc_loop api n offset crc f =
     (if offset < n then
        let len = min MAX_PAYLOAD (n - offset) in
        case fl_read api f (image_address offset) len of
          (None, f) \<Rightarrow> (None, f)
        | (Some chunk, f) \<Rightarrow> validate_crc_loop api n (offset + len) (crc32_update crc chunk) f
      else (Some crc, f))"
  by pat_completeness auto
termination
  by (relation "measure (\<lambda>(api, n, offset, crc, f). n - offset)") auto

declare validate_crc_loop.simps [simp del]

definition bad_header :: "bytes \<Rightarrow> bool" where
  "bad_header header \<longleftrightarrow> take 4 header \<noteq> obpf \<or> header ! 4 \<noteq> 1
     \<or> (from_le_bytes [header ! 12, header ! 13] :: u16) \<noteq> 0 \<or> drop 14 header \<noteq> [0xff, 0xff]"

definition validate_committed ::
    "'f bpf_flash \<Rightarrow> bpf_loader \<Rightarrow> 'f \<Rightarrow> (bpf_loader \<times> 'f) may_panic" where
  "validate_committed api ld f =
     (let ld = clear_map_layouts ld in
      case fl_read api f BPF_FLASH_OFFSET BPF_HEADER_SIZE of
        (None, f) \<Rightarrow> Some (ld\<lparr>ld_state := Failed STATUS_FLASH_ERROR\<rparr>, f)
      | (Some header, f) \<Rightarrow>
        if bad_header header then Some (ld\<lparr>ld_state := Empty\<rparr>, f)
        else
          let bytecode_len = from_le_bytes [header ! 6, header ! 7]; map_count = header ! 5 in
          case image_len bytecode_len map_count of
            None \<Rightarrow> Some (ld\<lparr>ld_state := Empty\<rparr>, f)
          | Some n \<Rightarrow>
            if bad_image_bounds bytecode_len map_count n then Some (ld\<lparr>ld_state := Empty\<rparr>, f)
            else
              let expected_crc = from_le_bytes [header ! 8, header ! 9, header ! 10, header ! 11] in
              case validate_crc_loop api n 0 0xffffffff f of
                (None, f) \<Rightarrow> Some (ld\<lparr>ld_state := Failed STATUS_FLASH_ERROR\<rparr>, f)
              | (Some crc, f) \<Rightarrow> do {
                  (layouts, f) \<leftarrow> map_layouts api f bytecode_len map_count;
                  (case layouts of
                     None \<Rightarrow> Some (ld\<lparr>ld_state := Empty\<rparr>, f)
                   | Some (new_layouts, committed_map_count) \<Rightarrow>
                     if crc32_finish crc \<noteq> expected_crc then Some (ld\<lparr>ld_state := Empty\<rparr>, f)
                     else Some (ld\<lparr>ld_state := Committed expected_crc,
                                   ld_bytecode_len := bytecode_len, ld_map_count := map_count,
                                   ld_map_layouts := new_layouts,
                                   ld_committed_map_count := committed_map_count\<rparr>, f))
                })"

lemma unat_image_address: "n \<le> 65535 \<Longrightarrow> unat (image_address n) = 0x6010 + n"
  by (simp add: image_address_def BPF_FLASH_OFFSET_def unat_word_ariths unat_of_nat)

section \<open>The loader invariant\<close>

definition transfer_ok :: "bpf_loader \<Rightarrow> bool" where
  "transfer_ok ld \<longleftrightarrow> image_bounds (ld_bytecode_len ld) (ld_map_count ld)
     \<and> unat (ld_image_len ld) = unat (ld_bytecode_len ld) + 16 * unat (ld_map_count ld)
     \<and> unat (ld_next_offset ld) \<le> unat (ld_image_len ld) \<and> even (unat (ld_next_offset ld))"

definition program_ok :: "bpf_loader \<Rightarrow> bool" where
  "program_ok ld \<longleftrightarrow> image_bounds (ld_bytecode_len ld) (ld_map_count ld)
     \<and> ld_committed_map_count ld = ld_map_count ld
     \<and> layouts_ok (ld_map_layouts ld) (unat (ld_committed_map_count ld))"

fun state_ok :: "bpf_loader \<Rightarrow> loader_state \<Rightarrow> bool" where
  "state_ok ld Receiving = transfer_ok ld"
| "state_ok ld (Committed _) = program_ok ld"
| "state_ok ld (Running _) = (program_ok ld \<and> ld_pending ld = None)"
| "state_ok ld _ = True"

fun pending_ok :: "bpf_loader \<Rightarrow> load_operation option \<Rightarrow> bool" where
  "pending_ok ld None = True"
| "pending_ok ld (Some (Begin b m c)) = image_bounds b m"
| "pending_ok ld (Some (Data off bs len)) =
     (ld_state ld = Receiving \<and> off = ld_next_offset ld \<and> length bs = 12
      \<and> 2 \<le> unat len \<and> unat len \<le> 12 \<and> even (unat len)
      \<and> unat off + unat len \<le> unat (ld_image_len ld))"
| "pending_ok ld (Some Finalize) =
     (ld_state ld = Receiving \<and> ld_next_offset ld = ld_image_len ld)"

definition loader_inv :: "bpf_loader \<Rightarrow> bool" where
  "loader_inv ld \<longleftrightarrow> length (ld_map_layouts ld) = BPF_MAX_MAPS
     \<and> unat (ld_committed_map_count ld) \<le> BPF_MAX_MAPS
     \<and> state_ok ld (ld_state ld) \<and> pending_ok ld (ld_pending ld)"

lemma loader_inv_new: "loader_inv loader_new"
  by (simp add: loader_inv_def loader_new_def empty_layouts_def)

lemma image_bounds_len:
  "image_bounds b m \<Longrightarrow> unat b + 16 * unat m \<le> 7808 \<and> even (unat b + 16 * unat m)"
  by (auto simp: image_bounds_def elim!: dvdE)

lemma transfer_ok_len: "transfer_ok ld \<Longrightarrow> unat (ld_image_len ld) \<le> 7808"
  using image_bounds_len by (auto simp: transfer_ok_def)

subsection \<open>Accepting keeps it\<close>

lemma decode_begin_ok: "decode_begin payload = Inr op \<Longrightarrow> pending_ok ld (Some op)"
  by (auto simp: decode_begin_def Let_def image_len_eq image_bounds_iff split: if_splits)

lemma decode_data_total:
  assumes "length payload \<le> 15"
  shows "\<exists>res. decode_data ld payload = Some res"
proof -
  have "\<exists>bs. copy_into (replicate 12 0 :: bytes) 0 (drop 3 payload) = Some bs"
    using assms by (simp add: copy_into_def le_diff_conv)
  then show ?thesis by (auto simp: decode_data_def Let_def)
qed

lemma decode_data_ok:
  assumes "decode_data ld payload = Some (Inr op)"
    and len: "5 \<le> length payload" "length payload \<le> 15" and ev: "(length payload - 3) mod 2 = 0"
  shows "pending_ok ld (Some op)"
proof -
  let ?off = "from_le_bytes [payload ! 1, payload ! 2]" let ?len = "length payload - 3"
  from assms(1) obtain bs where st: "ld_state ld = Receiving" and off: "?off = ld_next_offset ld"
    and fits: "unat (ld_next_offset ld) + ?len \<le> unat (ld_image_len ld)"
    and bs: "copy_into (replicate 12 0) 0 (drop 3 payload) = Some bs"
    and op: "op = Data (ld_next_offset ld) bs (of_nat ?len)"
    by (auto simp: decode_data_def Let_def bind_some_iff split: if_splits)
  have "unat (of_nat ?len :: u8) = ?len" using len by (intro unat_of_nat_id) simp
  moreover have "length bs = 12" using copy_into_length [OF bs] by simp
  moreover have "2 \<le> ?len" "?len \<le> 12" using len by simp_all
  moreover have "even ?len" using ev by (rule even_iff_mod_2_eq_zero [THEN iffD2])
  ultimately show ?thesis
    using st off fits len op by simp
qed

lemma decode_finalize_ok: "decode_finalize ld = Inr op \<Longrightarrow> pending_ok ld (Some op)"
  by (auto simp: decode_finalize_def split: if_splits)

lemma decode_load_total: "\<exists>res. decode_load ld payload = Some res"
proof (cases payload)
  case (Cons op rest)
  then show ?thesis
    using decode_data_total [of payload ld] by (auto simp: decode_load_def)
qed (simp add: decode_load_def)

lemma decode_load_ok:
  assumes "decode_load ld payload = Some (Inr op)"
  shows "pending_ok ld (Some op)"
  using assms decode_begin_ok decode_data_ok decode_finalize_ok
  by (simp add: decode_load_def split: list.splits if_splits)

lemma pending_ok_update: "pending_ok (ld\<lparr>ld_pending := p\<rparr>) q = pending_ok ld q"
  by (cases "(ld, q)" rule: pending_ok.cases) auto

lemma state_ok_pending: "\<not> is_running s \<Longrightarrow> state_ok (ld\<lparr>ld_pending := p\<rparr>) s = state_ok ld s"
  by (cases s) (auto simp: transfer_ok_def program_ok_def)

text \<open>Acceptance touches the pending slot only, and only when it says \<open>Ok\<close>.\<close>

lemma accepts_load_spec:
  assumes "loader_inv ld" and "wf_request r"
  shows "\<exists>res ld'. accepts_load ld r = Some (res, ld') \<and> loader_inv ld'
    \<and> (case res of Inl _ \<Rightarrow> ld' = ld
       | Inr _ \<Rightarrow> ld_pending ld = None \<and> \<not> is_running (ld_state ld)
           \<and> (\<exists>op. decode_load ld (request_body r) = Some (Inr op) \<and> ld' = ld\<lparr>ld_pending := Some op\<rparr>))"
proof -
  have sl: "slice (req_payload r) 0 (unat (req_payload_len r)) = Some (request_body r)"
    using assms(2) by (simp add: wf_request_def slice_def request_body_def)
  obtain dec where dec: "decode_load ld (request_body r) = Some dec"
    using decode_load_total by blast
  show ?thesis
  proof (cases "ld_pending ld \<noteq> None \<or> is_running (ld_state ld)")
    case True
    then show ?thesis using assms(1) by (auto simp: accepts_load_def)
  next
    case False
    show ?thesis
    proof (cases dec)
      case (Inl s)
      then show ?thesis using False dec sl assms(1) by (simp add: accepts_load_def)
    next
      case (Inr op)
      then have "loader_inv (ld\<lparr>ld_pending := Some op\<rparr>)"
        using False assms(1) decode_load_ok [of ld "request_body r" op] dec
        by (simp add: loader_inv_def pending_ok_update state_ok_pending)
      then show ?thesis using False dec sl Inr by (simp add: accepts_load_def)
    qed
  qed
qed

subsection \<open>The deferred work keeps it, whatever the flash does\<close>

lemma loader_inv_clear:
  "length (ld_map_layouts (clear_map_layouts ld)) = 8 \<and> ld_committed_map_count (clear_map_layouts ld) = 0"
  by (simp add: clear_map_layouts_def empty_layouts_def)

lemma loader_begin_inv:
  assumes "image_bounds b m" and "ld_pending ld = None"
  shows "loader_inv (fst (loader_begin api ld f b m c))
    \<and> ld_pending (fst (loader_begin api ld f b m c)) = None
    \<and> ld_state (fst (loader_begin api ld f b m c)) \<in> {Receiving, Failed STATUS_FLASH_ERROR}"
proof -
  have n: "unat (of_nat (unat b + 16 * unat m) :: u16) = unat b + 16 * unat m"
    using image_bounds_len [OF assms(1)] by (intro unat_of_nat_id) simp
  have "loader_inv (clear_map_layouts ld\<lparr>ld_state := Receiving, ld_bytecode_len := b,
      ld_map_count := m, ld_image_len := of_nat (unat b + 16 * unat m), ld_next_offset := 0,
      ld_expected_crc := c, ld_crc := 0xffffffff\<rparr>)"
    using assms n by (simp add: loader_inv_def clear_map_layouts_def empty_layouts_def transfer_ok_def
        del: of_nat_add of_nat_mult)
  moreover have "loader_inv (clear_map_layouts ld\<lparr>ld_state := Failed s\<rparr>)" for s
    using assms by (simp add: loader_inv_def clear_map_layouts_def empty_layouts_def)
  ultimately show ?thesis
    using assms(2)
    by (auto simp: loader_begin_def image_len_eq Let_def clear_map_layouts_def
        simp del: of_nat_add of_nat_mult split: prod.split bool.split)
qed

lemma data_step_inv:
  assumes inv: "loader_inv ld" and p: "ld_pending ld = Some (Data off bs len)"
  shows "loader_inv (ld\<lparr>ld_pending := None, ld_crc := c,
      ld_next_offset := ld_next_offset ld + ucast len\<rparr>)
    \<and> unat (ld_next_offset ld + ucast len) = unat (ld_next_offset ld) + unat len"
proof -
  from inv p have st: "ld_state ld = Receiving" and tr: "transfer_ok ld"
    and len: "even (unat len)" "unat (ld_next_offset ld) + unat len \<le> unat (ld_image_len ld)"
    by (auto simp: loader_inv_def)
  have u: "unat (ucast len :: u16) = unat len" by (rule unat_ucast_up) simp
  then have n: "unat (ld_next_offset ld + ucast len) = unat (ld_next_offset ld) + unat len"
    using len(2) unat_u16_less [of "ld_image_len ld"] by (subst unat_add_id) simp_all
  then show ?thesis
    using inv st tr len by (simp add: loader_inv_def transfer_ok_def)
qed

context nor_flash
begin

lemma loader_finalize_inv:
  assumes inv: "loader_inv ld" and st: "ld_state ld = Receiving" and p: "ld_pending ld = None"
  shows "\<exists>ld' f'. loader_finalize api ld f = Some (ld', f') \<and> loader_inv ld' \<and> ld_pending ld' = None
    \<and> (ld_state ld' = Committed (ld_expected_crc ld) \<or> (\<exists>s. ld_state ld' = Failed s))"
proof -
  have b: "image_bounds (ld_bytecode_len ld) (ld_map_count ld)"
    using inv st by (simp add: loader_inv_def transfer_ok_def)
  then have m: "unat (ld_map_count ld) \<le> 8" by (simp add: image_bounds_def)
  obtain res g where ml: "map_layouts api f (ld_bytecode_len ld) (ld_map_count ld) = Some (res, g)"
    and pl: "\<And>x. res = Some x \<Longrightarrow> placement (contents f) (ld_bytecode_len ld) (ld_map_count ld) = Some x"
    using map_layouts_sound [OF m] by blast
  have failed: "loader_inv (ld\<lparr>ld_state := Failed s\<rparr>)" for s
    using inv p by (simp add: loader_inv_def)
  show ?thesis
  proof (cases res)
    case None
    then show ?thesis using ml failed p by (auto simp: loader_finalize_def)
  next
    case (Some x)
    obtain ls cnt where x: "x = (ls, cnt)" by (cases x)
    from placement_ok [OF pl [OF Some, unfolded x] m]
    have ok: "layouts_ok ls (unat (ld_map_count ld))" "cnt = ld_map_count ld" by simp_all
    have "loader_inv (ld\<lparr>ld_state := Committed k, ld_map_layouts := ls, ld_committed_map_count := cnt\<rparr>)" for k
      using ok b p m by (simp add: loader_inv_def program_ok_def layouts_ok_def)
    then show ?thesis
      using ml failed p x Some
      by (cases "fl_write api g (BPF_FLASH_OFFSET + 12) [0, 0]")
         (auto simp: loader_finalize_def split: bool.split)
  qed
qed

lemma execute_pending_inv:
  assumes inv: "loader_inv ld"
  shows "\<exists>ld' f'. execute_pending api ld f = Some (ld', f') \<and> loader_inv ld' \<and> ld_pending ld' = None"
proof (cases "ld_pending ld")
  case None
  then show ?thesis using inv by (simp add: execute_pending_def)
next
  case (Some op)
  show ?thesis
  proof (cases op)
    case (Begin b m c)
    then have "image_bounds b m" using inv Some by (simp add: loader_inv_def)
    from loader_begin_inv [OF this, of "ld\<lparr>ld_pending := None\<rparr>" api f c] show ?thesis
      using Some Begin
      by (cases "loader_begin api (ld\<lparr>ld_pending := None\<rparr>) f b m c")
         (auto simp: execute_pending_def)
  next
    case (Data off bs len)
    then have "length bs = 12" "unat len \<le> 12" and st: "ld_state ld = Receiving"
      using inv Some by (simp_all add: loader_inv_def)
    then have sl: "slice bs 0 (unat len) = Some (take (unat len) bs)" by (simp add: slice_def)
    have failed: "loader_inv (ld\<lparr>ld_pending := None, ld_state := Failed s\<rparr>)" for s
      using inv by (simp add: loader_inv_def)
    show ?thesis
      using Some Data sl failed data_step_inv [OF inv Some [unfolded Data]]
      by (cases "fl_write api f (image_address (unat off)) (take (unat len) bs)")
         (auto simp: execute_pending_def Let_def split: bool.split)
  next
    case Finalize
    then have st: "ld_state ld = Receiving" using inv Some by (simp add: loader_inv_def)
    then have "loader_inv (ld\<lparr>ld_pending := None\<rparr>)"
      using inv by (simp add: loader_inv_def transfer_ok_def)
    from loader_finalize_inv [OF this] st show ?thesis
      using Some Finalize by (simp add: execute_pending_def) blast
  qed
qed

lemma validate_crc_loop_sound:
  assumes "offset \<le> n" and "n \<le> 7808" and "0x6010 + offset \<le> length (contents f)"
  shows "\<exists>r f'. validate_crc_loop api n offset crc f = (r, f') \<and> contents f' = contents f
    \<and> (\<forall>c. r = Some c \<longrightarrow> (\<exists>img. slice (contents f) (0x6010 + offset) (0x6010 + n) = Some img
          \<and> c = crc32_update crc img))"
  using assms
proof (induction "n - offset" arbitrary: offset crc f rule: less_induct)
  case less
  show ?case
  proof (cases "offset < n")
    case False
    then have "offset = n" using less.prems by simp
    then show ?thesis
      using less.prems(3) by (subst validate_crc_loop.simps) (simp add: slice_def)
  next
    case True
    let ?len = "min 16 (n - offset)"
    obtain r g where rd: "fl_read api f (image_address offset) ?len = (r, g)"
      by (cases "fl_read api f (image_address offset) ?len")
    have cg: "contents g = contents f" using read_keeps [OF rd] .
    show ?thesis
    proof (cases r)
      case None
      then show ?thesis using True rd cg by (subst validate_crc_loop.simps) simp
    next
      case (Some chunk)
      have addr: "unat (image_address offset) = 0x6010 + offset"
        using True less.prems by (intro unat_image_address) simp
      have c1: "slice (contents f) (0x6010 + offset) (0x6010 + (offset + ?len)) = Some chunk"
        using read_ok [OF rd [unfolded Some]] addr by (simp add: add.assoc)
      have pre: "n - (offset + ?len) < n - offset" "offset + ?len \<le> n" "n \<le> 7808"
        using True less.prems by auto
      have bound: "0x6010 + (offset + ?len) \<le> length (contents g)"
        using c1 cg by (auto simp: slice_def split: if_splits)
      obtain r' f' where rec: "validate_crc_loop api n (offset + ?len) (crc32_update crc chunk) g = (r', f')"
        "contents f' = contents g"
        "\<And>c. r' = Some c \<Longrightarrow> \<exists>img. slice (contents g) (0x6010 + (offset + ?len)) (0x6010 + n) = Some img
            \<and> c = crc32_update (crc32_update crc chunk) img"
        using less.hyps [OF pre bound, of "crc32_update crc chunk"] by blast
      have "validate_crc_loop api n offset crc f = (r', f')"
        using True rd Some rec(1) by (subst validate_crc_loop.simps) (simp add: Let_def)
      moreover have "\<exists>img. slice (contents f) (0x6010 + offset) (0x6010 + n) = Some img
          \<and> c = crc32_update crc img" if "r' = Some c" for c
        using rec(3) [OF that] c1 cg slice_concat [OF c1] by (fastforce simp: crc32_update_append)
      ultimately show ?thesis using rec(2) cg by simp
    qed
  qed
qed

end

end
