(* ===== verification/Map_Access.thy ===== *)
theory Map_Access
  imports Bpf_Loader
begin

text \<open>
  What the host sees of the maps. \<open>maps_view\<close> reads the backing store as one byte array per
  map; \<open>read_map\<close> and \<open>write_map\<close> of
  \<^verbatim>\<open>crates/optibridge-protocol/src/lib.rs\<close> are ranged reads and updates of those
  arrays, so a write to one map cannot be seen in another. \<open>byte_maps\<close> is the interface
  both accesses share with the helpers of a running program.
\<close>

section \<open>The maps as byte arrays\<close>

definition map_bytes :: "map_layout \<Rightarrow> bytes \<Rightarrow> bytes" where
  "map_bytes l backing = take (unat (ml_len l)) (drop (unat (ml_offset l)) backing)"

definition maps_view :: "map_layout list \<Rightarrow> nat \<Rightarrow> bytes \<Rightarrow> bytes list" where
  "maps_view ls n backing = map (\<lambda>i. map_bytes (ls ! i) backing) [0..<n]"

definition patch :: "bytes \<Rightarrow> nat \<Rightarrow> bytes \<Rightarrow> bytes" where
  "patch m off bs = take off m @ bs @ drop (off + length bs) m"

lemma length_patch: "off + length bs \<le> length m \<Longrightarrow> length (patch m off bs) = length m"
  by (simp add: patch_def)

lemma patch_nth:
  "off + length bs \<le> length m \<Longrightarrow> i < length m \<Longrightarrow>
     patch m off bs ! i = (if off \<le> i \<and> i < off + length bs then bs ! (i - off) else m ! i)"
  by (auto simp: patch_def nth_append)

lemma take_drop_patch:
  "off + length bs \<le> length m \<Longrightarrow> take (length bs) (drop off (patch m off bs)) = bs"
  by (simp add: patch_def)

lemma length_maps_view [simp]: "length (maps_view ls n backing) = n"
  by (simp add: maps_view_def)

lemma maps_view_nth: "i < n \<Longrightarrow> maps_view ls n backing ! i = map_bytes (ls ! i) backing"
  by (simp add: maps_view_def)

lemma length_map_bytes:
  "layouts_ok ls n \<Longrightarrow> i < n \<Longrightarrow> length backing = 1024 \<Longrightarrow>
     length (map_bytes (ls ! i) backing) = unat (ml_len (ls ! i))"
  using layouts_ok_nth [of ls n i] by (auto simp: map_bytes_def)

text \<open>The maps do not overlap.\<close>

lemma layouts_disjoint:
  assumes "layouts_ok ls n" and "i < n" and "j < n" and "i \<noteq> j"
  shows "unat (ml_offset (ls ! i)) + unat (ml_len (ls ! i)) \<le> unat (ml_offset (ls ! j))
    \<or> unat (ml_offset (ls ! j)) + unat (ml_len (ls ! j)) \<le> unat (ml_offset (ls ! i))"
  using layouts_ok_ordered [OF assms(1), of i j] layouts_ok_ordered [OF assms(1), of j i] assms(2-4)
  by (cases "i < j") auto

text \<open>An update inside one map.\<close>

lemma copy_into_map:
  assumes ok: "layouts_ok ls n" and i: "i < n" and len: "length backing = 1024"
    and fit: "off + length bs \<le> unat (ml_len (ls ! i))"
  shows "\<exists>backing'. copy_into backing (unat (ml_offset (ls ! i)) + off) bs = Some backing'
    \<and> length backing' = 1024
    \<and> maps_view ls n backing' = (maps_view ls n backing)[i := patch (maps_view ls n backing ! i) off bs]"
proof -
  let ?o = "unat (ml_offset (ls ! i))" let ?l = "unat (ml_len (ls ! i))"
  have b: "?o + ?l \<le> 1024" using layouts_ok_nth [OF ok i] by simp
  then obtain backing' where c: "copy_into backing (?o + off) bs = Some backing'"
    using fit len by (simp add: copy_into_def)
  have len': "length backing' = 1024" using copy_into_length [OF c] len by simp
  have inner: "backing' ! k = bs ! (k - (?o + off))"
    if "?o + off \<le> k" "k < ?o + off + length bs" for k
    using slice_nth [OF slice_copy_same [OF c], of "k - (?o + off)"] that by simp
  have view: "map_bytes (ls ! j) backing'
      = (if j = i then patch (map_bytes (ls ! i) backing) off bs else map_bytes (ls ! j) backing)"
    if j: "j < n" for j
  proof (rule nth_equalityI)
    show "length (map_bytes (ls ! j) backing') = length (if j = i
        then patch (map_bytes (ls ! i) backing) off bs else map_bytes (ls ! j) backing)"
      using length_map_bytes [OF ok] i j len len' fit by (simp add: length_patch)
    fix k
    assume "k < length (map_bytes (ls ! j) backing')"
    then have k: "k < unat (ml_len (ls ! j))" using length_map_bytes [OF ok j len'] by simp
    have bj: "unat (ml_offset (ls ! j)) + unat (ml_len (ls ! j)) \<le> 1024"
      using layouts_ok_nth [OF ok j] by simp
    have at: "map_bytes (ls ! j) xs ! k = xs ! (unat (ml_offset (ls ! j)) + k)"
      if "length xs = 1024" for xs
      using k bj that by (simp add: map_bytes_def)
    show "map_bytes (ls ! j) backing' ! k = (if j = i
        then patch (map_bytes (ls ! i) backing) off bs else map_bytes (ls ! j) backing) ! k"
    proof (cases "j = i")
      case True
      then show ?thesis
        using at len len' k inner copy_into_nth_outside [OF c, of "?o + k"] length_map_bytes [OF ok i len]
          fit by (auto simp: patch_nth)
    next
      case False
      then have "unat (ml_offset (ls ! j)) + k < ?o + off
          \<or> ?o + off + length bs \<le> unat (ml_offset (ls ! j)) + k"
        using layouts_disjoint [OF ok i j] k fit by linarith
      then show ?thesis
        using False at len len' copy_into_nth_outside [OF c] by auto
    qed
  qed
  have "maps_view ls n backing' = (maps_view ls n backing)[i := patch (maps_view ls n backing ! i) off bs]"
    using view i by (intro nth_equalityI) (auto simp: maps_view_nth nth_list_update)
  then show ?thesis using c len' by blast
qed

section \<open>The interface of the maps\<close>

text \<open>A store \<open>'s\<close> of byte arrays: ranged reads, and writes that patch one array.\<close>

locale byte_maps =
  fixes view :: "'s \<Rightarrow> bytes list"
    and rd :: "'s \<Rightarrow> nat \<Rightarrow> nat \<Rightarrow> nat \<Rightarrow> bytes option"
    and wr :: "'s \<Rightarrow> nat \<Rightarrow> nat \<Rightarrow> bytes \<Rightarrow> 's option"
    and readable :: "'s \<Rightarrow> nat \<Rightarrow> nat \<Rightarrow> nat \<Rightarrow> bool" and writable :: "'s \<Rightarrow> nat \<Rightarrow> nat \<Rightarrow> nat \<Rightarrow> bool"
    and ok :: "'s \<Rightarrow> bool"
  assumes rd_spec: "ok s \<Longrightarrow> rd s i off n = (if readable s i off n \<and> i < length (view s)
      \<and> off + n \<le> length (view s ! i) then Some (take n (drop off (view s ! i))) else None)"
    and wr_spec: "ok s \<Longrightarrow> (case wr s i off bs of
        None \<Rightarrow> \<not> (writable s i off (length bs) \<and> i < length (view s) \<and> off + length bs \<le> length (view s ! i))
      | Some s' \<Rightarrow> writable s i off (length bs) \<and> i < length (view s) \<and> off + length bs \<le> length (view s ! i)
          \<and> ok s' \<and> readable s' = readable s \<and> view s' = (view s)[i := patch (view s ! i) off bs])"
begin

lemma wr_some:
  assumes "ok s" and "wr s i off bs = Some s'"
  shows "writable s i off (length bs)" "i < length (view s)" "off + length bs \<le> length (view s ! i)"
    "ok s'" "readable s' = readable s" "view s' = (view s)[i := patch (view s ! i) off bs]"
  using wr_spec [where i = i and off = off and bs = bs, OF assms(1)] assms(2) by simp_all

lemma read_after_write:
  assumes "ok s" and "wr s i off bs = Some s'" and "readable s i off (length bs)"
  shows "rd s' i off (length bs) = Some bs"
  using wr_some [OF assms(1,2)] assms(3) by (simp add: rd_spec length_patch take_drop_patch)

lemma write_keeps_others:
  assumes "ok s" and "wr s i off bs = Some s'" and "j \<noteq> i"
  shows "rd s' j off' n = rd s j off' n"
  using wr_some [OF assms(1,2)] assms(1,3) by (simp add: rd_spec)

lemma write_keeps_range:
  assumes "ok s" and "wr s i off bs = Some s'" and "off' + n \<le> off \<or> off + length bs \<le> off'"
  shows "rd s' i off' n = rd s i off' n"
proof -
  note w = wr_some [OF assms(1,2)]
  have "take n (drop off' (patch (view s ! i) off bs)) = take n (drop off' (view s ! i))"
    if "off' + n \<le> length (view s ! i)"
    using that assms(3) w(3) by (intro nth_equalityI) (auto simp: length_patch patch_nth)
  then show ?thesis using w assms(1) by (simp add: rd_spec length_patch)
qed

end

section \<open>The host's access\<close>

definition host_view :: "bpf_loader \<Rightarrow> bytes \<Rightarrow> bytes list" where
  "host_view ld backing = maps_view (ld_map_layouts ld) (unat (ld_committed_map_count ld)) backing"

lemma has_program_layouts:
  assumes "loader_inv ld" and "has_program (ld_state ld)"
  shows "layouts_ok (ld_map_layouts ld) (unat (ld_committed_map_count ld))"
    and "unat (ld_committed_map_count ld) \<le> length (ld_map_layouts ld)"
  using assms by (cases "ld_state ld"; auto simp: loader_inv_def program_ok_def layouts_ok_def)+

lemma host_view_nth:
  assumes "loader_inv ld" and "has_program (ld_state ld)" and "length backing = 1024"
    and "map_id < ld_committed_map_count ld"
  shows "host_view ld backing ! unat map_id = map_bytes (ld_map_layouts ld ! unat map_id) backing"
    and "length (host_view ld backing ! unat map_id) = unat (ml_len (ld_map_layouts ld ! unat map_id))"
  using has_program_layouts [OF assms(1,2)] length_map_bytes [OF has_program_layouts(1) [OF assms(1,2)] _ assms(3)]
    assms(4) by (simp_all add: host_view_def maps_view_nth word_less_nat_alt)

text \<open>The bounds test that both accesses make, over exact arithmetic.\<close>

lemma range_check:
  assumes "n \<le> 16"
  shows "(case checked_add off (of_nat n :: u16) of None \<Rightarrow> True | Some e \<Rightarrow> e > l)
    \<longleftrightarrow> unat off + n > unat l"
proof -
  have n: "unat (of_nat n :: u16) = n" using assms by (intro unat_of_nat_id) simp
  show ?thesis
  proof (cases "checked_add off (of_nat n :: u16)")
    case None
    then show ?thesis using n unat_u16_less [of l] by (auto simp: checked_add_def split: if_splits)
  next
    case (Some e)
    then show ?thesis using n checked_add_SomeD [OF Some] by (simp add: word_less_nat_alt)
  qed
qed

lemma read_map_spec:
  assumes inv: "loader_inv ld" and len: "length backing = 1024"
  shows "read_map ld map_id off n backing =
    (if n = 0 \<or> 16 < unat n then Inl STATUS_BAD_LENGTH
     else if \<not> has_program (ld_state ld) then Inl STATUS_NO_PROGRAM
     else if map_id \<ge> ld_committed_map_count ld then Inl STATUS_BAD_COMMAND
     else if unat off + unat n > length (host_view ld backing ! unat map_id) then Inl STATUS_BAD_LENGTH
     else Inr (take (unat n) (drop (unat off) (host_view ld backing ! unat map_id))))"
proof (cases "n = 0 \<or> 16 < unat n \<or> \<not> has_program (ld_state ld) \<or> map_id \<ge> ld_committed_map_count ld")
  case True
  then show ?thesis by (auto simp: read_map_def split: option.split)
next
  case False
  then have prog: "has_program (ld_state ld)" and id: "map_id < ld_committed_map_count ld"
    and n: "unat n \<le> 16" "n \<noteq> 0" by auto
  let ?l = "ld_map_layouts ld ! unat map_id"
  note hv = host_view_nth [OF inv prog len id]
  have idn: "unat map_id < unat (ld_committed_map_count ld)" using id by (simp add: word_less_nat_alt)
  then have get: "get_at (ld_map_layouts ld) (unat map_id) = Some ?l"
    using has_program_layouts(2) [OF inv prog] by (simp add: get_at_def)
  have rc: "(case checked_add off (ucast n) of None \<Rightarrow> True | Some e \<Rightarrow> e > ml_len ?l)
      \<longleftrightarrow> unat off + unat n > unat (ml_len ?l)"
    using range_check [where off = off and l = "ml_len ?l", OF n(1)] by simp
  have b: "unat (ml_offset ?l) + unat (ml_len ?l) \<le> 1024"
    using layouts_ok_nth [OF has_program_layouts(1) [OF inv prog] idn] by simp
  have go: "read_map ld map_id off n backing =
      (case checked_add off (ucast n) of None \<Rightarrow> Inl STATUS_BAD_LENGTH
       | Some e \<Rightarrow> if e > ml_len ?l then Inl STATUS_BAD_LENGTH
           else case slice backing (unat (ml_offset ?l) + unat off)
               (unat (ml_offset ?l) + unat off + unat n) of
             None \<Rightarrow> Inl STATUS_BAD_LENGTH | Some bs \<Rightarrow> Inr bs)"
    unfolding read_map_def Let_def using False n get by simp
  have spec: "(if n = 0 \<or> 16 < unat n then Inl STATUS_BAD_LENGTH
     else if \<not> has_program (ld_state ld) then Inl STATUS_NO_PROGRAM
     else if map_id \<ge> ld_committed_map_count ld then Inl STATUS_BAD_COMMAND
     else X) = X" for X :: "(u8, bytes) rust_result"
    using False by simp
  show ?thesis
  proof (cases "unat off + unat n > unat (ml_len ?l)")
    case True
    then have "read_map ld map_id off n backing = Inl STATUS_BAD_LENGTH"
      using rc unfolding go by (auto split: option.splits)
    then show ?thesis using True unfolding spec hv(2) by simp
  next
    case fits: False
    then obtain e where e: "checked_add off (ucast n) = Some e" "\<not> e > ml_len ?l"
      using rc by (auto split: option.splits)
    have "slice backing (unat (ml_offset ?l) + unat off) (unat (ml_offset ?l) + unat off + unat n)
        = Some (take (unat n) (drop (unat (ml_offset ?l) + unat off) backing))"
      using fits b len by (simp add: slice_def)
    moreover have "take (unat n) (drop (unat (ml_offset ?l) + unat off) backing)
        = take (unat n) (drop (unat off) (map_bytes ?l backing))"
      using fits by (simp add: map_bytes_def take_take_drop_sub ac_simps)
    ultimately show ?thesis
      using fits e hv(2) unfolding spec go hv(1) by simp
  qed
qed

lemma write_map_spec:
  assumes inv: "loader_inv ld" and len: "length backing = 1024"
  shows "\<exists>res backing'. write_map ld map_id off replacement backing = (res, backing')
    \<and> length backing' = 1024
    \<and> res = (if replacement = [] \<or> 14 < length replacement then Inl STATUS_BAD_LENGTH
       else if \<not> has_program (ld_state ld) then Inl STATUS_NO_PROGRAM
       else if map_id \<ge> ld_committed_map_count ld then Inl STATUS_BAD_COMMAND
       else if unat off + length replacement > length (host_view ld backing ! unat map_id)
       then Inl STATUS_BAD_LENGTH else Inr ())
    \<and> (if res = Inr ()
       then host_view ld backing' = (host_view ld backing)
         [unat map_id := patch (host_view ld backing ! unat map_id) (unat off) replacement]
       else backing' = backing)"
proof (cases "replacement = [] \<or> 14 < length replacement \<or> \<not> has_program (ld_state ld)
    \<or> map_id \<ge> ld_committed_map_count ld")
  case True
  then show ?thesis using len by (auto simp: write_map_def split: option.split)
next
  case False
  then have prog: "has_program (ld_state ld)" and id: "map_id < ld_committed_map_count ld"
    and n: "length replacement \<le> 16" by auto
  let ?l = "ld_map_layouts ld ! unat map_id" let ?n = "length replacement"
  note hv = host_view_nth [OF inv prog len id]
  note ok = has_program_layouts(1) [OF inv prog]
  have idn: "unat map_id < unat (ld_committed_map_count ld)" using id by (simp add: word_less_nat_alt)
  then have get: "get_at (ld_map_layouts ld) (unat map_id) = Some ?l"
    using has_program_layouts(2) [OF inv prog] by (simp add: get_at_def)
  have rc: "(case checked_add off (of_nat ?n) of None \<Rightarrow> True | Some e \<Rightarrow> e > ml_len ?l)
      \<longleftrightarrow> unat off + ?n > unat (ml_len ?l)"
    using range_check [where off = off and l = "ml_len ?l", OF n] .
  have go: "write_map ld map_id off replacement backing =
      (case checked_add off (of_nat ?n) of None \<Rightarrow> (Inl STATUS_BAD_LENGTH, backing)
       | Some e \<Rightarrow> if e > ml_len ?l then (Inl STATUS_BAD_LENGTH, backing)
           else case copy_into backing (unat (ml_offset ?l) + unat off) replacement of
             None \<Rightarrow> (Inl STATUS_BAD_LENGTH, backing) | Some backing' \<Rightarrow> (Inr (), backing'))"
    unfolding write_map_def Let_def using False get by simp
  have spec: "(if replacement = [] \<or> 14 < length replacement then Inl STATUS_BAD_LENGTH
     else if \<not> has_program (ld_state ld) then Inl STATUS_NO_PROGRAM
     else if map_id \<ge> ld_committed_map_count ld then Inl STATUS_BAD_COMMAND
     else X) = X" for X :: "(u8, unit) rust_result"
    using False by simp
  show ?thesis
  proof (cases "unat off + ?n > unat (ml_len ?l)")
    case True
    then have "write_map ld map_id off replacement backing = (Inl STATUS_BAD_LENGTH, backing)"
      using rc unfolding go by (auto split: option.splits)
    then show ?thesis using True len unfolding spec hv(2) by simp
  next
    case fits: False
    then obtain e where e: "checked_add off (of_nat ?n) = Some e" "\<not> e > ml_len ?l"
      using rc by (auto split: option.splits)
    obtain backing' where c: "copy_into backing (unat (ml_offset ?l) + unat off) replacement = Some backing'"
      "length backing' = 1024"
      and v: "host_view ld backing' = (host_view ld backing)
        [unat map_id := patch (host_view ld backing ! unat map_id) (unat off) replacement]"
      using copy_into_map [OF ok idn len, of "unat off" replacement] fits unfolding host_view_def by auto
    have "write_map ld map_id off replacement backing = (Inr (), backing')"
      using e c(1) unfolding go by simp
    then show ?thesis using fits c(2) v unfolding spec hv(2) by simp
  qed
qed

text \<open>The two accesses, with arguments that fit the wire's fields, as an instance of the
  interface.\<close>

definition host_ok :: "bpf_loader \<times> bytes \<Rightarrow> bool" where
  "host_ok s \<longleftrightarrow> loader_inv (fst s) \<and> has_program (ld_state (fst s)) \<and> length (snd s) = 1024"

definition host_read :: "bpf_loader \<times> bytes \<Rightarrow> nat \<Rightarrow> nat \<Rightarrow> nat \<Rightarrow> bytes option" where
  "host_read s i off n =
     (if i < 256 \<and> off < 65536 \<and> n < 256
      then case read_map (fst s) (of_nat i) (of_nat off) (of_nat n) (snd s) of
        Inr bs \<Rightarrow> Some bs | Inl _ \<Rightarrow> None
      else None)"

definition host_write ::
    "bpf_loader \<times> bytes \<Rightarrow> nat \<Rightarrow> nat \<Rightarrow> bytes \<Rightarrow> (bpf_loader \<times> bytes) option" where
  "host_write s i off bs =
     (if i < 256 \<and> off < 65536
      then case write_map (fst s) (of_nat i) (of_nat off) bs (snd s) of
        (Inr _, backing) \<Rightarrow> Some (fst s, backing) | (Inl _, _) \<Rightarrow> None
      else None)"

lemma host_view_bound:
  assumes "host_ok s" and "i < unat (ld_committed_map_count (fst s))"
  shows "length (host_view (fst s) (snd s) ! i) \<le> 1024"
  using assms by (simp add: host_ok_def host_view_def maps_view_nth map_bytes_def)

lemma count_small: "i < unat (c :: u8) \<Longrightarrow> i < 256"
  using unat_u8_less [of c] by simp

lemma host_range_small:
  assumes "host_ok s" and "i < length (host_view (fst s) (snd s))"
    and "off + n \<le> length (host_view (fst s) (snd s) ! i)"
  shows "i < 256 \<and> off < 65536"
proof -
  have i: "i < unat (ld_committed_map_count (fst s))" using assms(2) by (simp add: host_view_def)
  show ?thesis using host_view_bound [OF assms(1) i] count_small [OF i] assms(3) by simp
qed

lemma of_nat_u8_less: "i < 256 \<Longrightarrow> ((of_nat i :: u8) < c) = (i < unat c)"
  by (simp add: word_less_nat_alt unat_of_nat_id)

lemma length_host_view [simp]: "length (host_view ld b) = unat (ld_committed_map_count ld)"
  by (simp add: host_view_def)

lemma host_read_spec:
  assumes "host_ok s"
  shows "host_read s i off n =
    (if (1 \<le> n \<and> n \<le> 16) \<and> i < length (host_view (fst s) (snd s))
        \<and> off + n \<le> length (host_view (fst s) (snd s) ! i)
     then Some (take n (drop off (host_view (fst s) (snd s) ! i))) else None)"
proof (cases "i < 256 \<and> off < 65536 \<and> n < 256")
  case False
  then show ?thesis
    using host_range_small [OF assms, of i off n] by (auto simp: host_read_def)
next
  case True
  then have u: "unat (of_nat i :: u8) = i" "unat (of_nat off :: u16) = off" "unat (of_nat n :: u8) = n"
    by (simp_all add: unat_of_nat_id)
  have n0: "(of_nat n :: u8) = 0 \<longleftrightarrow> n = 0" using u(3) by (metis unat_eq_zero)
  have le: "(ld_committed_map_count (fst s) \<le> of_nat i) = (\<not> i < unat (ld_committed_map_count (fst s)))"
    using of_nat_u8_less [of i] True by (simp flip: not_less)
  show ?thesis
    using assms True read_map_spec [of "fst s" "snd s" "of_nat i" "of_nat off" "of_nat n"]
    by (auto simp: host_read_def host_ok_def u n0 le)
qed

lemma host_write_spec:
  assumes "host_ok s"
  shows "case host_write s i off bs of
      None \<Rightarrow> \<not> ((1 \<le> length bs \<and> length bs \<le> 14) \<and> i < length (host_view (fst s) (snd s))
          \<and> off + length bs \<le> length (host_view (fst s) (snd s) ! i))
    | Some s' \<Rightarrow> (1 \<le> length bs \<and> length bs \<le> 14) \<and> i < length (host_view (fst s) (snd s))
          \<and> off + length bs \<le> length (host_view (fst s) (snd s) ! i) \<and> host_ok s'
          \<and> host_view (fst s') (snd s')
            = (host_view (fst s) (snd s))[i := patch (host_view (fst s) (snd s) ! i) off bs]"
proof (cases "i < 256 \<and> off < 65536")
  case False
  then show ?thesis
    using host_range_small [OF assms, of i off "length bs"] by (auto simp: host_write_def)
next
  case True
  then have u: "unat (of_nat i :: u8) = i" "unat (of_nat off :: u16) = off"
    by (simp_all add: unat_of_nat_id)
  have le: "(ld_committed_map_count (fst s) \<le> of_nat i) = (\<not> i < unat (ld_committed_map_count (fst s)))"
    using of_nat_u8_less [of i] True by (simp flip: not_less)
  obtain res backing' where w: "write_map (fst s) (of_nat i) (of_nat off) bs (snd s) = (res, backing')"
    "length backing' = 1024"
    and res: "res = (if bs = [] \<or> 14 < length bs then Inl STATUS_BAD_LENGTH
       else if \<not> has_program (ld_state (fst s)) then Inl STATUS_NO_PROGRAM
       else if ld_committed_map_count (fst s) \<le> of_nat i then Inl STATUS_BAD_COMMAND
       else if off + length bs > length (host_view (fst s) (snd s) ! i)
       then Inl STATUS_BAD_LENGTH else Inr ())"
    and v: "res = Inr () \<Longrightarrow> host_view (fst s) backing' = (host_view (fst s) (snd s))
         [i := patch (host_view (fst s) (snd s) ! i) off bs]"
    using write_map_spec [of "fst s" "snd s" "of_nat i" "of_nat off" bs] assms
    unfolding host_ok_def u by auto
  show ?thesis
  proof (cases res)
    case (Inl st)
    then have "host_write s i off bs = None" using True w by (simp add: host_write_def)
    moreover have "\<not> ((1 \<le> length bs \<and> length bs \<le> 14) \<and> i < length (host_view (fst s) (snd s))
          \<and> off + length bs \<le> length (host_view (fst s) (snd s) ! i))"
      using res Inl assms by (auto simp: le host_ok_def split: if_splits)
    ultimately show ?thesis by simp
  next
    case (Inr x)
    then have "host_write s i off bs = Some (fst s, backing')" using True w by (simp add: host_write_def)
    moreover have "bs \<noteq> []" "length bs \<le> 14" "i < unat (ld_committed_map_count (fst s))"
      "off + length bs \<le> length (host_view (fst s) (snd s) ! i)"
      using res Inr by (auto simp: le split: if_splits)
    ultimately show ?thesis using v Inr w(2) assms by (simp add: host_ok_def Suc_le_eq)
  qed
qed

interpretation host: byte_maps "\<lambda>s. host_view (fst s) (snd s)" host_read host_write
  "\<lambda>s i off n. 1 \<le> n \<and> n \<le> 16" "\<lambda>s i off n. 1 \<le> n \<and> n \<le> 14" host_ok
  by unfold_locales
    (erule host_read_spec, simp only: simp_thms cong: option.case_cong, erule host_write_spec)

section \<open>Properties of the maps\<close>

text \<open>A loader with the two maps of 8 and 4 bytes, for the witnesses.\<close>

definition two_maps :: bpf_loader where
  "two_maps = loader_new\<lparr>ld_state := Committed 7, ld_bytecode_len := 8, ld_map_count := 2,
     ld_committed_map_count := 2,
     ld_map_layouts := [\<lparr>ml_offset = 0, ml_len = 8, ml_key_size = 4, ml_value_size = 4\<rparr>,
       \<lparr>ml_offset = 8, ml_len = 4, ml_key_size = 4, ml_value_size = 4\<rparr>]
       @ replicate 6 map_layout_empty\<rparr>"

lemma two_maps_ok: "loader_inv two_maps" "has_program (ld_state two_maps)"
  by (simp_all add: two_maps_def loader_new_def loader_inv_def program_ok_def image_bounds_def
      layouts_ok_def)

lemma two_maps_fields:
  "has_program (ld_state two_maps)" "ld_committed_map_count two_maps = 2"
  "host_view two_maps backing = [take 8 backing, take 4 (drop 8 backing)]"
  by (simp_all add: two_maps_def loader_new_def host_view_def maps_view_def map_bytes_def upt_rec)

definition map_flash :: fake_flash where
  "map_flash = \<lparr>ff_bytes = (replicate 24592 0xff @ [0x95, 0, 0, 0, 0, 0, 0, 0])
     @ [1, 0, 0, 0, 4, 0, 0, 0, 2, 0, 0, 0, 3, 0, 0, 0] @ [1, 0, 0, 0, 4, 0, 0, 0, 4, 0, 0, 0, 1, 0, 0, 0],
     ff_fail_write = False\<rparr>"

lemma map_flash_layouts:
  "layouts_spec 0 (descriptors_at (ff_bytes map_flash) 8 (unat (2 :: u8)))
     = Some [\<lparr>ml_offset = 0, ml_len = 6, ml_key_size = 4, ml_value_size = 2\<rparr>,
             \<lparr>ml_offset = 6, ml_len = 4, ml_key_size = 4, ml_value_size = 4\<rparr>]"
proof -
  have "take 16 (drop 24600 (ff_bytes map_flash)) = [1, 0, 0, 0, 4, 0, 0, 0, 2, 0, 0, 0, 3, 0, 0, 0]"
    "take 16 (drop 24616 (ff_bytes map_flash)) = [1, 0, 0, 0, 4, 0, 0, 0, 4, 0, 0, 0, 1, 0, 0, 0]"
    by (simp_all add: map_flash_def)
  then show ?thesis
    by (simp add: descriptors_at_def descriptor_at_def parse_descriptor_def descriptor_word_def
        le_bytes_eval md_valid_def md_layout_def md_bytes_def upt_rec)
qed

lemma map_flash_fits:
  "\<not> ff_fail_write map_flash" "unat (2 :: u8) \<le> BPF_MAX_MAPS"
  "0x6010 + unat (8 :: u16) + 16 * unat (2 :: u8) \<le> length (ff_bytes map_flash)"
  by (simp_all add: map_flash_def)

text \<open>C20: Where the maps lie: on a healthy flash \<open>map_layouts\<close>, with its overflow-checked 32-bit
  arithmetic, computes the placement over exact arithmetic - one map after the other, in the order
  of the descriptors - and fails exactly when a descriptor is invalid or the maps need more than
  1,024 bytes. It never panics and changes nothing on the flash.\<close>

theorem map_layouts_refines_placement:
  assumes "reliable_flash api contents healthy" and "healthy f" and "unat m \<le> BPF_MAX_MAPS"
    and "0x6010 + unat b + 16 * unat m \<le> length (contents f)"
  shows "\<exists>f'. map_layouts api f b m
      = Some (map_option (\<lambda>ls. (ls @ replicate (BPF_MAX_MAPS - unat m) map_layout_empty, m))
          (layouts_spec 0 (descriptors_at (contents f) b (unat m))), f')
    \<and> contents f' = contents f"
  using reliable_flash.map_layouts_total [OF assms(1) _ assms(2,4)] assms(3)
  by (auto simp: placement_def)

theorem map_layouts_refines_placement_witness:
  "\<exists>f'. map_layouts fake_api map_flash 8 2
     = Some (Some ([\<lparr>ml_offset = 0, ml_len = 6, ml_key_size = 4, ml_value_size = 2\<rparr>,
         \<lparr>ml_offset = 6, ml_len = 4, ml_key_size = 4, ml_value_size = 4\<rparr>]
         @ replicate 6 map_layout_empty, 2), f')"
  using map_layouts_refines_placement [OF fake.reliable_flash_axioms map_flash_fits] map_flash_layouts
  by auto

text \<open>C21: No two maps share a byte and none leaves the 1,024-byte backing store, whatever
  descriptors an image declares and however its reads behave: in every placement
  \<open>map_layouts\<close> returns, of one map or more, each map is non-empty, lies inside the store, has
  four-byte keys and holds a whole number of non-empty values, and each map ends before any later one
  begins.\<close>

theorem maps_disjoint_and_bounded:
  assumes "nor_flash api contents" and "unat m \<le> BPF_MAX_MAPS"
    and "map_layouts api f b m = Some (Some (ls, count), f')"
  shows "count = m
    \<and> (\<forall>i<unat m. 0 < unat (ml_len (ls ! i))
        \<and> unat (ml_offset (ls ! i)) + unat (ml_len (ls ! i)) \<le> BPF_MAX_MAP_BYTES
        \<and> ml_key_size (ls ! i) = 4 \<and> 0 < unat (ml_value_size (ls ! i))
        \<and> unat (ml_value_size (ls ! i)) dvd unat (ml_len (ls ! i)))
    \<and> (\<forall>j<unat m. \<forall>i<j. unat (ml_offset (ls ! i)) + unat (ml_len (ls ! i)) \<le> unat (ml_offset (ls ! j)))"
proof -
  have "placement (contents f) b m = Some (ls, count)"
    using nor_flash.map_layouts_sound [OF assms(1), of m f b] assms(2,3) by auto
  then have ok: "layouts_ok ls (unat m)" "count = m" using placement_ok assms(2) by simp_all
  then show ?thesis using layouts_ok_nth [OF ok(1)] layouts_ok_ordered [OF ok(1)] by simp
qed

theorem maps_disjoint_and_bounded_witness:
  "\<exists>ls f'. map_layouts fake_api map_flash 8 2 = Some (Some (ls, 2), f')
     \<and> 0 < unat (ml_len (ls ! 1)) \<and> unat (ml_offset (ls ! 1)) + unat (ml_len (ls ! 1)) \<le> BPF_MAX_MAP_BYTES
     \<and> unat (ml_offset (ls ! 0)) + unat (ml_len (ls ! 0)) \<le> unat (ml_offset (ls ! 1))"
proof -
  obtain ls f' where r: "map_layouts fake_api map_flash 8 2 = Some (Some (ls, 2), f')"
    using fake.map_layouts_total [of 2 map_flash 8] map_flash_fits map_flash_layouts
    by (auto simp: placement_def)
  have "unat (2 :: u8) \<le> BPF_MAX_MAPS" "(1 :: nat) < unat (2 :: u8)" "(0 :: nat) < 1" by simp_all
  with maps_disjoint_and_bounded [OF fake.nor_flash_axioms this(1) r] r show ?thesis by blast
qed

text \<open>C15: A host write changes exactly the bytes it names: Write BPF Map fails, with the status the
  protocol gives for the first violated condition, or replaces the named range of the named map; no
  other byte of that map, no other map, and on failure nothing at all, is changed.\<close>

theorem write_map_patches_one_map:
  assumes "loader_inv ld" and "length backing = BPF_MAX_MAP_BYTES"
  shows "\<exists>res backing'. write_map ld map_id off replacement backing = (res, backing')
    \<and> res = (if replacement = [] \<or> MAX_MAP_WRITE_BYTES < length replacement then Inl STATUS_BAD_LENGTH
       else if \<not> has_program (ld_state ld) then Inl STATUS_NO_PROGRAM
       else if map_id \<ge> ld_committed_map_count ld then Inl STATUS_BAD_COMMAND
       else if unat off + length replacement > length (host_view ld backing ! unat map_id)
       then Inl STATUS_BAD_LENGTH else Inr ())
    \<and> (if res = Inr ()
       then host_view ld backing' = (host_view ld backing)
         [unat map_id := patch (host_view ld backing ! unat map_id) (unat off) replacement]
       else backing' = backing)"
  using write_map_spec [OF assms(1), of backing map_id off replacement] assms(2) by auto

theorem write_map_patches_one_map_witness:
  "\<exists>backing'. write_map two_maps 1 2 [9, 8] (replicate 1024 0) = (Inr (), backing')
     \<and> host_view two_maps backing' = [replicate 8 0, [0, 0, 9, 8]]"
proof -
  have v: "host_view two_maps (replicate 1024 0) = [replicate 8 0, [0, 0, 0, 0]]"
    by (simp add: two_maps_fields(3) numeral_eq_Suc)
  have "length (replicate 1024 (0 :: u8)) = BPF_MAX_MAP_BYTES" by simp
  from write_map_patches_one_map [OF two_maps_ok(1) this, of 1 2 "[9, 8]"]
  show ?thesis unfolding v by (auto simp: two_maps_fields patch_def word_le_nat_alt)
qed

text \<open>C22: What the host writes it reads back, until it writes the same range again: after a
  successful write of one range, reading that range yields the written bytes, and reading a
  disjoint range of the map, or any range of another map, yields what it yielded before.\<close>

theorem host_write_then_read:
  assumes "host_ok s" and "host_write s i off bs = Some s'"
  shows "host_read s' i off (length bs) = Some bs
    \<and> (j \<noteq> i \<or> off' + n \<le> off \<or> off + length bs \<le> off' \<longrightarrow> host_read s' j off' n = host_read s j off' n)"
proof -
  have "1 \<le> length bs \<and> length bs \<le> 16"
    using host.wr_some(1) [OF assms] by simp
  then show ?thesis
    using host.read_after_write [OF assms] host.write_keeps_others [OF assms, of j off' n]
      host.write_keeps_range [OF assms, of off' n] by blast
qed

theorem host_write_then_read_witness:
  "\<exists>s'. host_write (two_maps, replicate 1024 0) 1 2 [9, 8] = Some s' \<and> host_read s' 1 2 2 = Some [9, 8]
     \<and> host_read s' 0 0 4 = host_read (two_maps, replicate 1024 0) 0 0 4"
proof -
  have ok: "host_ok (two_maps, replicate 1024 0)" using two_maps_ok by (simp add: host_ok_def)
  obtain s' where w: "host_write (two_maps, replicate 1024 0) 1 2 [9, 8] = Some s'"
    using host_write_spec [where i = 1 and off = 2 and bs = "[9, 8]", OF ok]
    by (auto simp: two_maps_fields split: option.splits)
  from host_write_then_read [where j = 0 and off' = 0 and n = 4, OF ok w] w show ?thesis by (auto simp: numeral_2_eq_2)
qed

end
