(* ===== verification/Dispatch.thy ===== *)
theory Dispatch
  imports Map_Access
begin

text \<open>
  From a request to a response: the status queue, \<open>dispatch\<close>,
  \<open>dispatch_with_bpf_and_executor\<close> and the packet entry points of
  \<^verbatim>\<open>crates/optibridge-protocol/src/lib.rs\<close>.

  The arguments the code passes as mutable references are the fields of one record. The closure
  that runs a program is the argument \<open>execute\<close>, a function of the metadata, the map
  backing store and the state it captures; \<open>None\<close> means that it does not return.
\<close>

section \<open>The status queue\<close>

record status_queue =
  sq_newest :: bytes
  sq_newest_len :: u8

definition status_queue_ready :: status_queue where
  "status_queue_ready = \<lparr>sq_newest = [0x72, 0x65, 0x61, 0x64, 0x79, 0, 0, 0, 0, 0, 0, 0, 0, 0, 0, 0],
     sq_newest_len = 5\<rparr>"

definition status_queue_pop :: "status_queue \<Rightarrow> (bytes \<times> status_queue) may_panic" where
  "status_queue_pop q = do {
     let len = unat (sq_newest_len q);
     bs \<leftarrow> slice (sq_newest q) 0 len;
     Some (bs, q\<lparr>sq_newest_len := 0\<rparr>)
   }"

definition status_queue_wf :: "status_queue \<Rightarrow> bool" where
  "status_queue_wf q \<longleftrightarrow> length (sq_newest q) = MAX_PAYLOAD \<and> unat (sq_newest_len q) \<le> MAX_PAYLOAD"

section \<open>Dispatch\<close>

datatype packet_outcome = Response nat | EmptyPacket | ResetRequested

record 'w dispatch_state =
  ds_queue :: status_queue
  ds_loader :: bpf_loader
  ds_backing :: bytes
  ds_output :: bytes
  ds_world :: 'w

type_synonym 'w executor =
  "bpf_program_metadata \<Rightarrow> bytes \<Rightarrow> 'w \<Rightarrow> ((u8, u64) rust_result \<times> bytes \<times> 'w) may_panic"

type_synonym 'w handler_result = "(packet_outcome \<times> 'w dispatch_state) may_panic"

definition response :: "u8 \<Rightarrow> u8 \<Rightarrow> bytes \<Rightarrow> bytes \<Rightarrow> (packet_outcome \<times> bytes) may_panic" where
  "response status sq payload output = do {
     (res, output) \<leftarrow> encode_response status sq 0 payload output;
     Some (Response (case res of Inr n \<Rightarrow> n | Inl _ \<Rightarrow> HEADER_LEN), output)
   }"

definition status_response :: "u8 \<Rightarrow> u8 \<Rightarrow> bytes \<Rightarrow> (packet_outcome \<times> bytes) may_panic" where
  "status_response status sq output = response status sq [] output"

definition respond :: "request \<Rightarrow> 'w dispatch_state \<Rightarrow> u8 \<Rightarrow> bytes \<Rightarrow> 'w handler_result" where
  "respond r s status payload = do {
     (outcome, output) \<leftarrow> response status (req_sequence r) payload (ds_output s);
     Some (outcome, s\<lparr>ds_output := output\<rparr>)
   }"

definition dispatch :: "request \<Rightarrow> 'w dispatch_state \<Rightarrow> 'w handler_result" where
  "dispatch r s =
     (if req_flags r \<noteq> 0 then respond r s STATUS_BAD_FLAGS []
      else if req_command r = CMD_RESET then
        (if req_payload_len r = 0 then Some (ResetRequested, s) else respond r s STATUS_BAD_LENGTH [])
      else if req_command r = CMD_READ_STATUS then
        (if req_payload_len r = 0 then do {
           (bs, q) \<leftarrow> status_queue_pop (ds_queue s);
           respond r (s\<lparr>ds_queue := q\<rparr>) STATUS_OK bs
         } else respond r s STATUS_BAD_LENGTH [])
      else if req_command r \<in> {CMD_LOAD_BPF, CMD_START_BPF, CMD_READ_BPF_MAP, CMD_WRITE_BPF_MAP} then
        respond r s (if req_payload_len r = 0 then STATUS_NOT_IMPLEMENTED else STATUS_BAD_LENGTH) []
      else respond r s STATUS_BAD_COMMAND [])"

text \<open>The arms of \<open>dispatch_with_bpf_and_executor\<close>, for requests without flags.\<close>

definition handle_load :: "request \<Rightarrow> 'w dispatch_state \<Rightarrow> 'w handler_result" where
  "handle_load r s = do {
     (res, ld) \<leftarrow> accepts_load (ds_loader s) r;
     respond r (s\<lparr>ds_loader := ld\<rparr>) (case res of Inr _ \<Rightarrow> STATUS_OK | Inl status \<Rightarrow> status) []
   }"

definition handle_read_map :: "request \<Rightarrow> 'w dispatch_state \<Rightarrow> 'w handler_result" where
  "handle_read_map r s =
     (if req_payload_len r \<noteq> 4 then respond r s STATUS_BAD_LENGTH []
      else
        let byte_length = req_payload r ! 3;
            byte_offset = from_le_bytes [req_payload r ! 1, req_payload r ! 2] in
        case read_map (ds_loader s) (req_payload r ! 0) byte_offset byte_length (ds_backing s) of
          Inr bs \<Rightarrow> respond r s STATUS_OK bs
        | Inl status \<Rightarrow> respond r s status [])"

definition MAP_WRITE_LOCATION_SIZE :: u8 where "MAP_WRITE_LOCATION_SIZE = 2"

definition handle_write_map :: "request \<Rightarrow> 'w dispatch_state \<Rightarrow> 'w handler_result" where
  "handle_write_map r s =
     (if req_payload_len r < MAP_WRITE_LOCATION_SIZE + 1 then respond r s STATUS_BAD_LENGTH []
      else
        let map_location = (from_le_bytes [req_payload r ! 0, req_payload r ! 1] :: u16) in
        if map_location AND 0xe000 \<noteq> 0 then respond r s STATUS_BAD_LENGTH []
        else do {
          let map_id = (ucast (drop_bit 10 map_location AND 0x07) :: u8);
          let byte_offset = map_location AND 0x03ff;
          replacement \<leftarrow> slice (req_payload r) (unat MAP_WRITE_LOCATION_SIZE) (unat (req_payload_len r));
          (case write_map (ds_loader s) map_id byte_offset replacement (ds_backing s) of
             (Inr _, backing) \<Rightarrow> respond r (s\<lparr>ds_backing := backing\<rparr>) STATUS_OK []
           | (Inl status, backing) \<Rightarrow> respond r (s\<lparr>ds_backing := backing\<rparr>) status [])
        })"

definition start_status :: "(u8, u64) rust_result \<Rightarrow> bpf_loader \<Rightarrow> u8 \<times> bpf_loader" where
  "start_status res ld =
     (case res of
        Inr value \<Rightarrow>
          if value = 0 then
            (case mark_running ld of (Inr _, ld) \<Rightarrow> (STATUS_OK, ld) | (Inl _, ld) \<Rightarrow> (STATUS_BAD_STATE, ld))
          else (STATUS_BAD_COMMAND, ld)
      | Inl status \<Rightarrow> (status, ld))"

definition handle_start :: "'w executor \<Rightarrow> request \<Rightarrow> 'w dispatch_state \<Rightarrow> 'w handler_result" where
  "handle_start execute r s =
     (if req_payload_len r \<noteq> 0 then respond r s STATUS_BAD_LENGTH []
      else do {
        metadata \<leftarrow> execution_metadata (ds_loader s);
        (case metadata of
           Inl status \<Rightarrow> respond r s status []
         | Inr md \<Rightarrow> do {
             (res, backing, w) \<leftarrow> execute md (ds_backing s) (ds_world s);
             let (status, ld) = start_status res (ds_loader s);
             respond r (s\<lparr>ds_loader := ld, ds_backing := backing, ds_world := w\<rparr>) status []
           })
      })"

definition handle_query :: "request \<Rightarrow> 'w dispatch_state \<Rightarrow> 'w handler_result" where
  "handle_query r s =
     (if req_payload_len r \<noteq> 0 then respond r s STATUS_BAD_LENGTH []
      else case query (ds_loader s) of
        Inr crc \<Rightarrow> respond r s STATUS_OK (to_le_bytes 4 crc)
      | Inl status \<Rightarrow> respond r s status [])"

definition dispatch_with_bpf_and_executor ::
    "'w executor \<Rightarrow> request \<Rightarrow> 'w dispatch_state \<Rightarrow> 'w handler_result" where
  "dispatch_with_bpf_and_executor execute r s =
     (if req_flags r \<noteq> 0 then respond r s STATUS_BAD_FLAGS []
      else if req_command r = CMD_LOAD_BPF then handle_load r s
      else if req_command r = CMD_READ_BPF_MAP then handle_read_map r s
      else if req_command r = CMD_WRITE_BPF_MAP then handle_write_map r s
      else if req_command r = CMD_START_BPF then handle_start execute r s
      else if req_command r = CMD_QUERY_BPF_CRC then handle_query r s
      else dispatch r s)"

text \<open>The closure of \<open>dispatch_with_bpf\<close>.\<close>

definition not_implemented :: "'w executor" where
  "not_implemented md backing w = Some (Inl STATUS_NOT_IMPLEMENTED, backing, w)"

definition dispatch_with_bpf :: "request \<Rightarrow> 'w dispatch_state \<Rightarrow> 'w handler_result" where
  "dispatch_with_bpf r s = dispatch_with_bpf_and_executor not_implemented r s"

definition dispatch_packet :: "bytes \<Rightarrow> bool \<Rightarrow> 'w dispatch_state \<Rightarrow> 'w handler_result" where
  "dispatch_packet packet truncated s = do {
     req \<leftarrow> parse_packet packet truncated;
     (case req of Some r \<Rightarrow> dispatch r s | None \<Rightarrow> Some (EmptyPacket, s))
   }"

definition dispatch_packet_with_bpf :: "bytes \<Rightarrow> bool \<Rightarrow> 'w dispatch_state \<Rightarrow> 'w handler_result" where
  "dispatch_packet_with_bpf packet truncated s = do {
     req \<leftarrow> parse_packet packet truncated;
     (case req of Some r \<Rightarrow> dispatch_with_bpf r s | None \<Rightarrow> Some (EmptyPacket, s))
   }"

section \<open>Well-formed states and replies\<close>

definition dispatch_wf :: "'w dispatch_state \<Rightarrow> bool" where
  "dispatch_wf s \<longleftrightarrow> status_queue_wf (ds_queue s) \<and> loader_inv (ds_loader s)
     \<and> length (ds_backing s) = BPF_MAX_MAP_BYTES \<and> length (ds_output s) = MAX_FRAME"

definition replies :: "'w dispatch_state \<Rightarrow> packet_outcome \<Rightarrow> u8 \<Rightarrow> u8 \<Rightarrow> bytes \<Rightarrow> bool" where
  "replies s outcome status sq payload \<longleftrightarrow> length payload \<le> MAX_PAYLOAD
     \<and> outcome = Response (HEADER_LEN + length payload)
     \<and> take (HEADER_LEN + length payload) (ds_output s) = reply_frame status sq payload"

lemma respond_replies:
  assumes "length (ds_output s) = MAX_FRAME" and "length payload \<le> MAX_PAYLOAD"
  shows "\<exists>outcome out. respond r s status payload = Some (outcome, s\<lparr>ds_output := out\<rparr>)
    \<and> length out = MAX_FRAME \<and> replies (s\<lparr>ds_output := out\<rparr>) outcome status (req_sequence r) payload"
proof -
  let ?out = "[MAGIC, status, of_nat (length payload), req_sequence r, 0] @ payload
    @ drop (5 + length payload) (ds_output s)"
  have e: "encode_response status (req_sequence r) 0 payload (ds_output s)
      = Some (Inr (5 + length payload), ?out)"
    using encode_response_ok [OF assms] .
  have "take (5 + length payload) ?out = reply_frame status (req_sequence r) payload"
    by (simp add: take_five reply_frame_def)
  then show ?thesis
    using e assms
    by (intro exI [of _ "Response (5 + length payload)"] exI [of _ ?out])
       (simp add: respond_def response_def replies_def)
qed

text \<open>A handler that answers: the reply carries the request's sequence number, the state stays
  well-formed, and a status other than OK means that nothing but the output buffer changed.\<close>

definition answers :: "request \<Rightarrow> 'w dispatch_state \<Rightarrow> 'w handler_result \<Rightarrow> bool" where
  "answers r s res \<longleftrightarrow> (\<exists>outcome s' status payload. res = Some (outcome, s') \<and> dispatch_wf s'
     \<and> ds_world s' = ds_world s \<and> replies s' outcome status (req_sequence r) payload
     \<and> (status = STATUS_OK \<or> s' = s\<lparr>ds_output := ds_output s'\<rparr>))"

lemma respond_answers:
  assumes "dispatch_wf s'" and "length payload \<le> MAX_PAYLOAD"
    and "status = STATUS_OK \<or> s' = s" and "ds_world s' = ds_world s"
  shows "answers r s (respond r s' status payload)"
proof -
  obtain outcome out where "respond r s' status payload = Some (outcome, s'\<lparr>ds_output := out\<rparr>)"
    "length out = MAX_FRAME" "replies (s'\<lparr>ds_output := out\<rparr>) outcome status (req_sequence r) payload"
    using respond_replies [of s' payload r status] assms(1,2) by (auto simp: dispatch_wf_def)
  then show ?thesis using assms unfolding answers_def
    by (intro exI [of _ outcome] exI [of _ "s'\<lparr>ds_output := out\<rparr>"] exI [of _ status] exI [of _ payload])
       (auto simp: dispatch_wf_def)
qed

lemma respond_error: "dispatch_wf s \<Longrightarrow> answers r s (respond r s status [])"
  by (rule respond_answers) auto

lemma handle_load_answers:
  assumes "dispatch_wf s" and "wf_request r"
  shows "answers r s (handle_load r s)"
proof -
  obtain res ld where acc: "accepts_load (ds_loader s) r = Some (res, ld)" and inv: "loader_inv ld"
    and same: "case res of Inl _ \<Rightarrow> ld = ds_loader s | Inr _ \<Rightarrow> True"
    using accepts_load_spec [of "ds_loader s" r] assms by (fastforce simp: dispatch_wf_def split: sum.splits)
  have "answers r s (respond r (s\<lparr>ds_loader := ld\<rparr>) (case res of Inr _ \<Rightarrow> STATUS_OK | Inl st \<Rightarrow> st) [])"
    using assms inv same by (intro respond_answers) (auto simp: dispatch_wf_def split: sum.splits)
  then show ?thesis using acc by (simp add: handle_load_def)
qed

lemma read_map_length: "read_map ld map_id off n backing = Inr bs \<Longrightarrow> length bs \<le> 16"
  by (auto simp: read_map_def Let_def dest!: slice_length split: if_splits option.splits)

lemma handle_read_map_answers:
  assumes "dispatch_wf s"
  shows "answers r s (handle_read_map r s)"
  using assms read_map_length [of "ds_loader s"]
  by (auto simp: handle_read_map_def Let_def intro: respond_error intro!: respond_answers split: sum.split)

lemma handle_write_map_answers:
  assumes "dispatch_wf s" and "wf_request r"
  shows "answers r s (handle_write_map r s)"
proof (cases "req_payload_len r < MAP_WRITE_LOCATION_SIZE + 1
    \<or> (from_le_bytes [req_payload r ! 0, req_payload r ! 1] :: u16) AND 0xe000 \<noteq> 0")
  case True
  then show ?thesis using respond_error [OF assms(1)] by (auto simp: handle_write_map_def Let_def)
next
  case False
  let ?loc = "from_le_bytes [req_payload r ! 0, req_payload r ! 1] :: u16"
  let ?id = "ucast (drop_bit 10 ?loc AND 0x07) :: u8" let ?off = "?loc AND 0x03ff"
  have "2 \<le> unat (req_payload_len r)" "unat (req_payload_len r) \<le> length (req_payload r)"
    using False assms(2) by (simp_all add: wf_request_def MAP_WRITE_LOCATION_SIZE_def word_less_nat_alt)
  then obtain rep where sl: "slice (req_payload r) 2 (unat (req_payload_len r)) = Some rep"
    by (simp add: slice_def)
  obtain res backing where w: "write_map (ds_loader s) ?id ?off rep (ds_backing s) = (res, backing)"
    "length backing = 1024" "res = Inr () \<or> backing = ds_backing s"
    using write_map_spec [of "ds_loader s" "ds_backing s" ?id ?off rep] assms(1)
    unfolding dispatch_wf_def BPF_MAX_MAP_BYTES_def by metis
  have "answers r s (respond r (s\<lparr>ds_backing := backing\<rparr>) (case res of Inr _ \<Rightarrow> STATUS_OK | Inl st \<Rightarrow> st) [])"
    using assms(1) w(2,3) by (intro respond_answers) (auto simp: dispatch_wf_def split: sum.splits)
  then show ?thesis
    using False sl w(1) by (cases res) (simp_all add: handle_write_map_def MAP_WRITE_LOCATION_SIZE_def)
qed

lemma handle_query_answers:
  assumes "dispatch_wf s"
  shows "answers r s (handle_query r s)"
  using assms by (auto simp: handle_query_def intro: respond_error intro!: respond_answers split: sum.split)

lemma dispatch_answers:
  assumes "dispatch_wf s"
  shows "answers r s (dispatch r s) \<or> dispatch r s = Some (ResetRequested, s)
    \<and> req_command r = CMD_RESET \<and> req_payload_len r = 0 \<and> req_flags r = 0"
proof -
  let ?q = "ds_queue s"
  have q: "status_queue_wf ?q" using assms by (simp add: dispatch_wf_def)
  let ?bs = "take (unat (sq_newest_len ?q)) (sq_newest ?q)" let ?q' = "?q\<lparr>sq_newest_len := 0\<rparr>"
  have pop: "status_queue_pop ?q = Some (?bs, ?q')"
    using q by (simp add: status_queue_pop_def status_queue_wf_def slice_def)
  have "answers r s (respond r (s\<lparr>ds_queue := ?q'\<rparr>) STATUS_OK ?bs)"
    using assms q by (intro respond_answers) (auto simp: dispatch_wf_def status_queue_wf_def)
  then show ?thesis
    using pop respond_error [OF assms] by (auto simp: dispatch_def)
qed

text \<open>What the code relies on of the closure that runs a program: when it returns, the backing store
  still has its 1,024 bytes.\<close>

definition executor_ok :: "'w executor \<Rightarrow> bool" where
  "executor_ok execute \<longleftrightarrow> (\<forall>md backing w res backing' w'. length backing = BPF_MAX_MAP_BYTES
     \<longrightarrow> execute md backing w = Some (res, backing', w') \<longrightarrow> length backing' = BPF_MAX_MAP_BYTES)"

text \<open>The metadata handed to the program: the committed layouts, padded with zeros.\<close>

definition program_metadata :: "bpf_loader \<Rightarrow> bpf_program_metadata" where
  "program_metadata ld = \<lparr>pm_bytecode_len = ld_bytecode_len ld, pm_map_count = ld_committed_map_count ld,
     pm_maps = map layout_metadata (take (unat (ld_committed_map_count ld)) (ld_map_layouts ld))
       @ replicate (BPF_MAX_MAPS - unat (ld_committed_map_count ld)) map_metadata_zero\<rparr>"

lemma metadata_loop_value:
  assumes "i + n \<le> length maps" and "length maps \<le> length (ld_map_layouts ld)"
  shows "metadata_loop ld n i maps
    = Some (take i maps @ map layout_metadata (take n (drop i (ld_map_layouts ld))) @ drop (i + n) maps)"
  using assms
proof (induction n arbitrary: i maps)
  case 0
  then show ?case by simp
next
  case (Suc n)
  let ?x = "layout_metadata (ld_map_layouts ld ! i)"
  have "metadata_loop ld (Suc n) i maps = metadata_loop ld n (i + 1) (maps[i := ?x])"
    using Suc.prems by (simp add: get_at_def set_at_def)
  also have "\<dots> = Some (take (i + 1) (maps[i := ?x])
      @ map layout_metadata (take n (drop (i + 1) (ld_map_layouts ld))) @ drop (i + 1 + n) (maps[i := ?x]))"
    using Suc.prems by (intro Suc.IH) simp_all
  also have "take (i + 1) (maps[i := ?x]) = take i maps @ [?x]"
    using Suc.prems by (simp add: take_Suc_conv_app_nth)
  also have "take (Suc n) (drop i (ld_map_layouts ld))
      = ld_map_layouts ld ! i # take n (drop (i + 1) (ld_map_layouts ld))"
    using Suc.prems by (simp flip: Cons_nth_drop_Suc)
  ultimately show ?case using Suc.prems
    by (simp add: drop_update_cancel flip: Cons_nth_drop_Suc)
qed

lemma committed_metadata_value:
  assumes "loader_inv ld"
  shows "committed_metadata ld = Some (program_metadata ld)"
  using assms metadata_loop_value [of 0 "unat (ld_committed_map_count ld)" "replicate 8 map_metadata_zero" ld]
  by (simp add: committed_metadata_def program_metadata_def loader_inv_def)

lemma execution_metadata_value:
  assumes "loader_inv ld"
  shows "execution_metadata ld = Some
    (if ld_pending ld \<noteq> None then Inl STATUS_BUSY
     else case ld_state ld of Committed _ \<Rightarrow> Inr (program_metadata ld) | Running _ \<Rightarrow> Inl STATUS_BAD_STATE
       | Failed status \<Rightarrow> Inl status | Empty \<Rightarrow> Inl STATUS_NO_PROGRAM | Receiving \<Rightarrow> Inl STATUS_NO_PROGRAM)"
  using committed_metadata_value [OF assms] by (simp add: execution_metadata_def split: loader_state.split)

lemma event_execution_metadata_value:
  assumes "loader_inv ld"
  shows "event_execution_metadata ld = Some
    (if ld_pending ld \<noteq> None then Inl STATUS_BUSY
     else case ld_state ld of Committed _ \<Rightarrow> Inr (program_metadata ld) | Running _ \<Rightarrow> Inr (program_metadata ld)
       | Failed status \<Rightarrow> Inl status | Empty \<Rightarrow> Inl STATUS_NO_PROGRAM | Receiving \<Rightarrow> Inl STATUS_NO_PROGRAM)"
  using committed_metadata_value [OF assms] by (simp add: event_execution_metadata_def split: loader_state.split)

lemma mark_running_committed:
  assumes "ld_state ld = Committed c" and "ld_pending ld = None" and "loader_inv ld"
  shows "mark_running ld = (Inr (), ld\<lparr>ld_state := Running c\<rparr>)" and "loader_inv (ld\<lparr>ld_state := Running c\<rparr>)"
  using assms by (auto simp: mark_running_def loader_inv_def program_ok_def)

text \<open>A Start request that may run a program.\<close>

definition starts :: "request \<Rightarrow> bool" where
  "starts r \<longleftrightarrow> req_command r = CMD_START_BPF \<and> req_payload_len r = 0 \<and> req_flags r = 0"

definition resets :: "request \<Rightarrow> bool" where
  "resets r \<longleftrightarrow> req_command r = CMD_RESET \<and> req_payload_len r = 0 \<and> req_flags r = 0"

lemma dispatch_with_answers:
  assumes "dispatch_wf s" and "wf_request r" and "\<not> starts r"
  shows "if resets r then dispatch_with_bpf_and_executor execute r s = Some (ResetRequested, s)
    else answers r s (dispatch_with_bpf_and_executor execute r s)"
proof (cases "resets r")
  case True
  then show ?thesis
    by (simp add: resets_def dispatch_with_bpf_and_executor_def dispatch_def command_codes)
next
  case False
  then have "answers r s (dispatch r s)"
    using dispatch_answers [OF assms(1), of r] by (auto simp: resets_def)
  moreover have "answers r s (handle_start execute r s)" if "req_payload_len r \<noteq> 0"
    using that respond_error [OF assms(1)] by (simp add: handle_start_def)
  ultimately show ?thesis
    using False assms(3) respond_error [OF assms(1)] handle_load_answers [OF assms(1,2)]
      handle_read_map_answers [OF assms(1)] handle_write_map_answers [OF assms(1,2)]
      handle_query_answers [OF assms(1)]
    by (auto simp: dispatch_with_bpf_and_executor_def starts_def)
qed

section \<open>The location word of a map write\<close>

text \<open>Three bits of map id over ten bits of byte offset; the top three bits must be clear.\<close>

definition map_location :: "nat \<Rightarrow> nat \<Rightarrow> u16" where
  "map_location i off = of_nat (1024 * i + off)"

lemma map_location_decode:
  assumes "i < 8" and "off < 1024"
  shows "map_location i off AND 0xe000 = 0"
    and "unat (ucast (drop_bit 10 (map_location i off) AND 0x07) :: u8) = i"
    and "unat (map_location i off AND 0x03ff) = off"
proof -
  let ?w = "map_location i off"
  have u: "unat ?w = 1024 * i + off"
    unfolding map_location_def using assms by (intro unat_of_nat_id) simp
  have "take_bit 13 ?w = ?w"
    using u assms by (intro word_unat_eq_iff [THEN iffD2]) (simp add: unsigned_take_bit_eq take_bit_nat_eq_self)
  then have low: "bit ?w n \<Longrightarrow> n < 13" for n by (metis bit_take_bit_iff)
  have "(0xe000 :: u16) = push_bit 13 7" by simp
  then have high: "bit (0xe000 :: u16) n \<Longrightarrow> 13 \<le> n" for n by (metis bit_push_bit_iff)
  show "?w AND 0xe000 = 0"
    by (rule bit_word_eqI) (metis bit_and_iff low high not_less bit_0_eq bot_apply bot_bool_def)
  have m10: "(0x03ff :: u16) = mask 10" and m3: "(0x07 :: u16) = mask 3" by (simp_all add: mask_eq_exp_minus_1)
  have t10: "?w AND 0x03ff = take_bit 10 ?w" unfolding m10 by (simp add: take_bit_eq_mask)
  have "unat (take_bit 10 ?w) = take_bit 10 (unat ?w)" by (rule unsigned_take_bit_eq)
  also have "\<dots> = off" using u assms by (simp add: take_bit_eq_mod)
  finally show "unat (?w AND 0x03ff) = off" unfolding t10 .
  have t3: "drop_bit 10 ?w AND 0x07 = take_bit 3 (drop_bit 10 ?w)" unfolding m3 by (simp add: take_bit_eq_mask)
  have "unat (drop_bit 10 ?w) = drop_bit 10 (take_bit LENGTH(16) (unat ?w))"
    by (rule unsigned_drop_bit_eq)
  also have "\<dots> = i" using u assms by (simp add: drop_bit_eq_div take_bit_nat_eq_self)
  finally have i: "unat (drop_bit 10 ?w) = i" .
  have "unat (take_bit 3 (drop_bit 10 ?w)) = take_bit 3 (unat (drop_bit 10 ?w))"
    by (rule unsigned_take_bit_eq)
  also have "\<dots> = i" unfolding i using assms by (simp add: take_bit_nat_eq_self)
  finally have "unat (take_bit 3 (drop_bit 10 ?w)) = i" .
  then show "unat (ucast (drop_bit 10 ?w AND 0x07) :: u8) = i"
    unfolding t3 using assms by (simp add: unsigned_ucast_eq take_bit_nat_eq_self)
qed

section \<open>Properties of the dispatcher\<close>

text \<open>A state with the two maps of \<open>two_maps\<close>, for the witnesses.\<close>

definition sample_dispatch :: "unit dispatch_state" where
  "sample_dispatch = \<lparr>ds_queue = status_queue_ready, ds_loader = two_maps,
     ds_backing = replicate 1024 0, ds_output = replicate 21 0, ds_world = ()\<rparr>"

lemma sample_dispatch_wf: "dispatch_wf sample_dispatch"
  using two_maps_ok by (simp add: sample_dispatch_def dispatch_wf_def status_queue_wf_def status_queue_ready_def)

definition bare_request :: "u8 \<Rightarrow> u8 \<Rightarrow> request" where
  "bare_request command sq = request_empty\<lparr>req_command := command, req_sequence := sq\<rparr>"

lemma bare_request_wf:
  "wf_request (bare_request command sq)" "req_payload_len (bare_request command sq) = 0"
  "req_flags (bare_request command sq) = 0" "req_command (bare_request command sq) = command"
  "req_sequence (bare_request command sq) = sq"
  by (simp_all add: bare_request_def request_empty_def wf_request_def)

text \<open>C13: Every request but a Start is answered, whatever its content: the handler never panics and
  never runs a program. A Reset without payload and flags asks for the reset and changes nothing.
  Every other request gets one response of 5 to 21 bytes with zero flags and the request's sequence
  number; the invariants are kept, and if the status is not OK, nothing but the response buffer
  changed.\<close>

theorem requests_are_answered:
  assumes "dispatch_wf s" and "wf_request r" and "\<not> starts r"
  shows "\<exists>outcome s'. dispatch_with_bpf_and_executor execute r s = Some (outcome, s')
    \<and> dispatch_wf s' \<and> ds_world s' = ds_world s \<and>
    (if resets r then outcome = ResetRequested \<and> s' = s
     else \<exists>status payload. replies s' outcome status (req_sequence r) payload
       \<and> (status = STATUS_OK \<or> s' = s\<lparr>ds_output := ds_output s'\<rparr>))"
  using dispatch_with_answers [OF assms, of execute] assms(1)
  unfolding answers_def by (cases "resets r") auto

theorem requests_are_answered_witness:
  "\<exists>outcome s'. dispatch_with_bpf_and_executor not_implemented (bare_request CMD_QUERY_BPF_CRC 9)
      sample_dispatch = Some (outcome, s')
    \<and> (\<exists>status payload. replies s' outcome status 9 payload)"
proof -
  let ?r = "bare_request CMD_QUERY_BPF_CRC 9"
  have pre: "\<not> starts ?r" "\<not> resets ?r"
    by (simp_all add: starts_def resets_def bare_request_wf command_codes)
  with requests_are_answered [OF sample_dispatch_wf bare_request_wf(1) pre(1), of not_implemented]
  show ?thesis by (auto simp: bare_request_wf)
qed

text \<open>C14: Start BPF runs the committed program exactly when nothing is pending and the image is
  committed and not already running. A run that returns 0 is answered OK and leaves the loader
  Running; one that returns another value is answered BAD_COMMAND and one that fails its own status,
  both leaving the image Committed. Start does not return only when the program does not. Otherwise
  nothing runs and nothing but the output buffer changes, and the answer is BUSY while a load operation
  is pending, BAD_STATE when a program has been started, NO_PROGRAM when there is no image or a transfer
  is in progress, and after a failed load the status of the failure. The last, and BUSY without a
  committed image, is not what REQ-OPT-ACT-005 asks for: it has NO_PROGRAM whenever no validated image
  is committed.\<close>

theorem start_runs_committed_program:
  assumes "dispatch_wf s" and "starts r" and "executor_ok execute"
  shows "if ld_pending (ds_loader s) = None \<and> (\<exists>c. ld_state (ds_loader s) = Committed c)
    then (case execute (program_metadata (ds_loader s)) (ds_backing s) (ds_world s) of
        None \<Rightarrow> dispatch_with_bpf_and_executor execute r s = None
      | Some (res, backing, w) \<Rightarrow>
          \<exists>outcome s'. dispatch_with_bpf_and_executor execute r s = Some (outcome, s') \<and> dispatch_wf s'
          \<and> ds_backing s' = backing \<and> ds_world s' = w
          \<and> (is_running (ld_state (ds_loader s')) \<longleftrightarrow> res = Inr 0)
          \<and> query (ds_loader s') = query (ds_loader s)
          \<and> replies s' outcome (case res of Inl status \<Rightarrow> status
               | Inr v \<Rightarrow> if v = 0 then STATUS_OK else STATUS_BAD_COMMAND) (req_sequence r) [])
    else \<exists>outcome s' status. dispatch_with_bpf_and_executor execute r s = Some (outcome, s')
      \<and> s' = s\<lparr>ds_output := ds_output s'\<rparr> \<and> replies s' outcome status (req_sequence r) []
      \<and> status = (if ld_pending (ds_loader s) \<noteq> None then STATUS_BUSY
           else case ld_state (ds_loader s) of Running _ \<Rightarrow> STATUS_BAD_STATE | Failed failure \<Rightarrow> failure
             | _ \<Rightarrow> STATUS_NO_PROGRAM)"
proof -
  let ?ld = "ds_loader s"
  have wf: "loader_inv ?ld" "length (ds_backing s) = BPF_MAX_MAP_BYTES" "status_queue_wf (ds_queue s)"
    "length (ds_output s) = MAX_FRAME" using assms(1) by (simp_all add: dispatch_wf_def)
  have d: "dispatch_with_bpf_and_executor execute r s = handle_start execute r s"
    and l: "req_payload_len r = 0"
    using assms(2) by (simp_all add: starts_def dispatch_with_bpf_and_executor_def command_codes)
  note em = execution_metadata_value [OF wf(1)]
  show ?thesis
  proof (cases "ld_pending ?ld = None \<and> (\<exists>c. ld_state ?ld = Committed c)")
    case False
    let ?st = "if ld_pending ?ld \<noteq> None then STATUS_BUSY
           else case ld_state ?ld of Running _ \<Rightarrow> STATUS_BAD_STATE | Failed failure \<Rightarrow> failure
             | _ \<Rightarrow> STATUS_NO_PROGRAM"
    have "execution_metadata ?ld = Some (Inl ?st)"
      using False by (auto simp: em split: loader_state.split)
    then have h: "handle_start execute r s = respond r s ?st []" using l by (simp add: handle_start_def)
    obtain outcome out where "respond r s ?st [] = Some (outcome, s\<lparr>ds_output := out\<rparr>)"
      "replies (s\<lparr>ds_output := out\<rparr>) outcome ?st (req_sequence r) []"
      using respond_replies [OF wf(4), of "[]" r ?st] by auto
    then show ?thesis unfolding d h if_not_P [OF False]
      by (intro exI [of _ outcome] exI [of _ "s\<lparr>ds_output := out\<rparr>"] exI [of _ ?st]) simp
  next
    case True
    then obtain c where c: "ld_pending ?ld = None" "ld_state ?ld = Committed c" by blast
    then have em': "execution_metadata ?ld = Some (Inr (program_metadata ?ld))" by (simp add: em)
    note mr = mark_running_committed [OF c(2,1) wf(1)]
    show ?thesis
    proof (cases "execute (program_metadata ?ld) (ds_backing s) (ds_world s)")
      case None
      then show ?thesis unfolding d if_P [OF True] using l em' by (simp add: handle_start_def)
    next
      case (Some x)
      obtain res backing w where x: "x = (res, backing, w)" by (cases x)
      have lb: "length backing = BPF_MAX_MAP_BYTES"
        using assms(3) wf(2) Some unfolding executor_ok_def x by blast
      let ?st = "case res of Inl status \<Rightarrow> status | Inr v \<Rightarrow> if v = 0 then STATUS_OK else STATUS_BAD_COMMAND"
      let ?ld' = "if res = Inr 0 then ?ld\<lparr>ld_state := Running c\<rparr> else ?ld"
      let ?s = "s\<lparr>ds_loader := ?ld', ds_backing := backing, ds_world := w\<rparr>"
      have ss: "start_status res ?ld = (?st, ?ld')"
        using mr(1) by (auto simp: start_status_def split: sum.split)
      have h: "handle_start execute r s = respond r ?s ?st []"
        using l em' Some x ss by (simp add: handle_start_def)
      have "length (ds_output ?s) = MAX_FRAME" using wf(4) by simp
      then obtain outcome out where o: "respond r ?s ?st [] = Some (outcome, ?s\<lparr>ds_output := out\<rparr>)"
        "length out = MAX_FRAME" "replies (?s\<lparr>ds_output := out\<rparr>) outcome ?st (req_sequence r) []"
        using respond_replies [of ?s "[]" r ?st] by auto
      have "dispatch_wf (?s\<lparr>ds_output := out\<rparr>)"
        using wf mr(2) lb o(2) by (simp add: dispatch_wf_def)
      then show ?thesis unfolding d h if_P [OF True] Some x using o(1,3) c
        by (auto simp: query_def)
    qed
  qed
qed

theorem start_runs_committed_program_witness:
  "\<exists>outcome s'. dispatch_with_bpf_and_executor (\<lambda>md backing w. Some (Inr 0, backing, w))
      (bare_request CMD_START_BPF 3) sample_dispatch = Some (outcome, s')
    \<and> is_running (ld_state (ds_loader s')) \<and> replies s' outcome STATUS_OK 3 []"
proof -
  let ?ex = "\<lambda>md backing w. Some (Inr 0, backing, w) :: ((u8, u64) rust_result \<times> bytes \<times> unit) may_panic"
  have pre: "starts (bare_request CMD_START_BPF 3)" "executor_ok ?ex"
    by (simp_all add: starts_def bare_request_wf executor_ok_def)
  have "ld_pending (ds_loader sample_dispatch) = None"
    "ld_state (ds_loader sample_dispatch) = Committed 7"
    by (simp_all add: sample_dispatch_def two_maps_def loader_new_def)
  with start_runs_committed_program [OF sample_dispatch_wf pre] show ?thesis
    by (auto simp: bare_request_wf)
qed

text \<open>A Write BPF Map request over the wire: the location word with map id \<open>i\<close> and offset \<open>off\<close>
  followed by the replacement bytes patches that range of map \<open>i\<close> and answers OK when the program
  has such a map and the range is inside it; otherwise it answers BAD_COMMAND (no such map) or
  BAD_LENGTH and changes neither map nor loader.\<close>

lemma map_write_over_wire:
  assumes "dispatch_wf s" and "wf_request r" and "req_flags r = 0" and "req_command r = CMD_WRITE_BPF_MAP"
    and "request_body r = to_le_bytes 2 (map_location i off) @ data" and "data \<noteq> []"
    and "i < 8" and "off < 1024" and "has_program (ld_state (ds_loader s))"
  shows "\<exists>outcome s' status. dispatch_with_bpf_and_executor execute r s = Some (outcome, s')
    \<and> replies s' outcome status (req_sequence r) [] \<and> ds_loader s' = ds_loader s
    \<and> (let view = host_view (ds_loader s) (ds_backing s) in
       if i < length view \<and> off + length data \<le> length (view ! i)
       then status = STATUS_OK
         \<and> host_view (ds_loader s') (ds_backing s') = view[i := patch (view ! i) off data]
       else status = (if i < length view then STATUS_BAD_LENGTH else STATUS_BAD_COMMAND)
         \<and> ds_backing s' = ds_backing s)"
proof -
  let ?ld = "ds_loader s" let ?w = "map_location i off"
  have wf: "loader_inv ?ld" "length (ds_backing s) = 1024" "length (ds_output s) = MAX_FRAME"
    using assms(1) by (simp_all add: dispatch_wf_def)
  have pl: "length (req_payload r) = 16" "unat (req_payload_len r) \<le> 16"
    using assms(2) by (simp_all add: wf_request_def)
  obtain x y where xy: "to_le_bytes 2 ?w = [x, y]"
    using list_of_length(1) [OF length_to_le_bytes [of 2 ?w]] by blast
  have body: "take (unat (req_payload_len r)) (req_payload r) = x # y # data"
    using assms(5) xy by (simp add: request_body_def)
  then have len: "unat (req_payload_len r) = length data + 2"
    using pl by (metis length_Cons length_take min_absorb2 add_2_eq_Suc')
  have d14: "\<not> 14 < length data" using len pl by simp
  from body len obtain rest where pay: "req_payload r = x # y # data @ rest"
    by (metis append_Cons append_take_drop_id)
  have sl: "slice (req_payload r) 2 (unat (req_payload_len r)) = Some data"
    unfolding pay len by (simp add: slice_def)
  have w: "from_le_bytes [x, y] = ?w" using from_to_le_bytes [of 2 ?w] xy by simp
  note dec = map_location_decode [OF assms(7,8)]
  let ?id = "ucast (drop_bit 10 ?w AND 0x07) :: u8"
  have "\<not> req_payload_len r < MAP_WRITE_LOCATION_SIZE + 1"
    using len assms(6) by (cases data) (auto simp: MAP_WRITE_LOCATION_SIZE_def word_less_nat_alt)
  then have h: "dispatch_with_bpf_and_executor execute r s =
      (case write_map ?ld ?id (?w AND 0x03ff) data (ds_backing s) of
         (Inr _, backing) \<Rightarrow> respond r (s\<lparr>ds_backing := backing\<rparr>) STATUS_OK []
       | (Inl status, backing) \<Rightarrow> respond r (s\<lparr>ds_backing := backing\<rparr>) status [])"
    using assms(3,4) sl w dec(1)
    by (simp add: dispatch_with_bpf_and_executor_def handle_write_map_def command_codes
        MAP_WRITE_LOCATION_SIZE_def pay Let_def)
  obtain res backing' where wm: "write_map ?ld ?id (?w AND 0x03ff) data (ds_backing s) = (res, backing')"
    and res: "res = (if data = [] \<or> 14 < length data then Inl STATUS_BAD_LENGTH
       else if \<not> has_program (ld_state ?ld) then Inl STATUS_NO_PROGRAM
       else if ?id \<ge> ld_committed_map_count ?ld then Inl STATUS_BAD_COMMAND
       else if off + length data > length (host_view ?ld (ds_backing s) ! i)
       then Inl STATUS_BAD_LENGTH else Inr ())"
    and eff: "if res = Inr () then host_view ?ld backing' = (host_view ?ld (ds_backing s))
         [i := patch (host_view ?ld (ds_backing s) ! i) off data] else backing' = ds_backing s"
    using write_map_spec [OF wf(1,2), of ?id "?w AND 0x03ff" data] unfolding dec(2,3) by blast
  have le: "(?id \<ge> ld_committed_map_count ?ld) = (\<not> i < length (host_view ?ld (ds_backing s)))"
    using dec(2) by (simp add: word_le_nat_alt not_less)
  let ?st = "case res of Inr _ \<Rightarrow> STATUS_OK | Inl st \<Rightarrow> st"
  have "length (ds_output (s\<lparr>ds_backing := backing'\<rparr>)) = MAX_FRAME" using wf(3) by simp
  then obtain o1 out where "respond r (s\<lparr>ds_backing := backing'\<rparr>) ?st []
      = Some (o1, s\<lparr>ds_backing := backing', ds_output := out\<rparr>)"
    and rp: "replies (s\<lparr>ds_backing := backing', ds_output := out\<rparr>) o1 ?st (req_sequence r) []"
    using respond_replies [of "s\<lparr>ds_backing := backing'\<rparr>" "[]" r ?st] by auto
  then have "dispatch_with_bpf_and_executor execute r s
      = Some (o1, s\<lparr>ds_backing := backing', ds_output := out\<rparr>)"
    unfolding h wm by (cases res) simp_all
  then show ?thesis using rp res eff le assms(6,9) d14
    by (intro exI [of _ o1] exI [of _ "s\<lparr>ds_backing := backing', ds_output := out\<rparr>"] exI [of _ ?st])
       (auto simp: Let_def)
qed

end
