(* ===== verification/Loader_Session.thy ===== *)
theory Loader_Session
  imports Bpf_Loader
begin

text \<open>
  What the loader and the flash say together. \<open>committed_image\<close> is the on-flash format of a
  committed program; the boot check accepts exactly such devices. \<open>session\<close> is the abstract
  view of a load attempt, the image bytes received so far; the deferred operations of the code
  refine its steps, a whole load session commits the image the host sent, and the image survives a
  reset. Until the commit marker is programmed no reset finds a program, whatever the flash does.
\<close>

section \<open>The format of a committed image\<close>

definition committed_header :: "u16 \<Rightarrow> u8 \<Rightarrow> u32 \<Rightarrow> bytes" where
  "committed_header b m c =
     obpf @ [1, m] @ to_le_bytes 2 b @ to_le_bytes 4 c @ [0, 0, 0xff, 0xff]"

definition committed_image :: "bytes \<Rightarrow> u16 \<Rightarrow> u8 \<Rightarrow> u32 \<Rightarrow> bytes \<Rightarrow> bool" where
  "committed_image cs b m c img \<longleftrightarrow> image_bounds b m \<and> length img = unat b + 16 * unat m
     \<and> slice cs 0x6000 0x6010 = Some (committed_header b m c)
     \<and> slice cs 0x6010 (0x6010 + length img) = Some img
     \<and> crc32_iso_hdlc img = c \<and> placement cs b m \<noteq> None"

lemma length_begin_header: "length (begin_header b m c) = 16"
  by (simp add: begin_header_def obpf_def)

lemma length_committed_header: "length (committed_header b m c) = 16"
  by (simp add: committed_header_def obpf_def)

lemma list_of_length_16:
  assumes "length h = 16"
  shows "h = [h ! 0, h ! 1, h ! 2, h ! 3, h ! 4, h ! 5, h ! 6, h ! 7, h ! 8, h ! 9, h ! 10, h ! 11,
    h ! 12, h ! 13, h ! 14, h ! 15]"
proof -
  have "h = map ((!) h) [0..<16]" using map_nth [of h] assms by metis
  also have "[0..<16] = [0, 1, 2, 3, 4, 5, 6, 7, 8, 9, 10, 11, 12, 13, 14, 15 :: nat]" by (simp add: upt_rec)
  finally show ?thesis by simp
qed

text \<open>A header that passes the boot check is the committed header of its own fields.\<close>

lemma good_header:
  assumes "length h = 16" and "\<not> bad_header h"
  shows "h = committed_header (from_le_bytes [h ! 6, h ! 7]) (h ! 5)
    (from_le_bytes [h ! 8, h ! 9, h ! 10, h ! 11])"
proof -
  have "[h ! 12, h ! 13] = [0, 0]"
    using assms(2) le_bytes_2 [of "h ! 12" "h ! 13"] by (simp add: bad_header_def to_le_bytes_zero numeral_2_eq_2)
  moreover have "h ! 4 = 1" "take 4 h = obpf" "drop 14 h = [0xff, 0xff]"
    using assms(2) by (auto simp: bad_header_def)
  moreover have "take 4 h = [h ! 0, h ! 1, h ! 2, h ! 3]" "drop 14 h = [h ! 14, h ! 15]"
    by (subst list_of_length_16 [OF assms(1)], simp)+
  ultimately show ?thesis
    by (subst list_of_length_16 [OF assms(1)])
       (simp add: committed_header_def obpf_def le_bytes_2 le_bytes_4)
qed

lemma committed_header_fields:
  fixes b :: u16 and m :: u8 and c :: u32
  defines "h \<equiv> committed_header b m c"
  shows "\<not> bad_header h" and "from_le_bytes [h ! 6, h ! 7] = b" and "h ! 5 = m"
    and "from_le_bytes [h ! 8, h ! 9, h ! 10, h ! 11] = c"
proof -
  obtain b0 b1 where b: "to_le_bytes 2 b = [b0, b1]"
    using list_of_length(1) [OF length_to_le_bytes [of 2 b]] by blast
  obtain c0 c1 c2 c3 where c: "to_le_bytes 4 c = [c0, c1, c2, c3]"
    using list_of_length(2) [OF length_to_le_bytes [of 4 c]] by blast
  have h: "h = [0x4f, 0x42, 0x50, 0x46, 1, m, b0, b1, c0, c1, c2, c3, 0, 0, 0xff, 0xff]"
    by (simp add: h_def committed_header_def obpf_def b c)
  show "\<not> bad_header h"
    by (simp add: h bad_header_def obpf_def le_bytes_eval)
  show "from_le_bytes [h ! 6, h ! 7] = b"
    using from_to_le_bytes [of 2 b] by (simp add: h b)
  show "h ! 5 = m" by (simp add: h)
  show "from_le_bytes [h ! 8, h ! 9, h ! 10, h ! 11] = c"
    using from_to_le_bytes [of 4 c] by (simp add: h c)
qed

lemma begin_header_bad: "bad_header (begin_header b m c)"
proof -
  have "length (obpf @ [1, m] @ to_le_bytes 2 b @ to_le_bytes 4 c) = 12"
    by (simp add: obpf_def)
  then have "begin_header b m c ! 12 = 0xff" "begin_header b m c ! 13 = 0xff"
    by (simp_all add: begin_header_def nth_append obpf_def)
  then show ?thesis by (simp add: bad_header_def le_bytes_eval)
qed

section \<open>The boot check recognises exactly the committed devices\<close>

text \<open>What the boot check leaves in the loader: a committed program described by the device, or
  no program.\<close>

definition boots_to :: "bpf_loader \<Rightarrow> bytes \<Rightarrow> u16 \<Rightarrow> u8 \<Rightarrow> u32 \<Rightarrow> bpf_loader \<Rightarrow> bool" where
  "boots_to ld cs b m c ld' \<longleftrightarrow> (\<exists>layouts count. placement cs b m = Some (layouts, count)
     \<and> ld' = ld\<lparr>ld_state := Committed c, ld_bytecode_len := b, ld_map_count := m,
               ld_map_layouts := layouts, ld_committed_map_count := count\<rparr>)"

definition no_program :: "bpf_loader \<Rightarrow> loader_state \<Rightarrow> bpf_loader" where
  "no_program ld s = clear_map_layouts ld\<lparr>ld_state := s\<rparr>"

lemma committed_image_fields:
  assumes "committed_image cs b m c img" and "slice cs 0x6000 0x6010 = Some h"
  shows "\<not> bad_header h" "from_le_bytes [h ! 6, h ! 7] = b" "h ! 5 = m"
    "from_le_bytes [h ! 8, h ! 9, h ! 10, h ! 11] = c"
  using assms committed_header_fields [of b m c] by (simp_all add: committed_image_def)

text \<open>The device determines the program.\<close>

lemma committed_image_unique:
  assumes "committed_image cs b m c img" and "committed_image cs b' m' c' img'"
  shows "b' = b \<and> m' = m \<and> c' = c \<and> img' = img"
proof -
  obtain h where h: "slice cs 0x6000 0x6010 = Some h"
    using assms(1) by (simp add: committed_image_def)
  have "b' = b" "m' = m" "c' = c"
    using committed_image_fields [OF assms(1) h] committed_image_fields [OF assms(2) h] by metis+
  moreover from calculation assms have "length img' = length img"
    by (simp add: committed_image_def)
  then have "Some img' = Some img"
    using assms unfolding committed_image_def by metis
  ultimately show ?thesis by simp
qed

lemma unat_flash_offset [simp]: "unat BPF_FLASH_OFFSET = 0x6000"
  by (simp add: BPF_FLASH_OFFSET_def)

text \<open>The check, once the header is read.\<close>

definition validate_rest ::
    "'f bpf_flash \<Rightarrow> bpf_loader \<Rightarrow> u16 \<Rightarrow> u8 \<Rightarrow> u32 \<Rightarrow> 'f \<Rightarrow> (bpf_loader \<times> 'f) may_panic" where
  "validate_rest api ld b m c g =
     (case validate_crc_loop api (unat b + 16 * unat m) 0 0xffffffff g of
        (None, g) \<Rightarrow> Some (no_program ld (Failed STATUS_FLASH_ERROR), g)
      | (Some crc, g) \<Rightarrow>
        (case map_layouts api g b m of
           None \<Rightarrow> None
         | Some (None, g) \<Rightarrow> Some (no_program ld Empty, g)
         | Some (Some (layouts, count), g) \<Rightarrow>
             if crc32_finish crc \<noteq> c then Some (no_program ld Empty, g)
             else Some (ld\<lparr>ld_state := Committed c, ld_bytecode_len := b, ld_map_count := m,
                 ld_map_layouts := layouts, ld_committed_map_count := count\<rparr>, g)))"

lemma validate_committed_step:
  assumes "fl_read api f BPF_FLASH_OFFSET 16 = (Some h, g)"
  shows "validate_committed api ld f =
    (let b = from_le_bytes [h ! 6, h ! 7]; m = h ! 5; c = from_le_bytes [h ! 8, h ! 9, h ! 10, h ! 11] in
     if bad_header h \<or> \<not> image_bounds b m then Some (no_program ld Empty, g)
     else validate_rest api ld b m c g)"
proof -
  have "validate_rest api ld b m c g =
     (case validate_crc_loop api (unat b + 16 * unat m) 0 0xffffffff g of
        (None, g) \<Rightarrow> Some (no_program ld (Failed STATUS_FLASH_ERROR), g)
      | (Some crc, g) \<Rightarrow> do {
          (layouts, g) \<leftarrow> map_layouts api g b m;
          (case layouts of
             None \<Rightarrow> Some (no_program ld Empty, g)
           | Some (new_layouts, count) \<Rightarrow>
             if crc32_finish crc \<noteq> c then Some (no_program ld Empty, g)
             else Some (clear_map_layouts ld\<lparr>ld_state := Committed c, ld_bytecode_len := b,
                 ld_map_count := m, ld_map_layouts := new_layouts,
                 ld_committed_map_count := count\<rparr>, g))})" for b m c
    by (auto simp: validate_rest_def clear_map_layouts_def split: option.splits prod.splits)
  then show ?thesis
    using assms unfolding validate_committed_def no_program_def
    by (simp add: image_len_eq bad_image_bounds_iff Let_def)
qed

context nor_flash
begin

lemma read_header:
  assumes "fl_read api f BPF_FLASH_OFFSET 16 = (Some h, f')"
  shows "slice (contents f) 0x6000 0x6010 = Some h \<and> length h = 16 \<and> contents f' = contents f"
  using read_ok [OF assms] read_keeps [OF assms] read_length [OF assms] by simp

lemma validate_committed_sound:
  "\<exists>ld' f'. validate_committed api ld f = Some (ld', f') \<and> contents f' = contents f
    \<and> (ld' = no_program ld Empty \<or> ld' = no_program ld (Failed STATUS_FLASH_ERROR)
       \<or> (\<exists>b m c img. committed_image (contents f) b m c img \<and> boots_to ld (contents f) b m c ld'))"
proof -
  obtain r g where rd: "fl_read api f BPF_FLASH_OFFSET 16 = (r, g)"
    by (cases "fl_read api f BPF_FLASH_OFFSET 16")
  have cg: "contents g = contents f" using read_keeps [OF rd] .
  show ?thesis
  proof (cases r)
    case None
    then show ?thesis using rd cg by (simp add: validate_committed_def no_program_def)
  next
    case (Some h)
    from read_header [OF rd [unfolded Some]]
    have h: "slice (contents f) 0x6000 0x6010 = Some h" "length h = 16" by simp_all
    define b m c where "b = (from_le_bytes [h ! 6, h ! 7] :: u16)" and "m = h ! 5"
      and "c = (from_le_bytes [h ! 8, h ! 9, h ! 10, h ! 11] :: u32)"
    note bmc = b_def [symmetric] m_def [symmetric] c_def [symmetric]
    show ?thesis
    proof (cases "bad_header h \<or> \<not> image_bounds b m")
      case True
      then show ?thesis
        using validate_committed_step [OF rd [unfolded Some]] cg by (simp add: b_def m_def Let_def)
    next
      case False
      then have good: "h = committed_header b m c" and ib: "image_bounds b m"
        and step: "validate_committed api ld f = validate_rest api ld b m c g"
        using good_header [OF h(2)] validate_committed_step [OF rd [unfolded Some]]
        by (simp_all add: b_def m_def c_def Let_def)
      then have m8: "unat m \<le> 8" by (simp add: image_bounds_def)
      let ?n = "unat b + 16 * unat m"
      have pre: "0 \<le> ?n" "?n \<le> 7808" "0x6010 + 0 \<le> length (contents g)"
        using image_bounds_len [OF ib] h(1) cg by (auto simp: slice_def split: if_splits)
      obtain r' g' where lp: "validate_crc_loop api ?n 0 0xffffffff g = (r', g')"
        and cg': "contents g' = contents f"
        and crc: "\<And>k. r' = Some k \<Longrightarrow> \<exists>img. slice (contents f) 0x6010 (0x6010 + ?n) = Some img
            \<and> k = crc32_update 0xffffffff img"
        using validate_crc_loop_sound [where crc = "0xffffffff" and f = g, OF pre] cg by auto
      obtain res g'' where ml: "map_layouts api g' b m = Some (res, g'')"
        "contents g'' = contents f"
        "\<And>x. res = Some x \<Longrightarrow> placement (contents f) b m = Some x"
        using map_layouts_sound [OF m8, of g' b] cg' by auto
      note unf = step validate_rest_def lp ml(1)
      show ?thesis
      proof (cases "\<exists>k ls cnt. r' = Some k \<and> res = Some (ls, cnt) \<and> crc32_finish k = c")
        case False
        then show ?thesis using cg' ml(2) by (auto simp: unf split: option.split)
      next
        case True
        then obtain k ls cnt where r': "r' = Some k" "res = Some (ls, cnt)" "crc32_finish k = c"
          by blast
        obtain img where img: "slice (contents f) 0x6010 (0x6010 + ?n) = Some img"
          "k = crc32_update 0xffffffff img" using crc [OF r'(1)] by blast
        from slice_length [OF img(1)] have "length img = ?n" by simp
        then have "committed_image (contents f) b m c img"
          using ib h(1) good img r' ml(3) [OF r'(2)]
          by (simp add: committed_image_def crc32_iso_hdlc_def)
        moreover define ld' where "ld' = ld\<lparr>ld_state := Committed c, ld_bytecode_len := b,
            ld_map_count := m, ld_map_layouts := ls, ld_committed_map_count := cnt\<rparr>"
        moreover have "validate_committed api ld f = Some (ld', g'')"
          using r' by (simp add: unf ld'_def)
        moreover have "boots_to ld (contents f) b m c ld'"
          using ml(3) [OF r'(2)] by (simp add: boots_to_def ld'_def)
        ultimately show ?thesis using ml(2) by blast
      qed
    qed
  qed
qed

end

context reliable_flash
begin

lemma validate_crc_loop_total:
  assumes "offset \<le> n" and "n \<le> 7808" and "0x6010 + n \<le> length (contents f)" and "healthy f"
  shows "\<exists>c f'. validate_crc_loop api n offset crc f = (Some c, f') \<and> healthy f'"
  using assms
proof (induction "n - offset" arbitrary: offset crc f rule: less_induct)
  case less
  show ?case
  proof (cases "offset < n")
    case False
    then show ?thesis using less.prems(4) by (subst validate_crc_loop.simps) simp
  next
    case True
    let ?len = "min 16 (n - offset)"
    have "unat (image_address offset) + ?len \<le> length (contents f)"
      using True less.prems by (subst unat_image_address) auto
    then obtain chunk g where rd: "fl_read api f (image_address offset) ?len = (Some chunk, g)"
      and hg: "healthy g" using read_total [OF less.prems(4)] by blast
    have cg: "contents g = contents f" using read_keeps [OF rd] .
    have "\<exists>c f'. validate_crc_loop api n (offset + ?len) (crc32_update crc chunk) g = (Some c, f')
        \<and> healthy f'"
      using True less.prems hg cg by (intro less.hyps) auto
    then show ?thesis using True rd by (subst validate_crc_loop.simps) (simp add: Let_def)
  qed
qed

lemma validate_committed_total:
  assumes "healthy f" and "0x8000 \<le> length (contents f)"
  shows "\<exists>ld' f'. validate_committed api ld f = Some (ld', f') \<and> contents f' = contents f \<and> healthy f'
    \<and> (ld' = no_program ld Empty \<and> (\<nexists>b m c img. committed_image (contents f) b m c img)
       \<or> (\<exists>b m c img. committed_image (contents f) b m c img \<and> boots_to ld (contents f) b m c ld'))"
proof -
  have "unat BPF_FLASH_OFFSET + 16 \<le> length (contents f)" using assms(2) by simp
  then obtain h g where rd: "fl_read api f BPF_FLASH_OFFSET 16 = (Some h, g)" and hg: "healthy g"
    using read_total [OF assms(1)] by blast
  from read_header [OF rd] have h: "slice (contents f) 0x6000 0x6010 = Some h" "length h = 16"
    and cg: "contents g = contents f" by simp_all
  define b m c where "b = (from_le_bytes [h ! 6, h ! 7] :: u16)" and "m = h ! 5"
    and "c = (from_le_bytes [h ! 8, h ! 9, h ! 10, h ! 11] :: u32)"
  have only: "\<not> bad_header h \<and> b' = b \<and> m' = m \<and> c' = c \<and> image_bounds b m"
    if "committed_image (contents f) b' m' c' img" for b' m' c' img
    using committed_image_fields [OF that h(1)] that
    by (simp add: b_def m_def c_def committed_image_def)
  show ?thesis
  proof (cases "bad_header h \<or> \<not> image_bounds b m")
    case True
    then show ?thesis
      using validate_committed_step [OF rd] cg hg only
      by (auto simp: b_def m_def Let_def)
  next
    case False
    then have ib: "image_bounds b m"
      and step: "validate_committed api ld f = validate_rest api ld b m c g"
      using validate_committed_step [OF rd] by (simp_all add: b_def m_def c_def Let_def)
    then have m8: "unat m \<le> 8" by (simp add: image_bounds_def)
    let ?n = "unat b + 16 * unat m"
    have n: "?n \<le> 7808" using image_bounds_len [OF ib] by simp
    obtain k g' where lp: "validate_crc_loop api ?n 0 0xffffffff g = (Some k, g')" and hg': "healthy g'"
      using validate_crc_loop_total [where offset = 0 and n = ?n and f = g and crc = "0xffffffff"] n hg cg assms(2) by auto
    have cg': "contents g' = contents f"
      and crc: "\<exists>img. slice (contents f) 0x6010 (0x6010 + ?n) = Some img
            \<and> k = crc32_update 0xffffffff img"
      using validate_crc_loop_sound [where offset = 0 and n = ?n and f = g and crc = "0xffffffff"]
        n cg lp assms(2) by auto
    obtain img where img: "slice (contents f) 0x6010 (0x6010 + ?n) = Some img"
      "k = crc32_update 0xffffffff img" using crc by blast
    have len: "length img = ?n" using slice_length [OF img(1)] by simp
    obtain g'' where ml: "map_layouts api g' b m = Some (placement (contents f) b m, g'')"
      and cg'': "contents g'' = contents f" and hg'': "healthy g''"
      using map_layouts_total [OF m8 hg', of b] cg' n assms(2) by auto
    have res: "validate_committed api ld f = (case placement (contents f) b m of
         None \<Rightarrow> Some (no_program ld Empty, g'')
       | Some (ls, cnt) \<Rightarrow> if crc32_iso_hdlc img \<noteq> c then Some (no_program ld Empty, g'')
           else Some (ld\<lparr>ld_state := Committed c, ld_bytecode_len := b, ld_map_count := m,
                 ld_map_layouts := ls, ld_committed_map_count := cnt\<rparr>, g''))"
      by (simp add: step validate_rest_def lp ml img(2) crc32_iso_hdlc_def split: option.split)
    show ?thesis
    proof (cases "committed_image (contents f) b m c img")
      case True
      then obtain ls cnt where pl: "placement (contents f) b m = Some (ls, cnt)"
        and crc_ok: "crc32_iso_hdlc img = c" by (auto simp: committed_image_def)
      define ld' where "ld' = ld\<lparr>ld_state := Committed c, ld_bytecode_len := b,
          ld_map_count := m, ld_map_layouts := ls, ld_committed_map_count := cnt\<rparr>"
      have "validate_committed api ld f = Some (ld', g'')"
        by (simp add: res pl crc_ok ld'_def)
      moreover have "boots_to ld (contents f) b m c ld'"
        by (simp add: boots_to_def ld'_def pl)
      ultimately show ?thesis using True cg'' hg'' by blast
    next
      case no: False
      have hdr: "h = committed_header b m c" using good_header [OF h(2)] False
        by (simp add: b_def m_def c_def)
      then have "placement (contents f) b m = None \<or> crc32_iso_hdlc img \<noteq> c"
        using no ib h(1) img(1) len by (auto simp: committed_image_def)
      then have "validate_committed api ld f = Some (no_program ld Empty, g'')"
        by (auto simp: res split: option.split)
      moreover have "\<nexists>b' m' c' img'. committed_image (contents f) b' m' c' img'"
      proof (intro notI, elim exE)
        fix b' m' c' img'
        assume ci: "committed_image (contents f) b' m' c' img'"
        with only have "committed_image (contents f) b m c img'" by blast
        moreover from this have "img' = img" using img(1) unfolding committed_image_def by auto
        ultimately show False using no by simp
      qed
      ultimately show ?thesis using cg'' hg'' by blast
    qed
  qed
qed

end

section \<open>The loader and its device\<close>

text \<open>The placement depends on the image alone.\<close>

definition image_maps :: "bytes \<Rightarrow> u16 \<Rightarrow> u8 \<Rightarrow> map_layout list option" where
  "image_maps img b m =
     layouts_spec 0 (map (\<lambda>i. parse_descriptor (take 16 (drop (unat b + 16 * i) img))) [0..<unat m])"

definition stored_layouts :: "u8 \<Rightarrow> map_layout list \<Rightarrow> map_layout list" where
  "stored_layouts m ls = ls @ replicate (BPF_MAX_MAPS - unat m) map_layout_empty"

lemma placement_image:
  assumes "slice cs 0x6010 (0x6010 + n) = Some img" and "n = unat b + 16 * unat m"
  shows "placement cs b m = map_option (\<lambda>ls. (stored_layouts m ls, m)) (image_maps img b m)"
proof -
  have "descriptor_at cs b i = parse_descriptor (take 16 (drop (unat b + 16 * i) img))"
    if "i < unat m" for i
  proof -
    have "img = take n (drop 0x6010 cs)" using assms(1) by (auto simp: slice_def split: if_splits)
    then have "take 16 (drop (unat b + 16 * i) img) = take 16 (drop (0x6010 + unat b + 16 * i) cs)"
      using that assms(2) by (simp add: take_take_drop_sub ac_simps)
    then show ?thesis by (simp add: descriptor_at_def)
  qed
  then have "descriptors_at cs b (unat m)
      = map (\<lambda>i. parse_descriptor (take 16 (drop (unat b + 16 * i) img))) [0..<unat m]"
    by (simp add: descriptors_at_def)
  then show ?thesis by (simp add: placement_def image_maps_def stored_layouts_def)
qed

text \<open>A transfer in progress: the marker still erased, \<open>received\<close> stored and summed up in
  the running CRC, the rest of the image's range erased.\<close>

definition receiving :: "bpf_loader \<Rightarrow> bytes \<Rightarrow> bytes \<Rightarrow> bool" where
  "receiving ld cs received \<longleftrightarrow>
     slice cs 0x6000 0x6010
       = Some (begin_header (ld_bytecode_len ld) (ld_map_count ld) (ld_expected_crc ld))
     \<and> length received = unat (ld_next_offset ld)
     \<and> slice cs 0x6010 (0x6010 + unat (ld_image_len ld))
         = Some (received @ replicate (unat (ld_image_len ld) - length received) 0xff)
     \<and> ld_crc ld = crc32_update 0xffffffff received"

definition on_device :: "bpf_loader \<Rightarrow> bytes \<Rightarrow> u32 \<Rightarrow> bytes \<Rightarrow> bool" where
  "on_device ld cs crc img \<longleftrightarrow>
     committed_image cs (ld_bytecode_len ld) (ld_map_count ld) crc img
     \<and> placement cs (ld_bytecode_len ld) (ld_map_count ld)
         = Some (ld_map_layouts ld, ld_committed_map_count ld)"

fun device_ok :: "bpf_loader \<Rightarrow> bytes \<Rightarrow> loader_state \<Rightarrow> bool" where
  "device_ok ld cs Receiving = (\<exists>received. receiving ld cs received)"
| "device_ok ld cs (Committed crc) = (\<exists>img. on_device ld cs crc img)"
| "device_ok ld cs (Running crc) = (\<exists>img. on_device ld cs crc img)"
| "device_ok ld cs _ = True"

definition device_inv :: "bpf_loader \<Rightarrow> bytes \<Rightarrow> bool" where
  "device_inv ld cs \<longleftrightarrow> device_ok ld cs (ld_state ld)"

text \<open>Nothing outside the flash's image slot is involved.\<close>

lemma slice_split:
  assumes "slice xs a c = Some ys" and "a \<le> b" and "b \<le> c"
  shows "slice xs a b = Some (take (b - a) ys)" and "slice xs b c = Some (drop (b - a) ys)"
  using assms by (auto simp: slice_def take_drop min_def split: if_splits)

lemma replicate_two: "replicate 2 x = [x, x]"
  by (simp add: numeral_2_eq_2)

lemma slice_two: "a + 2 \<le> length xs \<Longrightarrow> slice xs a (a + 2) = Some [xs ! a, xs ! (a + 1)]"
  by (auto simp: slice_def less_Suc_eq numeral_2_eq_2 intro!: nth_equalityI)

lemma receiving_not_committed:
  assumes "receiving ld cs received"
  shows "\<not> committed_image cs b m c img"
proof
  assume "committed_image cs b m c img"
  then show False
    using committed_image_fields(1) assms begin_header_bad by (metis receiving_def)
qed

lemma erase_pages_cover: "n \<le> erase_pages n * 4096"
  by (simp add: erase_pages_def)

lemma erase_pages_bound: "n \<le> 8192 \<Longrightarrow> erase_pages n * 4096 \<le> 8192"
  by (simp add: erase_pages_def)

lemma marker_programmed:
  assumes "slice cs 0x6000 0x6010 = Some (begin_header b m c)"
  shows "slice (program cs 0x600c [0, 0]) 0x6000 0x6010 = Some (committed_header b m c)"
proof -
  let ?pre = "obpf @ [1, m] @ to_le_bytes 2 b @ to_le_bytes 4 c"
  have len: "length ?pre = 12" by (simp add: obpf_def)
  have cs: "0x6010 \<le> length cs" using assms by (auto simp: slice_def split: if_splits)
  have lo: "slice (program cs 0x600c [0, 0]) 0x6000 0x600c = slice cs 0x6000 0x600c"
    using cs by (intro slice_cong_nth) (simp_all add: length_program program_nth)
  have hi: "slice (program cs 0x600c [0, 0]) 0x600e 0x6010 = slice cs 0x600e 0x6010"
    using cs by (intro slice_cong_nth) (simp_all add: length_program program_nth)
  have mid: "slice (program cs 0x600c [0, 0]) 0x600c 0x600e = Some [0, 0]"
    using slice_two [of "0x600c" "program cs 0x600c [0, 0]"] cs
    by (simp add: length_program program_nth)
  have "slice cs 0x6000 0x600c = Some ?pre"
    using slice_split(1) [OF assms, of "0x600c"] len by (simp add: begin_header_def)
  moreover have "slice cs 0x600e 0x6010 = Some [0xff, 0xff]"
    using slice_split(2) [OF assms, of "0x600e"] len by (simp add: begin_header_def replicate_two)
  ultimately have "slice (program cs 0x600c [0, 0]) 0x6000 0x6010
      = Some (?pre @ [0, 0] @ [0xff, 0xff])"
    using lo hi by (intro slice_concat3 [OF _ mid]) simp_all
  then show ?thesis by (simp add: committed_header_def)
qed

context nor_flash
begin

lemma begin_device:
  assumes "image_bounds b m" and "loader_begin api ld f b m c = (ld', f')"
    and "ld_state ld' = Receiving"
  shows "receiving ld' (contents f') []"
proof -
  let ?n = "unat b + 16 * unat m"
  let ?to = "BPF_FLASH_OFFSET + of_nat (erase_pages (BPF_HEADER_SIZE + ?n) * 4096) :: u32"
  have n: "?n \<le> 7808" using image_bounds_len [OF assms(1)] by simp
  define k where "k = erase_pages (BPF_HEADER_SIZE + ?n) * 4096"
  have k: "16 + ?n \<le> k" "k \<le> 8192"
    using n erase_pages_cover [of "16 + ?n"] erase_pages_bound [of "16 + ?n"] by (simp_all add: k_def)
  have to: "unat ?to = 0x6000 + k"
    using k(2) unfolding k_def [symmetric]
    by (subst unat_add_id) (simp_all add: unat_of_nat_id)
  obtain g where er: "fl_erase api f BPF_FLASH_OFFSET ?to = (True, g)"
    and wr: "fl_write api g BPF_FLASH_OFFSET (begin_header b m c) = (True, f')"
    and ld': "ld_state ld' = Receiving" "ld_bytecode_len ld' = b" "ld_map_count ld' = m"
      "ld_expected_crc ld' = c" "ld_next_offset ld' = 0" "ld_crc ld' = 0xffffffff"
      "ld_image_len ld' = of_nat ?n"
    using assms(2,3) by (auto simp: loader_begin_def image_len_eq Let_def split: prod.splits bool.splits)
  have il: "unat (ld_image_len ld') = ?n" unfolding ld'(7) using n by (intro unat_of_nat_id) simp
  have erased: "slice (contents g) 0x6000 (0x6000 + k) = Some (replicate k 0xff)"
    using erase_ok [OF er] to by simp
  have "slice (contents f') 0x6000 0x6010 = Some (begin_header b m c)"
    using write_slice_erased [OF wr] slice_split(1) [OF erased, of "0x6010"] k
    by (simp add: length_begin_header min_absorb1)
  moreover have "slice (contents f') 0x6010 (0x6010 + ?n) = slice (contents g) 0x6010 (0x6010 + ?n)"
    using write_slice_outside [OF wr] by (simp add: length_begin_header)
  moreover have "slice (contents g) 0x6010 (0x6010 + ?n) = Some (replicate ?n 0xff)"
    using slice_split(1) [OF slice_split(2) [OF erased, of "0x6010"], of "0x6010 + ?n"] k
    by (simp add: min_absorb1)
  ultimately show ?thesis by (simp add: receiving_def ld'(1-6) il)
qed

lemma data_device:
  assumes rec: "receiving ld (contents f) received" and tr: "transfer_ok ld"
    and len: "unat (ld_next_offset ld) + length bs \<le> unat (ld_image_len ld)"
    and wr: "fl_write api f (image_address (unat (ld_next_offset ld))) bs = (True, f')"
    and ld': "ld_bytecode_len ld' = ld_bytecode_len ld" "ld_map_count ld' = ld_map_count ld"
      "ld_expected_crc ld' = ld_expected_crc ld" "ld_image_len ld' = ld_image_len ld"
      "ld_crc ld' = crc32_update (ld_crc ld) bs"
      "unat (ld_next_offset ld') = unat (ld_next_offset ld) + length bs"
  shows "receiving ld' (contents f') (received @ bs)"
proof -
  let ?o = "unat (ld_next_offset ld)" let ?n = "unat (ld_image_len ld)"
  have n: "?n \<le> 7808" using transfer_ok_len [OF tr] .
  have addr: "unat (image_address ?o) = 0x6010 + ?o"
    using n len by (intro unat_image_address) simp
  have r: "length received = ?o"
    "slice (contents f) 0x6010 (0x6010 + ?n) = Some (received @ replicate (?n - ?o) 0xff)"
    "slice (contents f) 0x6000 0x6010
       = Some (begin_header (ld_bytecode_len ld) (ld_map_count ld) (ld_expected_crc ld))"
    "ld_crc ld = crc32_update 0xffffffff received"
    using rec by (auto simp: receiving_def)
  have lo: "slice (contents f) 0x6010 (0x6010 + ?o) = Some received"
    using slice_split(1) [OF r(2), of "0x6010 + ?o"] r(1) len by simp
  have rest: "slice (contents f) (0x6010 + ?o) (0x6010 + ?n) = Some (replicate (?n - ?o) 0xff)"
    using slice_split(2) [OF r(2), of "0x6010 + ?o"] r(1) len by simp
  have mid: "slice (contents f) (0x6010 + ?o) (0x6010 + ?o + length bs) = Some (replicate (length bs) 0xff)"
    using slice_split(1) [OF rest, of "0x6010 + ?o + length bs"] len by simp
  have hi: "slice (contents f) (0x6010 + ?o + length bs) (0x6010 + ?n)
      = Some (replicate (?n - ?o - length bs) 0xff)"
    using slice_split(2) [OF rest, of "0x6010 + ?o + length bs"] len by (simp add: ac_simps)
  note out = write_slice_outside [OF wr, unfolded addr]
  have new: "slice (contents f') (0x6010 + ?o) (0x6010 + ?o + length bs) = Some bs"
    using write_slice_erased [OF wr, unfolded addr, OF mid] .
  have "slice (contents f') 0x6010 (0x6010 + ?o) = Some received" using out lo by simp
  moreover have "slice (contents f') (0x6010 + ?o + length bs) (0x6010 + ?n)
      = Some (replicate (?n - ?o - length bs) 0xff)" using out hi by simp
  ultimately have "slice (contents f') 0x6010 (0x6010 + ?n)
      = Some (received @ bs @ replicate (?n - ?o - length bs) 0xff)"
    by (rule slice_concat3 [OF _ new])
  moreover have "slice (contents f') 0x6000 0x6010 = slice (contents f) 0x6000 0x6010"
    using out by simp
  ultimately show ?thesis
    using r ld' by (simp add: receiving_def crc32_update_append ac_simps)
qed

lemma received_all:
  assumes "receiving ld cs received" and "ld_next_offset ld = ld_image_len ld"
  shows "slice cs 0x6010 (0x6010 + length received) = Some received"
    and "length received = unat (ld_image_len ld)"
  using assms by (auto simp: receiving_def)

lemma finalize_device:
  assumes rec: "receiving ld (contents f) received" and tr: "transfer_ok ld"
    and full: "ld_next_offset ld = ld_image_len ld"
    and fin: "loader_finalize api ld f = Some (ld', f')" and com: "ld_state ld' = Committed crc"
  shows "on_device ld' (contents f') crc received"
proof -
  let ?b = "ld_bytecode_len ld" let ?m = "ld_map_count ld" let ?c = "ld_expected_crc ld"
  have ib: "image_bounds ?b ?m" and len: "unat (ld_image_len ld) = unat ?b + 16 * unat ?m"
    using tr by (simp_all add: transfer_ok_def)
  have rcv: "slice (contents f) 0x6010 (0x6010 + length received) = Some received"
    "length received = unat ?b + 16 * unat ?m"
    using received_all [OF rec full] len by simp_all
  have m8: "unat ?m \<le> 8" using ib by (simp add: image_bounds_def)
  obtain res g where ml: "map_layouts api f ?b ?m = Some (res, g)" "contents g = contents f"
    "\<And>x. res = Some x \<Longrightarrow> placement (contents f) ?b ?m = Some x"
    using map_layouts_sound [OF m8] by blast
  obtain ls cnt where res: "res = Some (ls, cnt)" and crc: "crc32_finish (ld_crc ld) = ?c" "crc = ?c"
    and wr: "fl_write api g (BPF_FLASH_OFFSET + 12) [0, 0] = (True, f')"
    and ld': "ld' = ld\<lparr>ld_state := Committed ?c, ld_map_layouts := ls, ld_committed_map_count := cnt\<rparr>"
    using fin com ml(1)
    by (auto simp: loader_finalize_def split: if_splits option.splits prod.splits bool.splits)
  have addr: "unat (BPF_FLASH_OFFSET + 12) = 0x600c" by (simp add: BPF_FLASH_OFFSET_def)
  have img: "slice (contents f') 0x6010 (0x6010 + length received) = Some received"
    using write_slice_outside [OF wr, unfolded addr] rcv(1) ml(2) by simp
  have "contents f' = program (contents f) 0x600c [0, 0]"
    using write_ok [OF wr] addr ml(2) by simp
  then have hdr: "slice (contents f') 0x6000 0x6010 = Some (committed_header ?b ?m ?c)"
    using rec marker_programmed by (simp add: receiving_def)
  have pl: "placement (contents f') ?b ?m = Some (ls, cnt)"
    using placement_image [OF img rcv(2)] placement_image [OF rcv] ml(3) [OF res] by simp
  have "crc32_iso_hdlc received = ?c"
    using crc(1) rec by (simp add: crc32_iso_hdlc_def receiving_def)
  with hdr img pl ib rcv(2) show ?thesis
    by (simp add: on_device_def committed_image_def ld' crc(2))
qed

text \<open>The next lemma allows every operation of the flash to fail.\<close>

lemma execute_pending_device:
  assumes inv: "loader_inv ld" and dev: "device_inv ld (contents f)"
    and ex: "execute_pending api ld f = Some (ld', f')"
  shows "device_inv ld' (contents f')"
proof (cases "ld_pending ld")
  case None
  then show ?thesis using ex dev by (simp add: execute_pending_def)
next
  case (Some op)
  show ?thesis
  proof (cases op)
    case (Begin b m c)
    then have ib: "image_bounds b m" using inv Some by (simp add: loader_inv_def)
    have lb: "loader_begin api (ld\<lparr>ld_pending := None\<rparr>) f b m c = (ld', f')"
      using ex Some Begin by (simp add: execute_pending_def)
    show ?thesis
      using begin_device [OF ib lb] loader_begin_inv [OF ib, of "ld\<lparr>ld_pending := None\<rparr>" api f c] lb
      by (auto simp: device_inv_def)
  next
    case (Data off bs len)
    then have d: "length bs = 12" "unat len \<le> 12" and st: "ld_state ld = Receiving"
      and off: "off = ld_next_offset ld" "unat off + unat len \<le> unat (ld_image_len ld)"
      and tr: "transfer_ok ld"
      using inv Some by (auto simp: loader_inv_def)
    from st dev obtain received where rec: "receiving ld (contents f) received"
      by (auto simp: device_inv_def)
    have sl: "slice bs 0 (unat len) = Some (take (unat len) bs)"
      using d by (simp add: slice_def)
    obtain ok g where wr: "fl_write api f (image_address (unat off)) (take (unat len) bs) = (ok, g)"
      by (cases "fl_write api f (image_address (unat off)) (take (unat len) bs)")
    show ?thesis
    proof (cases ok)
      case False
      then show ?thesis using ex Some Data sl wr by (auto simp: execute_pending_def device_inv_def)
    next
      case True
      then have ld': "ld' = ld\<lparr>ld_pending := None, ld_crc := crc32_update (ld_crc ld) (take (unat len) bs),
          ld_next_offset := ld_next_offset ld + ucast len\<rparr>" and g: "g = f'"
        using ex Some Data sl wr by (auto simp: execute_pending_def)
      have next_off: "unat (ld_next_offset ld + ucast len) = unat (ld_next_offset ld) + unat len"
        using data_step_inv [OF inv Some [unfolded Data]] by blast
      have "receiving ld' (contents f') (received @ take (unat len) bs)"
        using wr True off d next_off unfolding g
        by (intro data_device [OF rec tr]) (simp_all add: ld')
      then show ?thesis using st by (auto simp: device_inv_def ld')
    qed
  next
    case Finalize
    then have st: "ld_state ld = Receiving" and full: "ld_next_offset ld = ld_image_len ld"
      using inv Some by (simp_all add: loader_inv_def)
    let ?ld = "ld\<lparr>ld_pending := None\<rparr>"
    from st dev obtain received where "receiving ld (contents f) received"
      by (auto simp: device_inv_def)
    then have rec: "receiving ?ld (contents f) received" by (simp add: receiving_def)
    have tr: "transfer_ok ?ld" using inv st by (simp add: loader_inv_def transfer_ok_def)
    have li: "loader_inv ?ld" using inv st by (simp add: loader_inv_def transfer_ok_def)
    have fin: "loader_finalize api ?ld f = Some (ld', f')"
      using ex Some Finalize by (simp add: execute_pending_def)
    show ?thesis
      using finalize_device [OF rec tr _ fin] loader_finalize_inv [OF li, of f] fin st full
      by (auto simp: device_inv_def)
  qed
qed

text \<open>A reset in the middle of a transfer finds no program.\<close>

lemma validate_after_receiving:
  assumes "receiving ld0 (contents f) received"
  shows "\<exists>ld' f'. validate_committed api ld f = Some (ld', f') \<and> contents f' = contents f
    \<and> (ld' = no_program ld Empty \<or> ld' = no_program ld (Failed STATUS_FLASH_ERROR))"
  using validate_committed_sound [of ld f] receiving_not_committed [OF assms] by blast

end

section \<open>The abstract session\<close>

text \<open>What the host sees of a load: the image bytes accepted so far, then a program or a reason
  for its rejection.\<close>

datatype session =
    Idle
  | Transfer u16 u8 u32 bytes
  | Programmed u16 u8 u32 bytes
  | Rejected u8

fun session_step :: "session \<Rightarrow> load_operation \<Rightarrow> session" where
  "session_step s (Begin b m c) = Transfer b m c []"
| "session_step (Transfer b m c received) (Data off bs len) =
     Transfer b m c (received @ take (unat len) bs)"
| "session_step (Transfer b m c received) Finalize =
     (if crc32_iso_hdlc received \<noteq> c then Rejected STATUS_BAD_CRC
      else if image_maps received b m = None then Rejected STATUS_BAD_STATE
      else Programmed b m c received)"
| "session_step s _ = s"

fun session_rel :: "bpf_loader \<Rightarrow> bytes \<Rightarrow> session \<Rightarrow> bool" where
  "session_rel ld cs Idle \<longleftrightarrow> ld_state ld = Empty"
| "session_rel ld cs (Transfer b m c received) \<longleftrightarrow> ld_state ld = Receiving
     \<and> ld_bytecode_len ld = b \<and> ld_map_count ld = m \<and> ld_expected_crc ld = c
     \<and> receiving ld cs received"
| "session_rel ld cs (Programmed b m c img) \<longleftrightarrow> ld_state ld \<in> {Committed c, Running c}
     \<and> ld_bytecode_len ld = b \<and> ld_map_count ld = m \<and> on_device ld cs c img"
| "session_rel ld cs (Rejected s) \<longleftrightarrow> ld_state ld = Failed s"

context reliable_flash
begin

lemma begin_total:
  assumes "image_bounds b m" and "healthy f" and "0x8000 \<le> length (contents f)"
  shows "\<exists>ld' f'. loader_begin api ld f b m c = (ld', f') \<and> ld_state ld' = Receiving
    \<and> ld_bytecode_len ld' = b \<and> ld_map_count ld' = m \<and> ld_expected_crc ld' = c
    \<and> healthy f' \<and> length (contents f') = length (contents f)"
proof -
  let ?n = "unat b + 16 * unat m"
  define k where "k = erase_pages (BPF_HEADER_SIZE + ?n) * 4096"
  let ?to = "BPF_FLASH_OFFSET + of_nat k :: u32"
  have k: "k \<le> 8192" "4096 dvd k"
    using image_bounds_len [OF assms(1)] erase_pages_bound [of "16 + ?n"] by (simp_all add: k_def)
  have to: "unat ?to = 0x6000 + k"
    using k(1) by (subst unat_add_id) (simp_all add: unat_of_nat_id)
  have "4096 dvd unat BPF_FLASH_OFFSET" by simp
  moreover have "4096 dvd unat ?to" using k(2) unfolding to by (simp add: dvd_add)
  ultimately obtain g where er: "fl_erase api f BPF_FLASH_OFFSET ?to = (True, g)" and hg: "healthy g"
    using erase_total [OF assms(2), of BPF_FLASH_OFFSET ?to] to k(1) assms(3) by auto
  have lg: "length (contents g) = length (contents f)"
    using erase_outside [OF er] by (simp add: same_outside_def)
  obtain f' where wr: "fl_write api g BPF_FLASH_OFFSET (begin_header b m c) = (True, f')"
    and hf: "healthy f'"
    using write_total [OF hg, of BPF_FLASH_OFFSET "begin_header b m c"] lg assms(3)
    by (auto simp: length_begin_header)
  show ?thesis
    using er wr hf write_length [OF wr] lg
    by (simp add: loader_begin_def image_len_eq Let_def k_def)
qed

lemma finalize_total:
  assumes tr: "transfer_ok ld" and rec: "receiving ld (contents f) received"
    and full: "ld_next_offset ld = ld_image_len ld"
    and h: "healthy f" and len: "0x8000 \<le> length (contents f)" and st: "ld_state ld = Receiving"
  shows "\<exists>ld' f'. loader_finalize api ld f = Some (ld', f') \<and> healthy f'
    \<and> length (contents f') = length (contents f)
    \<and> session_rel ld' (contents f') (session_step
         (Transfer (ld_bytecode_len ld) (ld_map_count ld) (ld_expected_crc ld) received) Finalize)"
proof -
  let ?b = "ld_bytecode_len ld" let ?m = "ld_map_count ld" let ?c = "ld_expected_crc ld"
  have ib: "image_bounds ?b ?m" and il: "unat (ld_image_len ld) = unat ?b + 16 * unat ?m"
    using tr by (simp_all add: transfer_ok_def)
  have rcv: "slice (contents f) 0x6010 (0x6010 + length received) = Some received"
    "length received = unat ?b + 16 * unat ?m"
    using received_all [OF rec full] il by simp_all
  have m8: "unat ?m \<le> 8" and n: "unat ?b + 16 * unat ?m \<le> 7808"
    using ib image_bounds_len [OF ib] by (simp_all add: image_bounds_def)
  have crc: "crc32_finish (ld_crc ld) = crc32_iso_hdlc received"
    using rec by (simp add: receiving_def crc32_iso_hdlc_def)
  obtain g where ml: "map_layouts api f ?b ?m = Some (placement (contents f) ?b ?m, g)"
    "contents g = contents f" and hg: "healthy g"
    using map_layouts_total [OF m8 h, of ?b] n len by auto
  have pl: "placement (contents f) ?b ?m
      = map_option (\<lambda>ls. (stored_layouts ?m ls, ?m)) (image_maps received ?b ?m)"
    using placement_image [OF rcv] .
  have "even (unat (BPF_FLASH_OFFSET + 12 :: u32))"
    and "unat (BPF_FLASH_OFFSET + 12 :: u32) + 2 \<le> length (contents g)"
    using len ml(2) by (simp_all add: BPF_FLASH_OFFSET_def)
  then obtain f' where wr: "fl_write api g (BPF_FLASH_OFFSET + 12) [0, 0] = (True, f')"
    and hf: "healthy f'" using write_total [OF hg, of "BPF_FLASH_OFFSET + 12" "[0, 0]"] by auto
  show ?thesis
  proof (cases "crc32_iso_hdlc received \<noteq> ?c \<or> image_maps received ?b ?m = None")
    case True
    then show ?thesis using h hg ml crc pl by (auto simp: loader_finalize_def)
  next
    case False
    then obtain ls where ls: "image_maps received ?b ?m = Some ls" by auto
    define ld' where "ld' = ld\<lparr>ld_state := Committed ?c, ld_map_layouts := stored_layouts ?m ls,
        ld_committed_map_count := ?m\<rparr>"
    have fin: "loader_finalize api ld f = Some (ld', f')"
      using False ls ml pl crc wr by (simp add: loader_finalize_def ld'_def)
    have "on_device ld' (contents f') ?c received"
      using finalize_device [OF rec tr full fin] by (simp add: ld'_def)
    then show ?thesis
      using fin hf False write_length [OF wr] ml(2) by (simp add: ld'_def)
  qed
qed

lemma execute_pending_session:
  assumes inv: "loader_inv ld" and rel: "session_rel ld (contents f) s"
    and op: "ld_pending ld = Some op" and h: "healthy f" and len: "0x8000 \<le> length (contents f)"
  shows "\<exists>ld' f'. execute_pending api ld f = Some (ld', f') \<and> healthy f'
    \<and> length (contents f') = length (contents f) \<and> session_rel ld' (contents f') (session_step s op)"
proof (cases op)
  case (Begin b m c)
  then have ib: "image_bounds b m" using inv op by (simp add: loader_inv_def)
  obtain ld' f' where lb: "loader_begin api (ld\<lparr>ld_pending := None\<rparr>) f b m c = (ld', f')"
    "ld_state ld' = Receiving" "ld_bytecode_len ld' = b" "ld_map_count ld' = m"
    "ld_expected_crc ld' = c" "healthy f'" "length (contents f') = length (contents f)"
    using begin_total [OF ib h len] by blast
  then show ?thesis
    using begin_device [OF ib lb(1,2)] op Begin by (simp add: execute_pending_def)
next
  case (Data off bs n)
  then have d: "length bs = 12" "unat n \<le> 12" "even (unat n)" and st: "ld_state ld = Receiving"
    and off: "off = ld_next_offset ld" "unat off + unat n \<le> unat (ld_image_len ld)"
    and tr: "transfer_ok ld"
    using inv op by (auto simp: loader_inv_def)
  from st rel obtain received where s: "s = Transfer (ld_bytecode_len ld) (ld_map_count ld)
      (ld_expected_crc ld) received" and rec: "receiving ld (contents f) received"
    by (cases s) auto
  have sl: "slice bs 0 (unat n) = Some (take (unat n) bs)" using d by (simp add: slice_def)
  have il: "unat (ld_image_len ld) \<le> 7808" using transfer_ok_len [OF tr] .
  have addr: "unat (image_address (unat off)) = 0x6010 + unat off"
    using il off(2) by (intro unat_image_address) simp
  have "even (0x6010 + unat off)" using tr off(1) by (simp add: transfer_ok_def)
  then obtain f' where wr: "fl_write api f (image_address (unat off)) (take (unat n) bs) = (True, f')"
    and hf: "healthy f'"
    using write_total [OF h, of "image_address (unat off)" "take (unat n) bs"] addr d il off(2) len
    by auto
  let ?ld' = "ld\<lparr>ld_pending := None, ld_crc := crc32_update (ld_crc ld) (take (unat n) bs),
      ld_next_offset := ld_next_offset ld + ucast n\<rparr>"
  have ex: "execute_pending api ld f = Some (?ld', f')"
    using op Data sl wr by (simp add: execute_pending_def)
  have "unat (ld_next_offset ld + ucast n) = unat (ld_next_offset ld) + unat n"
    using data_step_inv [OF inv op [unfolded Data]] by blast
  then have "receiving ?ld' (contents f') (received @ take (unat n) bs)"
    using wr off d by (intro data_device [OF rec tr]) simp_all
  then show ?thesis using ex hf st write_length [OF wr] by (simp add: s Data)
next
  case Finalize
  then have st: "ld_state ld = Receiving" and full: "ld_next_offset ld = ld_image_len ld"
    and tr: "transfer_ok ld"
    using inv op by (auto simp: loader_inv_def)
  from st rel obtain received where s: "s = Transfer (ld_bytecode_len ld) (ld_map_count ld)
      (ld_expected_crc ld) received" and rec: "receiving ld (contents f) received"
    by (cases s) auto
  let ?ld = "ld\<lparr>ld_pending := None\<rparr>"
  have "transfer_ok ?ld" "receiving ?ld (contents f) received"
    using tr rec by (simp_all add: transfer_ok_def receiving_def)
  from finalize_total [OF this _ h len] show ?thesis
    using op Finalize st full by (simp add: execute_pending_def s)
qed

end

end
