(* ===== verification/Host_Load.thy ===== *)
theory Host_Load
  imports Loader_Session
begin

text \<open>
  A whole load, from the host's side: the payloads of the Load requests (README, "Load BPF"),
  each accepted by \<open>accepts_load\<close> in the I2C callback and carried out by
  \<open>execute_pending\<close> in the main loop before the next one. \<open>loader_step\<close> is
  the life of a loader under any order of requests, work, starts and resets.
\<close>

section \<open>Payloads of a Load request\<close>

definition load_request :: "bytes \<Rightarrow> request" where
  "load_request payload = \<lparr>req_command = CMD_LOAD_BPF, req_sequence = 0, req_flags = 0,
     req_payload = payload @ replicate (16 - length payload) 0,
     req_payload_len = of_nat (length payload)\<rparr>"

definition begin_payload :: "u16 \<Rightarrow> u8 \<Rightarrow> u32 \<Rightarrow> bytes" where
  "begin_payload b m c = 0 # to_le_bytes 2 b @ [m] @ to_le_bytes 4 c"

definition data_payload :: "nat \<Rightarrow> bytes \<Rightarrow> bytes" where
  "data_payload off bs = 1 # to_le_bytes 2 (of_nat off :: u16) @ bs"

definition finalize_payload :: bytes where
  "finalize_payload = [2]"

fun data_payloads :: "nat \<Rightarrow> bytes list \<Rightarrow> bytes list" where
  "data_payloads off [] = []"
| "data_payloads off (chunk # chunks) =
     data_payload off chunk # data_payloads (off + length chunk) chunks"

definition load_payloads :: "u16 \<Rightarrow> u8 \<Rightarrow> u32 \<Rightarrow> bytes list \<Rightarrow> bytes list" where
  "load_payloads b m c chunks =
     begin_payload b m c # data_payloads 0 chunks @ [finalize_payload]"

text \<open>A chunk of image bytes as a Data operation carries it.\<close>

definition chunk_ok :: "bytes \<Rightarrow> bool" where
  "chunk_ok bs \<longleftrightarrow> 2 \<le> length bs \<and> length bs \<le> 12 \<and> even (length bs)"

fun host_load ::
    "'f bpf_flash \<Rightarrow> bytes list \<Rightarrow> bpf_loader \<Rightarrow> 'f
       \<Rightarrow> ((u8, unit) rust_result list \<times> bpf_loader \<times> 'f) may_panic" where
  "host_load api [] ld f = Some ([], ld, f)"
| "host_load api (p # ps) ld f = do {
     (res, ld) \<leftarrow> accepts_load ld (load_request p);
     (ld, f) \<leftarrow> execute_pending api ld f;
     (rest, ld, f) \<leftarrow> host_load api ps ld f;
     Some (res # rest, ld, f)
   }"

lemma load_request_wf:
  assumes "length p \<le> 16"
  shows "wf_request (load_request p)" and "request_body (load_request p) = p"
proof -
  have "unat (of_nat (length p) :: u8) = length p" using assms by (intro unat_of_nat_id) simp
  then show "wf_request (load_request p)" "request_body (load_request p) = p"
    using assms by (simp_all add: wf_request_def load_request_def request_body_def)
qed

lemma decode_begin_payload:
  "decode_load ld (begin_payload b m c)
     = Some (if image_bounds b m then Inr (Begin b m c) else Inl STATUS_BAD_LENGTH)"
proof -
  obtain b0 b1 where b: "to_le_bytes 2 b = [b0, b1]"
    using list_of_length(1) [OF length_to_le_bytes [of 2 b]] by blast
  obtain c0 c1 c2 c3 where c: "to_le_bytes 4 c = [c0, c1, c2, c3]"
    using list_of_length(2) [OF length_to_le_bytes [of 4 c]] by blast
  have "from_le_bytes [b0, b1] = b" "from_le_bytes [c0, c1, c2, c3] = c"
    using from_to_le_bytes [of 2 b] from_to_le_bytes [of 4 c] b c by simp_all
  then show ?thesis
    by (simp add: decode_load_def decode_begin_def begin_payload_def b c image_len_eq
        bad_image_bounds_iff)
qed

lemma decode_data_payload:
  assumes "ld_state ld = Receiving" and "chunk_ok bs" and "off = unat (ld_next_offset ld)"
    and "off + length bs \<le> unat (ld_image_len ld)"
  shows "decode_load ld (data_payload off bs)
    = Some (Inr (Data (of_nat off) (bs @ replicate (12 - length bs) 0) (of_nat (length bs))))"
proof -
  obtain b0 b1 where b: "to_le_bytes 2 (of_nat off :: u16) = [b0, b1]"
    using list_of_length(1) [OF length_to_le_bytes [of 2 "of_nat off :: u16"]] by blast
  have "from_le_bytes [b0, b1] = (of_nat off :: u16)"
    using from_to_le_bytes [of 2 "of_nat off :: u16"] b by simp
  moreover have "data_payload off bs = 1 # b0 # b1 # bs" by (simp add: data_payload_def b)
  moreover have "(of_nat off :: u16) = ld_next_offset ld" using assms(3) by simp
  moreover have "even (length bs)" using assms(2) by (simp add: chunk_ok_def)
  moreover have "drop 3 (1 # b0 # b1 # bs) = bs" by simp
  ultimately show ?thesis
    using assms
    by (simp add: decode_load_def decode_data_def chunk_ok_def copy_into_def
        even_iff_mod_2_eq_zero [symmetric] Let_def)
qed

lemma decode_finalize_payload:
  assumes "ld_state ld = Receiving" and "ld_next_offset ld = ld_image_len ld"
  shows "decode_load ld finalize_payload = Some (Inr Finalize)"
  using assms by (simp add: decode_load_def decode_finalize_def finalize_payload_def)

text \<open>One accepted operation.\<close>

lemma accepts_decoded:
  assumes "ld_pending ld = None" and "\<not> is_running (ld_state ld)" and "length p \<le> 16"
    and "decode_load ld p = Some (Inr op)"
  shows "accepts_load ld (load_request p) = Some (Inr (), ld\<lparr>ld_pending := Some op\<rparr>)"
proof -
  have "slice (req_payload (load_request p)) 0 (unat (req_payload_len (load_request p))) = Some p"
    using load_request_wf [OF assms(3)]
    by (simp add: wf_request_def slice_def request_body_def)
  then show ?thesis using assms by (simp add: accepts_load_def)
qed

lemma host_load_append:
  "host_load api (ps @ qs) ld f = do {
     (rs, ld, f) \<leftarrow> host_load api ps ld f;
     (rest, ld, f) \<leftarrow> host_load api qs ld f;
     Some (rs @ rest, ld, f)
   }"
  by (induction ps arbitrary: ld f) (auto simp: bind_assoc case_prod_beta intro!: Option.bind_cong)

lemma host_load_appendI:
  assumes "host_load api ps ld f = Some (rs, ld1, f1)" and "host_load api qs ld1 f1 = Some (rs', ld2, f2)"
  shows "host_load api (ps @ qs) ld f = Some (rs @ rs', ld2, f2)"
  using assms by (simp add: host_load_append)

text \<open>Deferred work never starts a program.\<close>

lemma loader_finalize_not_running:
  assumes "loader_finalize api ld f = Some (ld', f')" and "\<not> is_running (ld_state ld)"
  shows "\<not> is_running (ld_state ld')"
  using assms
  by (auto simp: loader_finalize_def split: Option.bind_splits if_splits option.splits prod.splits bool.splits)

lemma execute_pending_not_running:
  assumes "execute_pending api ld f = Some (ld', f')" and "\<not> is_running (ld_state ld)"
  shows "\<not> is_running (ld_state ld')"
proof (cases "ld_pending ld")
  case None
  then show ?thesis using assms by (simp add: execute_pending_def)
next
  case (Some op)
  then show ?thesis
  proof (cases op)
    case (Begin b m c)
    then show ?thesis using assms Some
      by (auto simp: execute_pending_def loader_begin_def clear_map_layouts_def Let_def
          split: option.splits prod.splits bool.splits)
  next
    case (Data off bs len)
    then show ?thesis using assms Some
      by (auto simp: execute_pending_def Let_def split: Option.bind_splits prod.splits bool.splits)
  next
    case Finalize
    then show ?thesis using assms Some loader_finalize_not_running [of api "ld\<lparr>ld_pending := None\<rparr>" f]
      by (auto simp: execute_pending_def)
  qed
qed

lemma session_of_device: "device_inv ld cs \<Longrightarrow> \<exists>s. session_rel ld cs s"
proof (cases "ld_state ld")
  case Empty
  then show ?thesis by (intro exI [of _ Idle]) simp
next
  case (Failed s)
  then show ?thesis by (intro exI [of _ "Rejected s"]) simp
next
  case Receiving
  moreover assume "device_inv ld cs"
  ultimately obtain r where "receiving ld cs r" by (auto simp: device_inv_def)
  with Receiving show ?thesis
    by (intro exI [of _ "Transfer (ld_bytecode_len ld) (ld_map_count ld) (ld_expected_crc ld) r"]) simp
next
  case (Committed c)
  moreover assume "device_inv ld cs"
  ultimately obtain i where "on_device ld cs c i" by (auto simp: device_inv_def)
  with Committed show ?thesis
    by (intro exI [of _ "Programmed (ld_bytecode_len ld) (ld_map_count ld) c i"]) simp
next
  case (Running c)
  moreover assume "device_inv ld cs"
  ultimately obtain i where "on_device ld cs c i" by (auto simp: device_inv_def)
  with Running show ?thesis
    by (intro exI [of _ "Programmed (ld_bytecode_len ld) (ld_map_count ld) c i"]) simp
qed

context reliable_flash
begin

lemma host_op:
  assumes inv: "loader_inv ld" and idle: "ld_pending ld = None" "\<not> is_running (ld_state ld)"
    and p: "length p \<le> 16" "decode_load ld p = Some (Inr op)"
    and rel: "session_rel ld (contents f) s" and h: "healthy f" and len: "0x8000 \<le> length (contents f)"
  shows "\<exists>ld' f'. host_load api [p] ld f = Some ([Inr ()], ld', f')
    \<and> loader_inv ld' \<and> ld_pending ld' = None \<and> \<not> is_running (ld_state ld')
    \<and> healthy f' \<and> length (contents f') = length (contents f)
    \<and> session_rel ld' (contents f') (session_step s op)"
proof -
  let ?ld = "ld\<lparr>ld_pending := Some op\<rparr>"
  have acc: "accepts_load ld (load_request p) = Some (Inr (), ?ld)"
    using accepts_decoded [OF idle p] .
  have "loader_inv ?ld"
    using accepts_load_spec [OF inv load_request_wf(1) [OF p(1)]] acc by simp
  moreover have "session_rel ?ld (contents f) s"
    using rel by (cases s) (simp_all add: receiving_def on_device_def)
  ultimately obtain ld' f' where ex: "execute_pending api ?ld f = Some (ld', f')" "healthy f'"
    "length (contents f') = length (contents f)" "session_rel ld' (contents f') (session_step s op)"
    using execute_pending_session [OF _ _ _ h len] by fastforce
  moreover have "loader_inv ld' \<and> ld_pending ld' = None"
    using execute_pending_inv [OF \<open>loader_inv ?ld\<close>, of f] ex(1) by simp
  moreover have "\<not> is_running (ld_state ld')"
    using execute_pending_not_running [OF ex(1)] idle(2) by simp
  ultimately show ?thesis using acc by simp
qed

lemma host_data:
  assumes "loader_inv ld" and "ld_pending ld = None"
    and "session_rel ld (contents f) (Transfer b m c received)"
    and "list_all chunk_ok chunks"
    and "length received + length (concat chunks) \<le> unat b + 16 * unat m"
    and "healthy f" and "0x8000 \<le> length (contents f)"
  shows "\<exists>ld' f'. host_load api (data_payloads (length received) chunks) ld f
      = Some (replicate (length chunks) (Inr ()), ld', f')
    \<and> loader_inv ld' \<and> ld_pending ld' = None \<and> \<not> is_running (ld_state ld')
    \<and> healthy f' \<and> length (contents f') = length (contents f)
    \<and> session_rel ld' (contents f') (Transfer b m c (received @ concat chunks))"
  using assms
proof (induction chunks arbitrary: ld f received)
  case Nil
  then show ?case by simp
next
  case (Cons chunk chunks)
  have st: "ld_state ld = Receiving" and rec: "receiving ld (contents f) received"
    and bm: "ld_bytecode_len ld = b" "ld_map_count ld = m"
    using Cons.prems(3) by simp_all
  have il: "unat (ld_image_len ld) = unat b + 16 * unat m"
    using Cons.prems(1) st bm by (simp add: loader_inv_def transfer_ok_def)
  have ck: "chunk_ok chunk" using Cons.prems(4) by simp
  let ?op = "Data (of_nat (length received)) (chunk @ replicate (12 - length chunk) 0) (of_nat (length chunk))"
  have off: "length received = unat (ld_next_offset ld)" using rec by (simp add: receiving_def)
  have dec: "decode_load ld (data_payload (length received) chunk) = Some (Inr ?op)"
    using decode_data_payload [OF st ck off] Cons.prems(5) il by simp
  have lp: "length (data_payload (length received) chunk) \<le> 16"
    using ck by (simp add: data_payload_def chunk_ok_def)
  have nr: "\<not> is_running (ld_state ld)" using st by simp
  obtain ld1 f1 where one: "host_load api [data_payload (length received) chunk] ld f = Some ([Inr ()], ld1, f1)"
    and i1: "loader_inv ld1" "ld_pending ld1 = None" "healthy f1" "length (contents f1) = length (contents f)"
    and rel1: "session_rel ld1 (contents f1) (session_step (Transfer b m c received) ?op)"
    using host_op [OF Cons.prems(1,2) nr lp dec Cons.prems(3,6,7)] by blast
  have "unat (of_nat (length chunk) :: u8) = length chunk"
    using ck by (intro unat_of_nat_id) (simp add: chunk_ok_def)
  then have rel2: "session_rel ld1 (contents f1) (Transfer b m c (received @ chunk))"
    using rel1 by simp
  obtain ld' f' where rest: "host_load api (data_payloads (length (received @ chunk)) chunks) ld1 f1
      = Some (replicate (length chunks) (Inr ()), ld', f')"
    and i2: "loader_inv ld'" "ld_pending ld' = None" "healthy f'" "length (contents f') = length (contents f1)"
      "session_rel ld' (contents f') (Transfer b m c ((received @ chunk) @ concat chunks))"
    using Cons.IH [OF i1(1,2) rel2 _ _ i1(3)] Cons.prems(4,5,7) i1(4) by auto
  have "host_load api (data_payloads (length received) (chunk # chunks)) ld f
      = Some (replicate (length (chunk # chunks)) (Inr ()), ld', f')"
    using host_load_appendI [OF one, of _ _ ld' f'] rest by simp
  then show ?case using i1 i2 by simp
qed

lemma host_load_session:
  assumes inv: "loader_inv ld" and idle: "ld_pending ld = None" "\<not> is_running (ld_state ld)"
    and dev: "device_inv ld (contents f)" and h: "healthy f" and len: "0x8000 \<le> length (contents f)"
    and ib: "image_bounds b m" and img: "length (concat chunks) = unat b + 16 * unat m"
    and ck: "list_all chunk_ok chunks"
  shows "\<exists>ld' f'. host_load api (load_payloads b m c chunks) ld f
      = Some (replicate (length chunks + 2) (Inr ()), ld', f')
    \<and> loader_inv ld' \<and> ld_pending ld' = None \<and> \<not> is_running (ld_state ld')
    \<and> healthy f' \<and> length (contents f') = length (contents f)
    \<and> session_rel ld' (contents f') (session_step (Transfer b m c (concat chunks)) Finalize)"
proof -
  obtain s where s: "session_rel ld (contents f) s" using session_of_device [OF dev] by blast
  have lp: "length (begin_payload b m c) \<le> 16" by (simp add: begin_payload_def)
  obtain ld1 f1 where one: "host_load api [begin_payload b m c] ld f = Some ([Inr ()], ld1, f1)"
    and i1: "loader_inv ld1" "ld_pending ld1 = None" "healthy f1" "length (contents f1) = length (contents f)"
    and r1: "session_rel ld1 (contents f1) (Transfer b m c [])"
    using host_op [OF inv idle lp _ s h len, of "Begin b m c"] ib by (auto simp: decode_begin_payload)
  obtain ld2 f2 where two: "host_load api (data_payloads 0 chunks) ld1 f1
      = Some (replicate (length chunks) (Inr ()), ld2, f2)"
    and i2: "loader_inv ld2" "ld_pending ld2 = None" "healthy f2" "length (contents f2) = length (contents f)"
    and r2: "session_rel ld2 (contents f2) (Transfer b m c (concat chunks))"
    using host_data [OF i1(1,2) r1 ck _ i1(3)] img len i1(4) by auto
  have st: "ld_state ld2 = Receiving" "ld_bytecode_len ld2 = b" "ld_map_count ld2 = m"
    and rec: "receiving ld2 (contents f2) (concat chunks)" using r2 by simp_all
  then have "unat (ld_next_offset ld2) = unat (ld_image_len ld2)"
    using i2(1) img by (simp add: loader_inv_def transfer_ok_def receiving_def)
  then have full: "ld_next_offset ld2 = ld_image_len ld2" by (rule word_unat_eq_iff [THEN iffD2])
  have nr: "\<not> is_running (ld_state ld2)" and lf: "length finalize_payload \<le> 16" 
    using st by (simp_all add: finalize_payload_def)
  obtain ld' f' where fin: "host_load api [finalize_payload] ld2 f2 = Some ([Inr ()], ld', f')"
    and i3: "loader_inv ld'" "ld_pending ld' = None" "\<not> is_running (ld_state ld')" "healthy f'" "length (contents f') = length (contents f2)"
    and r3: "session_rel ld' (contents f') (session_step (Transfer b m c (concat chunks)) Finalize)"
    using host_op [OF i2(1,2) nr lf decode_finalize_payload [OF st(1) full] r2 i2(3)] len i2(4) by auto
  have "host_load api ([begin_payload b m c] @ data_payloads 0 chunks @ [finalize_payload]) ld f
      = Some (replicate (length chunks + 2) (Inr ()), ld', f')"
    using host_load_appendI [OF one host_load_appendI [OF two fin]] by (simp add: replicate_append_same)
  then show ?thesis using i3 i2(4) r3 by (simp add: load_payloads_def)
qed

end

section \<open>The life of a loader\<close>

text \<open>A state is the loader and the flash. It boots on any device; then requests are accepted,
  deferred work runs (and its flash operations may fail), and a program that returned zero is
  marked running, after \<open>execution_metadata\<close> allowed it. A reset is another boot, on the
  flash as it is.\<close>

inductive loader_run :: "'f bpf_flash \<Rightarrow> bpf_loader \<Rightarrow> 'f \<Rightarrow> bool" for api :: "'f bpf_flash" where
  boot: "validate_committed api loader_new f = Some (ld', f') \<Longrightarrow> loader_run api ld' f'"
| accept: "loader_run api ld f \<Longrightarrow> wf_request r \<Longrightarrow> accepts_load ld r = Some (res, ld')
    \<Longrightarrow> loader_run api ld' f"
| work: "loader_run api ld f \<Longrightarrow> execute_pending api ld f = Some (ld', f') \<Longrightarrow> loader_run api ld' f'"
| start: "loader_run api ld f \<Longrightarrow> execution_metadata ld = Some (Inr md)
    \<Longrightarrow> mark_running ld = (res, ld') \<Longrightarrow> loader_run api ld' f"

lemma device_inv_pending:
  "device_inv (ld\<lparr>ld_pending := p\<rparr>) cs = device_inv ld cs"
proof -
  have "receiving (ld\<lparr>ld_pending := p\<rparr>) = receiving ld" "on_device (ld\<lparr>ld_pending := p\<rparr>) = on_device ld"
    by (intro ext, simp add: receiving_def on_device_def)+
  then show ?thesis by (cases "ld_state ld") (simp_all add: device_inv_def)
qed

lemma loader_inv_running:
  assumes "ld_state ld = Committed c" and "ld_pending ld = None"
  shows "loader_inv (ld\<lparr>ld_state := Running c\<rparr>) = loader_inv ld"
    and "device_inv (ld\<lparr>ld_state := Running c\<rparr>) cs = device_inv ld cs"
  using assms by (auto simp: loader_inv_def program_ok_def device_inv_def on_device_def)

lemma execution_metadata_committed:
  "execution_metadata ld = Some (Inr md) \<Longrightarrow> ld_pending ld = None \<and> (\<exists>c. ld_state ld = Committed c)"
  by (auto simp: execution_metadata_def split: if_splits loader_state.splits)

context nor_flash
begin

lemma boots_to_inv:
  assumes "committed_image cs b m c img" and "boots_to loader_new cs b m c ld'"
  shows "loader_inv ld' \<and> device_inv ld' cs \<and> ld_pending ld' = None \<and> ld_state ld' = Committed c"
proof -
  obtain ls cnt where pl: "placement cs b m = Some (ls, cnt)"
    and ld': "ld' = loader_new\<lparr>ld_state := Committed c, ld_bytecode_len := b, ld_map_count := m,
        ld_map_layouts := ls, ld_committed_map_count := cnt\<rparr>"
    using assms(2) by (auto simp: boots_to_def)
  have ib: "image_bounds b m" using assms(1) by (simp add: committed_image_def)
  have "layouts_ok ls (unat m)" "cnt = m"
    using placement_ok [OF pl] ib by (simp_all add: image_bounds_def)
  then show ?thesis
    using assms(1) ib pl unfolding ld'
    by (auto simp: loader_inv_def program_ok_def layouts_ok_def device_inv_def on_device_def loader_new_def)
qed

lemma boot_inv:
  assumes "validate_committed api loader_new f = Some (ld', f')"
  shows "loader_inv ld' \<and> device_inv ld' (contents f') \<and> contents f' = contents f"
proof -
  have "loader_inv (no_program loader_new s) \<and> device_inv (no_program loader_new s) cs"
    if "s \<in> {Empty, Failed STATUS_FLASH_ERROR}" for s cs
    using that by (auto simp: no_program_def loader_inv_def clear_map_layouts_def empty_layouts_def
        device_inv_def loader_new_def)
  then show ?thesis
    using validate_committed_sound [of loader_new f] assms boots_to_inv by fastforce
qed

lemma loader_run_inv:
  assumes "loader_run api ld f"
  shows "loader_inv ld \<and> device_inv ld (contents f)"
  using assms
proof (induction rule: loader_run.induct)
  case (boot f ld' f')
  then show ?case using boot_inv by blast
next
  case (accept ld f r res ld')
  then show ?case
    using accepts_load_spec [of ld r] by (auto simp: device_inv_pending split: sum.splits)
next
  case (work ld f ld' f')
  then show ?case
    using execute_pending_inv [of ld f] execute_pending_device [of ld f ld' f'] by auto
next
  case (start ld f md res ld')
  then obtain c where c: "ld_pending ld = None" "ld_state ld = Committed c"
    using execution_metadata_committed by blast
  then have "ld' = ld\<lparr>ld_state := Running c\<rparr>" using start(3) by (simp add: mark_running_def)
  then show ?case using start c loader_inv_running by simp
qed

end

text \<open>The payloads that decode to an operation are the ones above.\<close>

definition decodes_to :: "bpf_loader \<Rightarrow> bytes \<Rightarrow> load_operation \<Rightarrow> bool" where
  "decodes_to ld p op \<longleftrightarrow>
     (\<exists>b m c. p = begin_payload b m c \<and> image_bounds b m \<and> op = Begin b m c)
     \<or> (\<exists>chunk. ld_state ld = Receiving \<and> chunk_ok chunk
          \<and> p = data_payload (unat (ld_next_offset ld)) chunk
          \<and> unat (ld_next_offset ld) + length chunk \<le> unat (ld_image_len ld)
          \<and> op = Data (ld_next_offset ld) (chunk @ replicate (12 - length chunk) 0) (of_nat (length chunk)))
     \<or> ld_state ld = Receiving \<and> ld_next_offset ld = ld_image_len ld \<and> p = finalize_payload
          \<and> op = Finalize"

lemma decode_load_begin_only:
  assumes "decode_load ld (0 # rest) = Some (Inr op)"
  shows "\<exists>b m c. 0 # rest = begin_payload b m c \<and> image_bounds b m \<and> op = Begin b m c"
proof -
  from assms have len: "length rest = 7" and dec: "decode_begin (0 # rest) = Inr op"
    by (auto simp: decode_load_def split: if_splits)
  have "rest = map ((!) rest) [0..<7]" using map_nth [of rest] len by metis
  also have "[0..<7] = [0, 1, 2, 3, 4, 5, 6 :: nat]" by (simp add: upt_rec)
  finally obtain b0 b1 m c0 c1 c2 c3 where r: "rest = [b0, b1, m, c0, c1, c2, c3]" by simp
  from dec show ?thesis
    by (intro exI [of _ "from_le_bytes [b0, b1]"] exI [of _ m] exI [of _ "from_le_bytes [c0, c1, c2, c3]"])
       (auto simp: decode_begin_def begin_payload_def r le_bytes_2 le_bytes_4 image_len_eq
         bad_image_bounds_iff Let_def split: if_splits)
qed

lemma decode_load_data_only:
  assumes "decode_load ld (1 # rest) = Some (Inr op)"
  shows "decodes_to ld (1 # rest) op"
proof -
  from assms have len: "4 \<le> length rest" "length rest \<le> 14" and ev: "(length rest - 2) mod 2 = 0"
    and dec: "decode_data ld (1 # rest) = Some (Inr op)"
    by (auto simp: decode_load_def split: if_splits)
  from len(1) have "Suc (Suc 0) \<le> length rest" by simp
  then obtain b0 b1 chunk where r: "rest = b0 # b1 # chunk"
    by (auto simp only: Suc_le_length_iff)
  from ev len have ck: "chunk_ok chunk" by (auto simp: r chunk_ok_def)
  from dec have st: "ld_state ld = Receiving" and off: "from_le_bytes [b0, b1] = ld_next_offset ld"
    and fit: "unat (ld_next_offset ld) + length chunk \<le> unat (ld_image_len ld)"
    and op: "op = Data (ld_next_offset ld) (chunk @ replicate (12 - length chunk) 0) (of_nat (length chunk))"
    using ck by (auto simp: decode_data_def r Let_def copy_into_def chunk_ok_def split: if_splits)
  have "to_le_bytes 2 (ld_next_offset ld) = [b0, b1]" using le_bytes_2 [of b0 b1] off by simp
  then have "1 # rest = data_payload (unat (ld_next_offset ld)) chunk"
    by (simp add: data_payload_def r)
  then show ?thesis using st ck fit op unfolding decodes_to_def by blast
qed

lemma decode_load_iff: "decode_load ld p = Some (Inr op) \<longleftrightarrow> decodes_to ld p op"
proof
  assume d: "decode_load ld p = Some (Inr op)"
  then obtain k rest where p: "p = k # rest" by (cases p) (auto simp: decode_load_def)
  show "decodes_to ld p op"
  proof (cases "k = 0 \<or> k = 1")
    case True
    then show ?thesis
      using d decode_load_begin_only [of ld rest op] decode_load_data_only [of ld rest op] p
      by (auto simp: decodes_to_def)
  next
    case False
    then have "k = 2" "rest = []" "decode_finalize ld = Inr op"
      using d by (auto simp: decode_load_def p split: if_splits)
    then show ?thesis
      by (auto simp: decodes_to_def finalize_payload_def p decode_finalize_def split: if_splits)
  qed
next
  assume "decodes_to ld p op"
  then show "decode_load ld p = Some (Inr op)"
    using decode_data_payload [of ld _ "unat (ld_next_offset ld)"] decode_finalize_payload [of ld]
    by (auto simp: decodes_to_def decode_begin_payload)
qed

section \<open>A device to try things on\<close>

definition sample_image :: bytes where
  "sample_image = [0x95, 0, 0, 0, 0, 0, 0, 0, 1, 0, 0, 0, 4, 0, 0, 0, 4, 0, 0, 0, 2, 0, 0, 0]"

definition sample_crc :: u32 where
  "sample_crc = 0xfa1dd790"

definition sample_flash :: fake_flash where
  "sample_flash = \<lparr>ff_bytes = replicate 24576 0xff @ committed_header 8 1 sample_crc
     @ sample_image @ replicate 8152 0xff, ff_fail_write = False\<rparr>"

lemma sample_image_crc: "crc32_iso_hdlc sample_image = sample_crc"
  by (simp add: sample_image_def sample_crc_def crc32_eval)

lemma sample_flash_slices:
  "slice (ff_bytes sample_flash) 0x6000 0x6010 = Some (committed_header 8 1 sample_crc)"
  "slice (ff_bytes sample_flash) 0x6010 0x6028 = Some sample_image"
  "length (ff_bytes sample_flash) = 0x8000"
proof -
  let ?h = "committed_header 8 1 sample_crc" let ?pre = "replicate 24576 0xff :: bytes"
  let ?post = "replicate 8152 0xff :: bytes"
  have len: "length ?h = 16" "length sample_image = 24"
    by (simp_all only: length_committed_header) (simp add: sample_image_def)
  show "slice (ff_bytes sample_flash) 0x6000 0x6010 = Some ?h"
    unfolding sample_flash_def by (simp only: fake_flash.simps) (rule slice_middle, simp_all add: len)
  have "slice ((?pre @ ?h) @ sample_image @ ?post) 0x6010 0x6028 = Some sample_image"
    by (rule slice_middle) (simp_all add: len)
  then show "slice (ff_bytes sample_flash) 0x6010 0x6028 = Some sample_image"
    unfolding sample_flash_def by (simp only: fake_flash.simps append_assoc)
  show "length (ff_bytes sample_flash) = 0x8000"
    unfolding sample_flash_def by (simp add: len)
qed

lemma sample_maps:
  "image_maps sample_image 8 1
     = Some [\<lparr>ml_offset = 0, ml_len = 8, ml_key_size = 4, ml_value_size = 4\<rparr>]"
  by (simp add: image_maps_def sample_image_def parse_descriptor_def descriptor_word_def
      le_bytes_eval md_valid_def md_layout_def md_bytes_def)

lemma sample_committed: "committed_image (ff_bytes sample_flash) 8 1 sample_crc sample_image"
proof -
  have len: "length sample_image = 24" by (simp add: sample_image_def)
  have img: "slice (ff_bytes sample_flash) 0x6010 (0x6010 + 24) = Some sample_image"
    using sample_flash_slices(2) by (simp only: add_num_simps numeral_plus_numeral)
  have "(24 :: nat) = unat (8 :: u16) + 16 * unat (1 :: u8)" by simp
  from placement_image [OF img this] have "placement (ff_bytes sample_flash) 8 1 \<noteq> None"
    unfolding sample_maps by (simp only: option.map option.simps not_False_eq_True)
  then show ?thesis
    using len sample_flash_slices sample_image_crc
    by (simp add: committed_image_def image_bounds_def)
qed

lemma sample_boots:
  "\<exists>ld' f'. validate_committed fake_api loader_new sample_flash = Some (ld', f')
     \<and> ff_bytes f' = ff_bytes sample_flash \<and> \<not> ff_fail_write f'
     \<and> boots_to loader_new (ff_bytes sample_flash) 8 1 sample_crc ld'"
proof -
  have "\<not> ff_fail_write sample_flash" "0x8000 \<le> length (ff_bytes sample_flash)"
    using sample_flash_slices(3) by (simp_all add: sample_flash_def)
  from fake.validate_committed_total [OF this, of loader_new]
  obtain ld' f' b m c img where v: "validate_committed fake_api loader_new sample_flash = Some (ld', f')"
    "ff_bytes f' = ff_bytes sample_flash" "\<not> ff_fail_write f'"
    and ci: "committed_image (ff_bytes sample_flash) b m c img"
    and bt: "boots_to loader_new (ff_bytes sample_flash) b m c ld'"
    using sample_committed by blast
  from committed_image_unique [OF sample_committed ci] bt have
    "boots_to loader_new (ff_bytes sample_flash) 8 1 sample_crc ld'" by simp
  then show ?thesis using v by blast
qed

lemma sample_run:
  "\<exists>ld f. loader_run fake_api ld f \<and> ld_state ld = Committed sample_crc \<and> ld_pending ld = None
     \<and> \<not> ff_fail_write f \<and> 0x8000 \<le> length (ff_bytes f)"
  using sample_boots fake.boots_to_inv [OF sample_committed] sample_flash_slices(3)
  by (metis loader_run.boot order_refl)

text \<open>What a whole load comes to, from any reachable state of the loader.\<close>

lemma host_load_outcome:
  assumes "reliable_flash api contents healthy" and "loader_run api ld f"
    and "ld_pending ld = None" and "\<not> is_running (ld_state ld)"
    and "healthy f" and "0x8000 \<le> length (contents f)"
    and "image_bounds b m" and "length (concat chunks) = unat b + 16 * unat m"
    and "list_all chunk_ok chunks"
  shows "\<exists>ld' f'. host_load api (load_payloads b m c chunks) ld f
      = Some (replicate (length chunks + 2) (Inr ()), ld', f')
    \<and> (if crc32_iso_hdlc (concat chunks) \<noteq> c then query ld' = Inl STATUS_BAD_CRC
       else if image_maps (concat chunks) b m = None then query ld' = Inl STATUS_BAD_STATE
       else query ld' = Inr c \<and> committed_image (contents f') b m c (concat chunks))"
proof -
  have nor: "nor_flash api contents"
    using assms(1) by (simp add: reliable_flash_def)
  show ?thesis
    using reliable_flash.host_load_session [OF assms(1) _ assms(3,4) _ assms(5-9), of c]
      nor_flash.loader_run_inv [OF nor assms(2)]
    by (fastforce simp: query_def on_device_def split: if_splits)
qed

section \<open>Properties\<close>

text \<open>C16: The boot check and the flash agree: on a healthy device the check changes no byte, and
  Query BPF then answers a CRC exactly when the device holds a committed image with that CRC;
  otherwise it answers NO_PROGRAM.\<close>

theorem boot_finds_committed_image:
  assumes "reliable_flash api contents healthy" and "healthy f" and "0x8000 \<le> length (contents f)"
  shows "\<exists>ld' f'. validate_committed api loader_new f = Some (ld', f') \<and> contents f' = contents f
    \<and> (\<forall>c. query ld' = Inr c \<longleftrightarrow> (\<exists>b m img. committed_image (contents f) b m c img))
    \<and> ((\<nexists>b m c img. committed_image (contents f) b m c img) = (query ld' = Inl STATUS_NO_PROGRAM))"
proof -
  obtain ld' f' where v: "validate_committed api loader_new f = Some (ld', f')" "contents f' = contents f"
    and or: "ld' = no_program loader_new Empty \<and> (\<nexists>b m c img. committed_image (contents f) b m c img)
      \<or> (\<exists>b m c img. committed_image (contents f) b m c img \<and> boots_to loader_new (contents f) b m c ld')"
    using reliable_flash.validate_committed_total [OF assms, of loader_new]
    by (elim exE conjE) (rule that)
  from or show ?thesis
  proof
    assume "ld' = no_program loader_new Empty \<and> (\<nexists>b m c img. committed_image (contents f) b m c img)"
    then show ?thesis using v
      by (auto simp: query_def no_program_def clear_map_layouts_def loader_new_def)
  next
    assume "\<exists>b m c img. committed_image (contents f) b m c img \<and> boots_to loader_new (contents f) b m c ld'"
    then obtain b m c img where ci: "committed_image (contents f) b m c img"
      and "boots_to loader_new (contents f) b m c ld'" by blast
    then have q: "query ld' = Inr c" by (auto simp: boots_to_def query_def loader_new_def)
    have "query ld' = Inr k \<longleftrightarrow> (\<exists>b m img. committed_image (contents f) b m k img)" for k
    proof
      assume "query ld' = Inr k"
      then show "\<exists>b m img. committed_image (contents f) b m k img" using q ci by auto
    next
      assume "\<exists>b m img. committed_image (contents f) b m k img"
      then have "k = c" using committed_image_unique [OF ci] by blast
      then show "query ld' = Inr k" using q by simp
    qed
    moreover have "\<exists>b m c img. committed_image (contents f) b m c img" using ci by blast
    moreover have "query ld' \<noteq> Inl STATUS_NO_PROGRAM" using q by simp
    ultimately show ?thesis using v by (intro exI [of _ ld'] exI [of _ f']) blast
  qed
qed

theorem boot_finds_committed_image_witness:
  "\<exists>ld' f'. validate_committed fake_api loader_new sample_flash = Some (ld', f')
     \<and> query ld' = Inr sample_crc"
proof -
  have "\<not> ff_fail_write sample_flash" "0x8000 \<le> length (ff_bytes sample_flash)"
    using sample_flash_slices(3) by (simp_all add: sample_flash_def)
  from boot_finds_committed_image [OF fake.reliable_flash_axioms this] sample_committed
  show ?thesis by blast
qed

text \<open>C4: Whatever the flash does - any read, program or erase may fail at any time - a program the
  loader reports is on the flash: if Query BPF answers a CRC in any reachable state, the device
  holds a committed image with that CRC and lengths, and the loader's map table is the placement
  the image declares.\<close>

theorem reported_program_is_on_flash:
  assumes "nor_flash api contents" and "loader_run api ld f" and "query ld = Inr c"
  shows "\<exists>img. committed_image (contents f) (ld_bytecode_len ld) (ld_map_count ld) c img
    \<and> image_maps img (ld_bytecode_len ld) (ld_map_count ld)
        = Some (take (unat (ld_committed_map_count ld)) (ld_map_layouts ld))
    \<and> ld_committed_map_count ld = ld_map_count ld"
proof -
  have dev: "device_inv ld (contents f)"
    using nor_flash.loader_run_inv [OF assms(1,2)] by blast
  from assms(3) have "ld_state ld = Committed c \<or> ld_state ld = Running c"
    by (auto simp: query_def split: if_splits loader_state.splits)
  then obtain img where od: "on_device ld (contents f) c img"
    using dev by (auto simp: device_inv_def)
  then have ci: "committed_image (contents f) (ld_bytecode_len ld) (ld_map_count ld) c img"
    and pl: "placement (contents f) (ld_bytecode_len ld) (ld_map_count ld)
        = Some (ld_map_layouts ld, ld_committed_map_count ld)"
    by (simp_all add: on_device_def)
  have "slice (contents f) 0x6010 (0x6010 + length img) = Some img"
    and "length img = unat (ld_bytecode_len ld) + 16 * unat (ld_map_count ld)"
    using ci unfolding committed_image_def by blast+
  from placement_image [OF this]
  have "map_option (\<lambda>ls. (stored_layouts (ld_map_count ld) ls, ld_map_count ld))
      (image_maps img (ld_bytecode_len ld) (ld_map_count ld))
    = Some (ld_map_layouts ld, ld_committed_map_count ld)"
    unfolding pl by simp
  then obtain ls where ls: "image_maps img (ld_bytecode_len ld) (ld_map_count ld) = Some ls"
    and st: "ld_map_layouts ld = stored_layouts (ld_map_count ld) ls"
      "ld_committed_map_count ld = ld_map_count ld"
    unfolding map_option_eq_Some prod.inject by metis
  have "length ls = unat (ld_map_count ld)"
    using layouts_spec_placed ls by (fastforce simp: image_maps_def)
  then show ?thesis using ci ls st by (auto simp: stored_layouts_def)
qed

theorem reported_program_is_on_flash_witness:
  "\<exists>ld f img. loader_run fake_api ld f \<and> query ld = Inr sample_crc
     \<and> committed_image (ff_bytes f) (ld_bytecode_len ld) (ld_map_count ld) sample_crc img"
proof -
  obtain ld f where r: "loader_run fake_api ld f" "ld_state ld = Committed sample_crc" "ld_pending ld = None"
    using sample_run by blast
  then have q: "query ld = Inr sample_crc" by (simp add: query_def)
  obtain img where "committed_image (ff_bytes f) (ld_bytecode_len ld) (ld_map_count ld) sample_crc img"
    using reported_program_is_on_flash [OF fake.nor_flash_axioms r(1) q] by (elim exE conjE) (rule that)
  with r(1) q show ?thesis by (intro exI [of _ ld] exI [of _ f] exI [of _ img]) simp
qed

text \<open>C5: Power loss during a transfer is safe: from any reachable state in which a transfer is in
  progress (the Begin done, the commit marker not yet programmed), a reset finds no program, even
  if the reads of the boot check fail.\<close>

theorem power_loss_in_transfer:
  assumes "nor_flash api contents" and "loader_run api ld f" and "ld_state ld = Receiving"
  shows "\<exists>ld' f'. validate_committed api loader_new f = Some (ld', f') \<and> contents f' = contents f
    \<and> query ld' \<in> {Inl STATUS_NO_PROGRAM, Inl STATUS_FLASH_ERROR}
    \<and> execution_metadata ld' \<in> {Some (Inl STATUS_NO_PROGRAM), Some (Inl STATUS_FLASH_ERROR)}"
proof -
  have "device_inv ld (contents f)"
    using nor_flash.loader_run_inv [OF assms(1,2)] by blast
  then obtain received where "receiving ld (contents f) received"
    using assms(3) by (auto simp: device_inv_def)
  from nor_flash.validate_after_receiving [OF assms(1) this, of loader_new]
  obtain ld' f' s where "validate_committed api loader_new f = Some (ld', f')" "contents f' = contents f"
    and ld': "ld' = no_program loader_new s" "s = Empty \<or> s = Failed STATUS_FLASH_ERROR"
    by blast
  moreover have "ld_pending ld' = None" "ld_state ld' = s"
    by (simp_all add: ld'(1) no_program_def clear_map_layouts_def loader_new_def)
  then have "query ld' \<in> {Inl STATUS_NO_PROGRAM, Inl STATUS_FLASH_ERROR}"
    and "execution_metadata ld' \<in> {Some (Inl STATUS_NO_PROGRAM), Some (Inl STATUS_FLASH_ERROR)}"
    using ld'(2) by (auto simp: query_def execution_metadata_def)
  ultimately show ?thesis by blast
qed

theorem power_loss_in_transfer_witness:
  "\<exists>ld f ld' f'. loader_run fake_api ld f \<and> ld_state ld = Receiving
     \<and> validate_committed fake_api loader_new f = Some (ld', f')
     \<and> query ld' \<in> {Inl STATUS_NO_PROGRAM, Inl STATUS_FLASH_ERROR}"
proof -
  obtain ld f where r: "loader_run fake_api ld f" "ld_state ld = Committed sample_crc"
    "ld_pending ld = None" "\<not> ff_fail_write f" "0x8000 \<le> length (ff_bytes f)"
    using sample_run by blast
  let ?r = "load_request (begin_payload 8 1 sample_crc)"
  let ?ld = "ld\<lparr>ld_pending := Some (Begin 8 1 sample_crc)\<rparr>"
  have lp: "length (begin_payload 8 1 sample_crc) \<le> 16" by (simp add: begin_payload_def)
  have ib: "image_bounds 8 1" by (simp add: image_bounds_def)
  have "accepts_load ld ?r = Some (Inr (), ?ld)"
    using r ib by (intro accepts_decoded [OF _ _ lp]) (simp_all add: decode_begin_payload)
  from loader_run.accept [OF r(1) load_request_wf(1) [OF lp] this]
  have run: "loader_run fake_api ?ld f" .
  obtain ld1 f1 where b: "loader_begin fake_api (ld\<lparr>ld_pending := None\<rparr>) f 8 1 sample_crc = (ld1, f1)"
    "ld_state ld1 = Receiving"
    using fake.begin_total [OF ib r(4,5), of "ld\<lparr>ld_pending := None\<rparr>" sample_crc]
    by (elim exE conjE) (rule that)
  then have "execute_pending fake_api ?ld f = Some (ld1, f1)" by (simp add: execute_pending_def)
  from loader_run.work [OF run this] have run1: "loader_run fake_api ld1 f1" .
  obtain ld' f' where "validate_committed fake_api loader_new f1 = Some (ld', f')"
    "query ld' \<in> {Inl STATUS_NO_PROGRAM, Inl STATUS_FLASH_ERROR}"
    using power_loss_in_transfer [OF fake.nor_flash_axioms run1 b(2)] by (elim exE conjE) (rule that)
  with b(2) run1 show ?thesis
    by (intro exI [of _ ld1] exI [of _ f1] exI [of _ ld'] exI [of _ f']) simp
qed

text \<open>C17: A committed program survives a reset: from any reachable state that reports a program, the
  boot check on a healthy device restores the same CRC, bytecode length and map table.\<close>

theorem program_survives_reset:
  assumes "reliable_flash api contents healthy" and "loader_run api ld f" and "query ld = Inr c"
    and "healthy f" and "0x8000 \<le> length (contents f)"
  shows "\<exists>ld' f'. validate_committed api loader_new f = Some (ld', f') \<and> query ld' = Inr c
    \<and> ld_bytecode_len ld' = ld_bytecode_len ld \<and> ld_map_layouts ld' = ld_map_layouts ld
    \<and> ld_committed_map_count ld' = ld_committed_map_count ld"
proof -
  have nor: "nor_flash api contents" using assms(1) by (simp add: reliable_flash_def)
  from assms(3) have "ld_state ld = Committed c \<or> ld_state ld = Running c"
    by (auto simp: query_def split: if_splits loader_state.splits)
  then obtain img where od: "on_device ld (contents f) c img"
    using nor_flash.loader_run_inv [OF nor assms(2)] by (auto simp: device_inv_def)
  then have ci: "committed_image (contents f) (ld_bytecode_len ld) (ld_map_count ld) c img"
    and pl: "placement (contents f) (ld_bytecode_len ld) (ld_map_count ld)
        = Some (ld_map_layouts ld, ld_committed_map_count ld)"
    by (simp_all add: on_device_def)
  obtain ld' f' where v: "validate_committed api loader_new f = Some (ld', f')"
    and or: "ld' = no_program loader_new Empty \<and> (\<nexists>b m c img. committed_image (contents f) b m c img)
      \<or> (\<exists>b m c img. committed_image (contents f) b m c img \<and> boots_to loader_new (contents f) b m c ld')"
    using reliable_flash.validate_committed_total [OF assms(1,4,5), of loader_new]
    by (elim exE conjE) (rule that)
  from or ci obtain b m c' img' where ci': "committed_image (contents f) b m c' img'"
    and bt: "boots_to loader_new (contents f) b m c' ld'" by metis
  from committed_image_unique [OF ci ci'] bt
  have "boots_to loader_new (contents f) (ld_bytecode_len ld) (ld_map_count ld) c ld'" by simp
  then have "ld' = loader_new\<lparr>ld_state := Committed c, ld_bytecode_len := ld_bytecode_len ld,
      ld_map_count := ld_map_count ld, ld_map_layouts := ld_map_layouts ld,
      ld_committed_map_count := ld_committed_map_count ld\<rparr>"
    using pl by (simp add: boots_to_def)
  then show ?thesis using v by (simp add: query_def loader_new_def)
qed

theorem program_survives_reset_witness:
  "\<exists>ld f ld' f'. loader_run fake_api ld f \<and> query ld = Inr sample_crc
     \<and> validate_committed fake_api loader_new f = Some (ld', f') \<and> query ld' = Inr sample_crc"
proof -
  obtain ld f where r: "loader_run fake_api ld f" "ld_state ld = Committed sample_crc" "ld_pending ld = None"
    "\<not> ff_fail_write f" "0x8000 \<le> length (ff_bytes f)"
    using sample_run by blast
  then have q: "query ld = Inr sample_crc" by (simp add: query_def)
  obtain ld' f' where "validate_committed fake_api loader_new f = Some (ld', f')" "query ld' = Inr sample_crc"
    using program_survives_reset [OF fake.reliable_flash_axioms r(1) q r(4,5)]
    by (elim exE conjE) (rule that)
  with r(1) q show ?thesis
    by (intro exI [of _ ld] exI [of _ f] exI [of _ ld'] exI [of _ f']) simp
qed

text \<open>C18: Exactly these Load requests are accepted: nothing while an operation is pending or a program
  runs; a Begin whose lengths are within bounds; a Data at the next offset whose 2 to 12 bytes, an
  even number, stay inside the image; a Finalize when the whole image has arrived. Acceptance only
  fills the pending slot, with the operation the payload encodes; a rejection changes nothing.\<close>

theorem accepts_load_accepts:
  assumes "loader_inv ld" and "wf_request r"
  shows "\<exists>res ld'. accepts_load ld r = Some (res, ld')
    \<and> (isl res \<longrightarrow> ld' = ld)
    \<and> (\<not> isl res \<longleftrightarrow> ld_pending ld = None \<and> \<not> is_running (ld_state ld)
       \<and> (\<exists>op. decodes_to ld (request_body r) op \<and> ld' = ld\<lparr>ld_pending := Some op\<rparr>))"
proof -
  have sl: "slice (req_payload r) 0 (unat (req_payload_len r)) = Some (request_body r)"
    using assms(2) by (simp add: wf_request_def slice_def request_body_def)
  obtain dec where dec: "decode_load ld (request_body r) = Some dec"
    using decode_load_total by blast
  show ?thesis
  proof (cases "ld_pending ld \<noteq> None \<or> is_running (ld_state ld)")
    case True
    then show ?thesis by (auto simp: accepts_load_def)
  next
    case False
    have only: "decodes_to ld (request_body r) op \<longleftrightarrow> dec = Inr op" for op
      unfolding decode_load_iff [symmetric] using dec by simp
    show ?thesis using False dec sl by (cases dec) (auto simp: accepts_load_def only)
  qed
qed

theorem accepts_load_accepts_witness:
  "\<exists>ld'. accepts_load loader_new (load_request (begin_payload 8 1 5)) = Some (Inr (), ld')
     \<and> (\<exists>op. decodes_to loader_new (begin_payload 8 1 5) op \<and> ld' = loader_new\<lparr>ld_pending := Some op\<rparr>)"
proof -
  have lp: "length (begin_payload 8 1 5) \<le> 16" by (simp add: begin_payload_def)
  have "decodes_to loader_new (begin_payload 8 1 5) (Begin 8 1 5)"
    unfolding decodes_to_def by (intro disjI1 exI conjI refl) (simp_all add: image_bounds_def)
  moreover have "ld_pending loader_new = None" "\<not> is_running (ld_state loader_new)"
    by (simp_all add: loader_new_def)
  ultimately show ?thesis
    using accepts_load_accepts [OF loader_inv_new load_request_wf(1) [OF lp]]
      accepts_decoded [OF _ _ lp] decode_load_iff load_request_wf(2) [OF lp] by fastforce
qed

end
