(* ===== verification/Device.thy ===== *)
theory Device
  imports Dispatch Host_Load
begin

text \<open>
  The device as the host sees it, without flash, buffers, RAM addresses or a scheduler: a status
  message, the load session with the bytes received so far, one queued job, and the contents of the
  maps. \<open>device_answer\<close> says what each request is answered and what it changes. The dispatcher
  of \<^verbatim>\<open>crates/optibridge-protocol/src/lib.rs\<close> is shown to implement it.
\<close>

section \<open>The device\<close>

text \<open>The work a Load request queues. A chunk carries no offset: it continues the bytes received.\<close>

datatype job = Install u16 u8 u32 | Append bytes | Complete

record device =
  dv_message :: bytes
  dv_session :: session
  dv_started :: bool
  dv_job :: "job option"
  dv_maps :: "bytes list"
  dv_executing :: bool
  dv_reset :: bool

type_synonym answer = "u8 \<times> bytes \<times> device"

fun programmed :: "session \<Rightarrow> bool" where
  "programmed (Programmed _ _ _ _) = True"
| "programmed _ = False"

definition image_size :: "u16 \<Rightarrow> u8 \<Rightarrow> nat" where
  "image_size b m = unat b + 16 * unat m"

fun append_job :: "session \<Rightarrow> nat \<Rightarrow> bytes \<Rightarrow> (u8, job) rust_result" where
  "append_job (Transfer b m c received) off chunk =
     (if off \<noteq> length received then Inl STATUS_BAD_STATE
      else if length received + length chunk > image_size b m then Inl STATUS_BAD_LENGTH
      else Inr (Append chunk))"
| "append_job _ _ _ = Inl STATUS_BAD_STATE"

fun complete_job :: "session \<Rightarrow> (u8, job) rust_result" where
  "complete_job (Transfer b m c received) =
     (if length received = image_size b m then Inr Complete else Inl STATUS_BAD_STATE)"
| "complete_job _ = Inl STATUS_BAD_STATE"

definition install_job :: "u16 \<Rightarrow> u8 \<Rightarrow> u32 \<Rightarrow> (u8, job) rust_result" where
  "install_job b m c = (if image_bounds b m then Inr (Install b m c) else Inl STATUS_BAD_LENGTH)"

definition load_job :: "session \<Rightarrow> bytes \<Rightarrow> (u8, job) rust_result" where
  "load_job s body =
     (case body of
        [] \<Rightarrow> Inl STATUS_BAD_COMMAND
      | k # args \<Rightarrow>
        if k = 0 \<and> length args = 7
        then install_job (from_le_bytes [args ! 0, args ! 1]) (args ! 2)
               (from_le_bytes [args ! 3, args ! 4, args ! 5, args ! 6])
        else if k = 1 \<and> 2 \<le> length args \<and> chunk_ok (drop 2 args)
        then append_job s (unat (from_le_bytes [args ! 0, args ! 1] :: u16)) (drop 2 args)
        else if k = 2 \<and> args = [] then complete_job s
        else Inl (if k \<le> 2 then STATUS_BAD_LENGTH else STATUS_BAD_COMMAND))"

section \<open>What the device answers\<close>

definition load_answer :: "device \<Rightarrow> bytes \<Rightarrow> answer" where
  "load_answer d body =
     (if dv_job d \<noteq> None then (STATUS_BUSY, [], d)
      else if dv_started d then (STATUS_BAD_STATE, [], d)
      else case load_job (dv_session d) body of
        Inl status \<Rightarrow> (status, [], d)
      | Inr job \<Rightarrow> (STATUS_OK, [], d\<lparr>dv_job := Some job\<rparr>))"

text \<open>The status of an access to \<open>n\<close> bytes at \<open>off\<close> of map \<open>i\<close>.\<close>

definition map_access_status :: "device \<Rightarrow> nat \<Rightarrow> nat \<Rightarrow> nat \<Rightarrow> u8" where
  "map_access_status d i off n =
     (if \<not> programmed (dv_session d) then STATUS_NO_PROGRAM
      else if i \<ge> length (dv_maps d) then STATUS_BAD_COMMAND
      else if off + n > length (dv_maps d ! i) then STATUS_BAD_LENGTH
      else STATUS_OK)"

definition read_answer :: "device \<Rightarrow> bytes \<Rightarrow> answer" where
  "read_answer d body =
     (if length body \<noteq> 4 then (STATUS_BAD_LENGTH, [], d)
      else
        let i = unat (body ! 0); off = unat (from_le_bytes [body ! 1, body ! 2] :: u16); n = unat (body ! 3) in
        if n = 0 \<or> n > MAX_PAYLOAD then (STATUS_BAD_LENGTH, [], d)
        else let status = map_access_status d i off n in
          (status, if status = STATUS_OK then take n (drop off (dv_maps d ! i)) else [], d))"

definition write_answer :: "device \<Rightarrow> bytes \<Rightarrow> answer" where
  "write_answer d body =
     (if length body < 3 then (STATUS_BAD_LENGTH, [], d)
      else
        let w = unat (from_le_bytes [body ! 0, body ! 1] :: u16); data = drop 2 body in
        if w \<ge> 8 * 1024 then (STATUS_BAD_LENGTH, [], d)
        else
          let i = w div 1024; off = w mod 1024; status = map_access_status d i off (length data) in
          (status, [], if status = STATUS_OK
             then d\<lparr>dv_maps := (dv_maps d)[i := patch (dv_maps d ! i) off data]\<rparr> else d))"

text \<open>A Start that runs nothing, and a Query.\<close>

fun session_status :: "session \<Rightarrow> u8" where
  "session_status (Programmed _ _ _ _) = STATUS_OK"
| "session_status (Rejected status) = status"
| "session_status _ = STATUS_NO_PROGRAM"

definition refused_answer :: "device \<Rightarrow> bytes \<Rightarrow> answer" where
  "refused_answer d body =
     (if body \<noteq> [] then STATUS_BAD_LENGTH
      else if dv_job d \<noteq> None then STATUS_BUSY
      else if dv_started d then STATUS_BAD_STATE
      else session_status (dv_session d), [], d)"

definition query_answer :: "device \<Rightarrow> bytes \<Rightarrow> answer" where
  "query_answer d body =
     (if body \<noteq> [] then (STATUS_BAD_LENGTH, [], d)
      else if dv_job d \<noteq> None then (STATUS_BUSY, [], d)
      else case dv_session d of
        Programmed b m c img \<Rightarrow> (STATUS_OK, to_le_bytes 4 c, d)
      | s \<Rightarrow> (session_status s, [], d))"

definition status_answer :: "device \<Rightarrow> bytes \<Rightarrow> answer" where
  "status_answer d body =
     (if body \<noteq> [] then (STATUS_BAD_LENGTH, [], d) else (STATUS_OK, dv_message d, d\<lparr>dv_message := []\<rparr>))"

text \<open>The answer to a request that neither resets the device nor runs the program.\<close>

definition device_answer :: "device \<Rightarrow> request \<Rightarrow> answer" where
  "device_answer d r =
     (let body = request_body r in
      if req_flags r \<noteq> 0 then (STATUS_BAD_FLAGS, [], d)
      else if req_command r = CMD_LOAD_BPF then load_answer d body
      else if req_command r = CMD_READ_BPF_MAP then read_answer d body
      else if req_command r = CMD_WRITE_BPF_MAP then write_answer d body
      else if req_command r = CMD_START_BPF then refused_answer d body
      else if req_command r = CMD_QUERY_BPF_CRC then query_answer d body
      else if req_command r = CMD_READ_STATUS then status_answer d body
      else if req_command r = CMD_RESET then (STATUS_BAD_LENGTH, [], d)
      else (STATUS_BAD_COMMAND, [], d))"

definition runnable :: "device \<Rightarrow> bool" where
  "runnable d \<longleftrightarrow> dv_job d = None \<and> \<not> dv_started d \<and> programmed (dv_session d)"

section \<open>The device of a state of the firmware\<close>

fun job_of :: "load_operation \<Rightarrow> job" where
  "job_of (Begin b m c) = Install b m c"
| "job_of (Data off bs len) = Append (take (unat len) bs)"
| "job_of Finalize = Complete"

definition message_of :: "status_queue \<Rightarrow> bytes" where
  "message_of q = take (unat (sq_newest_len q)) (sq_newest q)"

definition reflects :: "device \<Rightarrow> bytes \<Rightarrow> 'w dispatch_state \<Rightarrow> bool" where
  "reflects d flash s \<longleftrightarrow> session_rel (ds_loader s) flash (dv_session d)
     \<and> dv_started d = is_running (ld_state (ds_loader s))
     \<and> dv_job d = map_option job_of (ld_pending (ds_loader s))
     \<and> dv_message d = message_of (ds_queue s)
     \<and> dv_maps d = (if has_program (ld_state (ds_loader s)) then host_view (ds_loader s) (ds_backing s) else [])"

text \<open>A handler that gives an answer of the device.\<close>

definition gives :: "request \<Rightarrow> bytes \<Rightarrow> 'w dispatch_state \<Rightarrow> answer \<Rightarrow> 'w handler_result \<Rightarrow> bool" where
  "gives r flash s ans res \<longleftrightarrow> (\<exists>outcome s'. res = Some (outcome, s') \<and> dispatch_wf s'
     \<and> ds_world s' = ds_world s \<and> replies s' outcome (fst ans) (req_sequence r) (fst (snd ans))
     \<and> reflects (snd (snd ans)) flash s')"

lemma respond_gives:
  assumes "dispatch_wf s'" and "ds_world s' = ds_world s" and "length payload \<le> MAX_PAYLOAD"
    and "reflects d flash s'"
  shows "gives r flash s (status, payload, d) (respond r s' status payload)"
proof -
  have "length (ds_output s') = MAX_FRAME" using assms(1) by (simp add: dispatch_wf_def)
  from respond_replies [OF this assms(3), of r status]
  obtain outcome out where o: "respond r s' status payload = Some (outcome, s'\<lparr>ds_output := out\<rparr>)"
    "length out = MAX_FRAME" "replies (s'\<lparr>ds_output := out\<rparr>) outcome status (req_sequence r) payload"
    by blast
  moreover have "dispatch_wf (s'\<lparr>ds_output := out\<rparr>)" "reflects d flash (s'\<lparr>ds_output := out\<rparr>)"
    using assms(1,4) o(2) by (simp_all add: dispatch_wf_def reflects_def)
  ultimately show ?thesis using assms(2) unfolding gives_def
    by (intro exI [of _ outcome] exI [of _ "s'\<lparr>ds_output := out\<rparr>"]) simp
qed

lemma respond_gives_same:
  assumes "dispatch_wf s" and "reflects d flash s"
  shows "gives r flash s (status, [], d) (respond r s status [])"
  using assms by (intro respond_gives) simp_all

lemma session_rel_iff:
  assumes "session_rel ld flash s"
  shows "programmed s = has_program (ld_state ld)"
    and "(\<exists>b m c received. s = Transfer b m c received) \<longleftrightarrow> ld_state ld = Receiving"
    and "\<not> has_program (ld_state ld) \<Longrightarrow> session_status s
      = (case ld_state ld of Failed status \<Rightarrow> status | _ \<Rightarrow> STATUS_NO_PROGRAM)"
  using assms by (cases s; auto)+

section \<open>Loading\<close>

lemma transfer_sizes:
  assumes "loader_inv ld" and "session_rel ld flash (Transfer b m c received)"
  shows "length received = unat (ld_next_offset ld)" and "image_size b m = unat (ld_image_len ld)"
  using assms by (auto simp: loader_inv_def transfer_ok_def receiving_def image_size_def)

lemma decode_append:
  assumes "loader_inv ld" and "session_rel ld flash s" and "chunk_ok chunk"
  shows "\<exists>dec. decode_data ld (k # x # y # chunk) = Some dec
    \<and> append_job s (unat (from_le_bytes [x, y] :: u16)) chunk = map_sum id job_of dec"
proof (cases "ld_state ld = Receiving")
  case False
  then have "append_job s (unat (from_le_bytes [x, y] :: u16)) chunk = Inl STATUS_BAD_STATE"
    using session_rel_iff(2) [OF assms(2)] by (cases s) simp_all
  then show ?thesis using False by (simp add: decode_data_def)
next
  case True
  then obtain b m c received where s: "s = Transfer b m c received"
    using session_rel_iff(2) [OF assms(2)] by blast
  note sz = transfer_sizes [OF assms(1) assms(2) [unfolded s]]
  let ?off = "from_le_bytes [x, y] :: u16"
  have ck: "length chunk \<le> 12" "unat (of_nat (length chunk) :: u8) = length chunk"
    using assms(3) by (auto simp: chunk_ok_def intro!: unat_of_nat_id)
  then have copy: "copy_into (replicate 12 0) 0 chunk = Some (chunk @ replicate (12 - length chunk) 0)"
    by (simp add: copy_into_def)
  show ?thesis
  proof (cases "?off = ld_next_offset ld")
    case False
    then have "unat ?off \<noteq> length received" by (metis sz(1) word_unat_eq_iff)
    then show ?thesis using False True by (simp add: decode_data_def s Let_def)
  next
    case same: True
    show ?thesis
      using True ck copy by (simp add: decode_data_def s sz Let_def same)
  qed
qed

lemma decode_complete:
  assumes "loader_inv ld" and "session_rel ld flash s"
  shows "complete_job s = map_sum id job_of (decode_finalize ld)"
proof (cases "ld_state ld = Receiving")
  case False
  then show ?thesis using session_rel_iff(2) [OF assms(2)] by (cases s) (simp_all add: decode_finalize_def)
next
  case True
  then obtain b m c received where s: "s = Transfer b m c received"
    using session_rel_iff(2) [OF assms(2)] by blast
  note sz = transfer_sizes [OF assms(1) assms(2) [unfolded this]]
  then have "length received = image_size b m \<longleftrightarrow> ld_next_offset ld = ld_image_len ld"
    by (metis word_unat_eq_iff)
  then show ?thesis using True by (simp add: s decode_finalize_def)
qed

lemma decode_install:
  assumes "length args = 7"
  shows "install_job (from_le_bytes [args ! 0, args ! 1]) (args ! 2)
      (from_le_bytes [args ! 3, args ! 4, args ! 5, args ! 6]) = map_sum id job_of (decode_begin (0 # args))"
  by (simp add: install_job_def decode_begin_def Let_def image_len_eq bad_image_bounds_iff)

lemma decode_load_job:
  assumes "loader_inv ld" and "session_rel ld flash s"
  shows "\<exists>dec. decode_load ld body = Some dec \<and> load_job s body = map_sum id job_of dec"
proof (cases body)
  case Nil
  then show ?thesis by (simp add: decode_load_def load_job_def)
next
  case (Cons k args)
  consider "k = 0 \<and> length args = 7" | "k = 1 \<and> 2 \<le> length args \<and> chunk_ok (drop 2 args)"
    | "k = 2 \<and> args = []" | "\<not> (k = 0 \<and> length args = 7)"
      "\<not> (k = 1 \<and> 2 \<le> length args \<and> chunk_ok (drop 2 args))" "\<not> (k = 2 \<and> args = [])" by blast
  then show ?thesis
  proof cases
    case 1
    then show ?thesis using decode_install [of args] by (simp add: Cons decode_load_def load_job_def)
  next
    case 2
    then obtain x y chunk where a: "args = x # y # chunk"
      by (cases args rule: list.exhaust [case_product]) (auto simp: Suc_le_length_iff numeral_2_eq_2)
    have "chunk_ok chunk" using 2 by (simp add: a)
    moreover from this have "2 \<le> length chunk \<and> length chunk \<le> 12 \<and> length chunk mod 2 = 0"
      by (auto simp: chunk_ok_def)
    ultimately show ?thesis
      using decode_append [OF assms, of chunk k x y] 2 by (simp add: Cons a decode_load_def load_job_def)
  next
    case 3
    then show ?thesis using decode_complete [OF assms] by (simp add: Cons decode_load_def load_job_def)
  next
    case 4
    have "\<not> (k = 1 \<and> 5 \<le> length body \<and> length body \<le> 15 \<and> (length body - 3) mod 2 = 0)"
    proof (rule notI, elim conjE)
      assume k: "k = 1" and len: "5 \<le> length body" "length body \<le> 15" and ev: "(length body - 3) mod 2 = 0"
      have "length body - 3 = length args - 2" by (simp add: Cons)
      then have "even (length args - 2)" using ev by (simp only: even_iff_mod_2_eq_zero)
      moreover have "4 \<le> length args" "length args \<le> 14" using len by (simp_all add: Cons)
      then have "2 \<le> length args" "2 \<le> length args - 2" "length args - 2 \<le> 12" by linarith+
      ultimately have "k = 1 \<and> 2 \<le> length args \<and> chunk_ok (drop 2 args)" using k by (simp add: chunk_ok_def)
      with 4(2) show False ..
    qed
    then show ?thesis using 4 by (auto simp: Cons decode_load_def load_job_def)
  qed
qed


lemma handle_load_gives:
  assumes "dispatch_wf s" and "wf_request r" and "reflects d flash s"
  shows "gives r flash s (load_answer d (request_body r)) (handle_load r s)"
proof -
  let ?ld = "ds_loader s"
  have rel: "session_rel ?ld flash (dv_session d)" "dv_job d = map_option job_of (ld_pending ?ld)"
    "dv_started d = is_running (ld_state ?ld)" using assms(3) by (simp_all add: reflects_def)
  have inv: "loader_inv ?ld" using assms(1) by (simp add: dispatch_wf_def)
  note same = respond_gives_same [OF assms(1,3)]
  have sl: "slice (req_payload r) 0 (unat (req_payload_len r)) = Some (request_body r)"
    using assms(2) by (simp add: wf_request_def slice_def request_body_def)
  show ?thesis
  proof (cases "dv_job d \<noteq> None \<or> dv_started d")
    case True
    then show ?thesis using same rel(2,3) by (auto simp: handle_load_def accepts_load_def load_answer_def)
  next
    case False
    obtain dec where dec: "decode_load ?ld (request_body r) = Some dec"
      "load_job (dv_session d) (request_body r) = map_sum id job_of dec"
      using decode_load_job [OF inv rel(1)] by blast
    show ?thesis
    proof (cases dec)
      case (Inl status)
      then show ?thesis
        using False same rel dec sl by (simp add: handle_load_def accepts_load_def load_answer_def)
    next
      case (Inr op)
      let ?s = "s\<lparr>ds_loader := ?ld\<lparr>ld_pending := Some op\<rparr>\<rparr>"
      have st: "ld_state ?ld \<noteq> Running c" for c using False rel(3) by auto
      then have li: "loader_inv (?ld\<lparr>ld_pending := Some op\<rparr>)"
        using inv decode_load_ok [of ?ld "request_body r" op] dec(1) Inr False rel(3)
        by (simp add: loader_inv_def pending_ok_update state_ok_pending)
      have "session_rel (?ld\<lparr>ld_pending := Some op\<rparr>) flash = session_rel ?ld flash"
        by (rule ext, rename_tac x, case_tac x) (simp_all add: receiving_def on_device_def)
      then have "reflects (d\<lparr>dv_job := Some (job_of op)\<rparr>) flash ?s"
        using assms(3) by (simp add: reflects_def host_view_def)
      moreover have "dispatch_wf ?s" using assms(1) li by (simp add: dispatch_wf_def)
      ultimately have "gives r flash s (STATUS_OK, [], d\<lparr>dv_job := Some (job_of op)\<rparr>) (respond r ?s STATUS_OK [])"
        by (intro respond_gives) simp_all
      then show ?thesis
        using False rel dec sl Inr by (simp add: handle_load_def accepts_load_def load_answer_def)
    qed
  qed
qed

section \<open>Map access\<close>

lemma reflects_maps:
  assumes "reflects d flash s"
  shows "programmed (dv_session d) = has_program (ld_state (ds_loader s))"
    and "has_program (ld_state (ds_loader s)) \<Longrightarrow> dv_maps d = host_view (ds_loader s) (ds_backing s)"
    and "has_program (ld_state (ds_loader s)) \<Longrightarrow> length (dv_maps d) = unat (ld_committed_map_count (ds_loader s))"
  using assms session_rel_iff(1) [of "ds_loader s" flash "dv_session d"]
  by (simp_all add: reflects_def host_view_def)

lemma request_fields:
  assumes "wf_request r"
  shows "length (request_body r) = unat (req_payload_len r)"
    and "i < length (request_body r) \<Longrightarrow> request_body r ! i = req_payload r ! i"
    and "request_body r = [] \<longleftrightarrow> req_payload_len r = 0"
  using assms by (auto simp: request_body_def wf_request_def unat_eq_zero)

lemma handle_read_gives:
  assumes "dispatch_wf s" and "wf_request r" and "reflects d flash s"
  shows "gives r flash s (read_answer d (request_body r)) (handle_read_map r s)"
proof (cases "req_payload_len r = 4")
  case False
  then have "length (request_body r) \<noteq> 4"
    using request_fields(1) [OF assms(2)] word_unat_eq_iff [of "req_payload_len r" 4] by simp
  then show ?thesis
    using False respond_gives_same [OF assms(1,3)] by (simp add: read_answer_def handle_read_map_def)
next
  case True
  let ?p = "req_payload r" let ?ld = "ds_loader s"
  let ?off = "from_le_bytes [?p ! 1, ?p ! 2] :: u16"
  have len: "length (request_body r) = 4" using True request_fields(1) [OF assms(2)] by simp
  have body: "request_body r ! i = ?p ! i" if "i < 4" for i
    using request_fields(2) [OF assms(2)] len that by simp
  have wf: "loader_inv ?ld" "length (ds_backing s) = 1024" using assms(1) by (simp_all add: dispatch_wf_def)
  note rm = read_map_spec [OF wf, of "?p ! 0" ?off "?p ! 3"]
  note maps = reflects_maps [OF assms(3)]
  have n0: "?p ! 3 = 0 \<longleftrightarrow> unat (?p ! 3) = 0" by (simp add: unat_eq_zero)
  have "read_answer d (request_body r)
      = (case read_map ?ld (?p ! 0) ?off (?p ! 3) (ds_backing s) of Inl status \<Rightarrow> (status, [], d)
         | Inr bs \<Rightarrow> (STATUS_OK, bs, d))"
    unfolding rm using maps
    by (auto simp: read_answer_def len body Let_def map_access_status_def n0 word_le_nat_alt status_codes)
  moreover have "gives r flash s (STATUS_OK, bs, d) (respond r s STATUS_OK bs)"
    if "read_map ?ld (?p ! 0) ?off (?p ! 3) (ds_backing s) = Inr bs" for bs
    using read_map_length [OF that] assms by (intro respond_gives) simp_all
  ultimately show ?thesis
    using True respond_gives_same [OF assms(1,3)]
    by (simp add: handle_read_map_def Let_def split: sum.split)
qed

lemma reserved_bits:
  fixes w :: u16
  shows "w AND 0xe000 = 0 \<longleftrightarrow> unat w < 8192"
proof
  assume z: "w AND 0xe000 = 0"
  have "\<not> bit w n" if "13 \<le> n" "n < 16" for n
  proof
    assume "bit w n"
    moreover have "n = 13 \<or> n = 14 \<or> n = 15" using that by linarith
    then have "bit (0xe000 :: u16) n" by (elim disjE) simp_all
    ultimately show False using z by (metis bit_and_iff bit_0_eq bot_apply bot_bool_def)
  qed
  then have "take_bit 13 w = w"
    by (intro bit_word_eqI) (use linorder_not_less in \<open>auto simp: bit_take_bit_iff\<close>)
  then have "unat w = take_bit 13 (unat w)" by (metis unsigned_take_bit_eq)
  also have "\<dots> < 2 ^ 13" by (rule take_bit_nat_less_exp)
  finally show "unat w < 8192" by simp
next
  assume "unat w < 8192"
  then have "w = map_location (unat w div 1024) (unat w mod 1024)" "unat w div 1024 < 8"
    by (simp_all add: map_location_def)
  then show "w AND 0xe000 = 0" using map_location_decode(1) [of "unat w div 1024" "unat w mod 1024"] by simp
qed

lemma location_parts:
  fixes w :: u16
  assumes "unat w < 8192"
  shows "unat (ucast (drop_bit 10 w AND 0x07) :: u8) = unat w div 1024" and "unat (w AND 0x03ff) = unat w mod 1024"
proof -
  have "w = map_location (unat w div 1024) (unat w mod 1024)" "unat w div 1024 < 8" "unat w mod 1024 < 1024"
    using assms by (simp_all add: map_location_def)
  then show "unat (ucast (drop_bit 10 w AND 0x07) :: u8) = unat w div 1024" "unat (w AND 0x03ff) = unat w mod 1024"
    using map_location_decode(2,3) [of "unat w div 1024" "unat w mod 1024"] by simp_all
qed

lemma reflects_write:
  assumes "reflects d flash s" and "has_program (ld_state (ds_loader s))"
    and "host_view (ds_loader s) backing = maps"
  shows "reflects (d\<lparr>dv_maps := maps\<rparr>) flash (s\<lparr>ds_backing := backing\<rparr>)"
  using assms by (simp add: reflects_def)

lemma handle_write_gives:
  assumes "dispatch_wf s" and "wf_request r" and "reflects d flash s"
  shows "gives r flash s (write_answer d (request_body r)) (handle_write_map r s)"
proof (cases "length (request_body r) < 3")
  case True
  then have "req_payload_len r < MAP_WRITE_LOCATION_SIZE + 1"
    using request_fields(1) [OF assms(2)] by (simp add: MAP_WRITE_LOCATION_SIZE_def word_less_nat_alt)
  then show ?thesis
    using True respond_gives_same [OF assms(1,3)] by (simp add: write_answer_def handle_write_map_def)
next
  case False
  let ?p = "req_payload r" let ?ld = "ds_loader s" let ?body = "request_body r"
  let ?w = "from_le_bytes [?p ! 0, ?p ! 1] :: u16"
  have len: "\<not> req_payload_len r < MAP_WRITE_LOCATION_SIZE + 1" "3 \<le> length ?body" "length ?body \<le> 16"
    using False assms(2) request_fields(1) [OF assms(2)]
    by (simp_all add: MAP_WRITE_LOCATION_SIZE_def word_less_nat_alt wf_request_def)
  have body: "?body ! 0 = ?p ! 0" "?body ! 1 = ?p ! 1"
    by (rule request_fields(2) [OF assms(2)], use len in linarith)+
  have sl: "slice ?p (unat MAP_WRITE_LOCATION_SIZE) (unat (req_payload_len r)) = Some (drop 2 ?body)"
    using assms(2) len request_fields(1) [OF assms(2)]
    by (auto simp: slice_def MAP_WRITE_LOCATION_SIZE_def request_body_def wf_request_def drop_take)
  show ?thesis
  proof (cases "unat ?w < 8192")
    case False
    then show ?thesis
      using respond_gives_same [OF assms(1,3)] len reserved_bits [of ?w] body
      by (simp add: write_answer_def handle_write_map_def Let_def)
  next
    case True
    let ?i = "ucast (drop_bit 10 ?w AND 0x07) :: u8" let ?off = "?w AND 0x03ff" let ?data = "drop 2 ?body"
    note parts = location_parts [OF True] and maps = reflects_maps [OF assms(3)]
    have wf: "loader_inv ?ld" "length (ds_backing s) = 1024" using assms(1) by (simp_all add: dispatch_wf_def)
    have data: "?data \<noteq> []" "length ?data \<le> 14" using len by auto
    obtain res backing where w: "write_map ?ld ?i ?off ?data (ds_backing s) = (res, backing)"
      and lb: "length backing = 1024"
      and res: "res = (if ?data = [] \<or> 14 < length ?data then Inl STATUS_BAD_LENGTH
         else if \<not> has_program (ld_state ?ld) then Inl STATUS_NO_PROGRAM
         else if ?i \<ge> ld_committed_map_count ?ld then Inl STATUS_BAD_COMMAND
         else if unat ?off + length ?data > length (host_view ?ld (ds_backing s) ! unat ?i)
         then Inl STATUS_BAD_LENGTH else Inr ())"
      and view: "if res = Inr () then host_view ?ld backing = (host_view ?ld (ds_backing s))
           [unat ?i := patch (host_view ?ld (ds_backing s) ! unat ?i) (unat ?off) ?data]
         else backing = ds_backing s"
      using write_map_spec [OF wf, of ?i ?off ?data] by blast
    let ?st = "map_access_status d (unat ?w div 1024) (unat ?w mod 1024) (length ?data)"
    have st: "res = (if ?st = STATUS_OK then Inr () else Inl ?st)"
      using data maps unfolding res parts
      by (auto simp: map_access_status_def word_le_nat_alt parts status_codes simp del: One_nat_def)
    have h: "handle_write_map r s = (case res of
        Inr _ \<Rightarrow> respond r (s\<lparr>ds_backing := backing\<rparr>) STATUS_OK []
      | Inl status \<Rightarrow> respond r (s\<lparr>ds_backing := backing\<rparr>) status [])"
      using len(1) sl w True reserved_bits [of ?w] by (simp add: handle_write_map_def Let_def split: sum.split)
    have ans: "write_answer d ?body = (?st, [], if ?st = STATUS_OK
        then d\<lparr>dv_maps := (dv_maps d)[unat ?w div 1024 := patch (dv_maps d ! (unat ?w div 1024)) (unat ?w mod 1024) ?data]\<rparr>
        else d)"
      using False True body by (simp add: write_answer_def Let_def)
    show ?thesis
    proof (cases "?st = STATUS_OK")
      case False
      then have "backing = ds_backing s" "res = Inl ?st" using st view by simp_all
      then show ?thesis using respond_gives_same [OF assms(1,3)] False unfolding h ans by simp
    next
      case True
      then have "has_program (ld_state ?ld)" using maps(1)
        by (simp add: map_access_status_def status_codes split: if_splits)
      moreover have "host_view ?ld backing = (dv_maps d)
          [unat ?w div 1024 := patch (dv_maps d ! (unat ?w div 1024)) (unat ?w mod 1024) ?data]"
        using view st True maps(2) calculation by (simp add: parts del: One_nat_def)
      ultimately have "reflects (d\<lparr>dv_maps := (dv_maps d)
          [unat ?w div 1024 := patch (dv_maps d ! (unat ?w div 1024)) (unat ?w mod 1024) ?data]\<rparr>) flash
          (s\<lparr>ds_backing := backing\<rparr>)"
        by (rule reflects_write [OF assms(3)])
      moreover have "dispatch_wf (s\<lparr>ds_backing := backing\<rparr>)" using assms(1) lb by (simp add: dispatch_wf_def)
      ultimately show ?thesis unfolding h ans using True st by (auto intro: respond_gives)
    qed
  qed
qed

section \<open>The other requests\<close>

lemma query_session:
  assumes "reflects d flash s"
  shows "query (ds_loader s) = (if dv_job d \<noteq> None then Inl STATUS_BUSY else case dv_session d of
      Programmed b m c img \<Rightarrow> Inr c | x \<Rightarrow> Inl (session_status x))"
  using assms by (cases "dv_session d") (auto simp: reflects_def query_def)

lemma handle_query_gives:
  assumes "dispatch_wf s" and "wf_request r" and "reflects d flash s"
  shows "gives r flash s (query_answer d (request_body r)) (handle_query r s)"
proof -
  note same = respond_gives_same [OF assms(1,3)] and body = request_fields(3) [OF assms(2)]
  have "gives r flash s (STATUS_OK, to_le_bytes 4 c, d) (respond r s STATUS_OK (to_le_bytes 4 c))" for c :: u32
    using assms by (intro respond_gives) simp_all
  then show ?thesis
    using same body query_session [OF assms(3)]
    by (cases "dv_session d") (auto simp: handle_query_def query_answer_def)
qed

lemma handle_start_gives:
  assumes "dispatch_wf s" and "wf_request r" and "reflects d flash s"
    and "request_body r \<noteq> [] \<or> \<not> runnable d"
  shows "gives r flash s (refused_answer d (request_body r)) (handle_start execute r s)"
proof (cases "request_body r = []")
  case False
  then show ?thesis
    using respond_gives_same [OF assms(1,3)] request_fields(3) [OF assms(2)]
    by (simp add: handle_start_def refused_answer_def)
next
  case True
  let ?ld = "ds_loader s"
  have rel: "session_rel ?ld flash (dv_session d)" "dv_job d = map_option job_of (ld_pending ?ld)"
    "dv_started d = is_running (ld_state ?ld)" using assms(3) by (simp_all add: reflects_def)
  have "loader_inv ?ld" using assms(1) by (simp add: dispatch_wf_def)
  then have "execution_metadata ?ld = Some (Inl (fst (refused_answer d [])))"
    using assms(4) True rel execution_metadata_value [of ?ld]
    by (cases "dv_session d") (auto simp: refused_answer_def runnable_def)
  then show ?thesis
    using True respond_gives_same [OF assms(1,3)] request_fields(3) [OF assms(2)]
    by (simp add: handle_start_def refused_answer_def)
qed

lemma dispatch_gives:
  assumes "dispatch_wf s" and "wf_request r" and "reflects d flash s" and "\<not> resets r"
    and "req_command r \<notin> {CMD_LOAD_BPF, CMD_READ_BPF_MAP, CMD_WRITE_BPF_MAP, CMD_START_BPF, CMD_QUERY_BPF_CRC}"
    and "req_flags r = 0"
  shows "gives r flash s (device_answer d r) (dispatch r s)"
proof -
  note same = respond_gives_same [OF assms(1,3)] and body = request_fields(3) [OF assms(2)]
  let ?q = "ds_queue s" let ?q' = "?q\<lparr>sq_newest_len := 0\<rparr>"
  have q: "status_queue_wf ?q" using assms(1) by (simp add: dispatch_wf_def)
  then have pop: "status_queue_pop ?q = Some (message_of ?q, ?q')"
    by (simp add: status_queue_pop_def status_queue_wf_def slice_def message_of_def)
  have "reflects (d\<lparr>dv_message := []\<rparr>) flash (s\<lparr>ds_queue := ?q'\<rparr>)"
    using assms(3) by (simp add: reflects_def message_of_def)
  moreover have "dispatch_wf (s\<lparr>ds_queue := ?q'\<rparr>)" using assms(1) by (simp add: dispatch_wf_def status_queue_wf_def)
  moreover have "length (message_of ?q) \<le> MAX_PAYLOAD" using q by (simp add: message_of_def status_queue_wf_def)
  ultimately have "gives r flash s (STATUS_OK, message_of ?q, d\<lparr>dv_message := []\<rparr>)
      (respond r (s\<lparr>ds_queue := ?q'\<rparr>) STATUS_OK (message_of ?q))"
    by (intro respond_gives) simp_all
  moreover have "dv_message d = message_of ?q" using assms(3) by (simp add: reflects_def)
  ultimately show ?thesis
    using assms(4-6) same body pop
    by (auto simp: dispatch_def device_answer_def status_answer_def resets_def command_codes)
qed

theorem dispatch_refines_device:
  assumes "dispatch_wf s" and "wf_request r" and "reflects d flash s"
    and "\<not> resets r" and "\<not> (starts r \<and> runnable d)"
  shows "gives r flash s (device_answer d r) (dispatch_with_bpf_and_executor execute r s)"
proof -
  note arms = handle_load_gives [OF assms(1-3)] handle_read_gives [OF assms(1-3)] handle_write_gives [OF assms(1-3)]
    handle_query_gives [OF assms(1-3)] respond_gives_same [OF assms(1,3)]
  have "gives r flash s (refused_answer d (request_body r)) (handle_start execute r s)"
    if "req_command r = CMD_START_BPF" "req_flags r = 0"
    using that assms(5) request_fields(3) [OF assms(2)]
    by (intro handle_start_gives [OF assms(1-3)]) (auto simp: starts_def)
  moreover note arms dispatch_gives [OF assms(1-4)]
  ultimately show ?thesis
    by (auto simp: dispatch_with_bpf_and_executor_def device_answer_def Let_def)
qed

end
