(* ===== verification/Map_Helpers.thy ===== *)
theory Map_Helpers
  imports Dispatch
begin

text \<open>
  Array maps as a program sees them: \<^verbatim>\<open>firmware/optibridge/src/map_helpers.rs\<close>. An entry
  is a value of fixed size at \<open>index * value_size\<close>; \<open>value_range\<close> computes its range
  with checked arithmetic and refuses one that leaves the map. Lookups and updates of entries are
  ranged accesses to the same byte arrays the host reads and writes.
\<close>

section \<open>The functions of the file\<close>

definition HELPER_ERROR :: u64 where "HELPER_ERROR = 0xffffffffffffffff"

definition value_range :: "bpf_map_metadata \<Rightarrow> u32 \<Rightarrow> (nat \<times> nat) option" where
  "value_range m entry =
     (if mm_key_size m \<noteq> 4 then None
      else
        let value_size = unat (mm_value_size m) in
        do {
          offset \<leftarrow> usize_mul (unat entry) value_size;
          stop \<leftarrow> usize_add offset value_size;
          if stop > unat (mm_backing_len m) then None else Some (offset, stop)
        })"

definition lookup :: "bpf_map_metadata \<Rightarrow> u32 \<Rightarrow> bytes \<Rightarrow> bytes option" where
  "lookup m entry backing = do {
     (first, stop) \<leftarrow> value_range m entry;
     let start = unat (mm_backing_offset m);
     slice backing (start + first) (start + stop)
   }"

definition update :: "bpf_map_metadata \<Rightarrow> u32 \<Rightarrow> bytes \<Rightarrow> bytes \<Rightarrow> bytes option" where
  "update m entry value backing =
     (if length value \<noteq> unat (mm_value_size m) then None
      else do {
        (first, stop) \<leftarrow> value_range m entry;
        let start = unat (mm_backing_offset m);
        dest \<leftarrow> slice backing (start + first) (start + stop);
        copy_into backing (start + first) value
      })"

lemma value_range_iff:
  "value_range m e = Some r \<longleftrightarrow> mm_key_size m = 4
     \<and> unat e * unat (mm_value_size m) + unat (mm_value_size m) \<le> unat (mm_backing_len m)
     \<and> r = (unat e * unat (mm_value_size m), unat e * unat (mm_value_size m) + unat (mm_value_size m))"
  using unat_u16_less [of "mm_backing_len m"]
  by (auto simp: value_range_def Let_def usize_mul_def usize_add_def bind_some_iff split: if_splits)

section \<open>The program's view of the maps\<close>

definition metadata_layout :: "bpf_map_metadata \<Rightarrow> map_layout" where
  "metadata_layout m = \<lparr>ml_offset = mm_backing_offset m, ml_len = mm_backing_len m,
     ml_key_size = mm_key_size m, ml_value_size = mm_value_size m\<rparr>"

definition program_layouts :: "bpf_program_metadata \<Rightarrow> map_layout list" where
  "program_layouts md = map metadata_layout (pm_maps md)"

definition program_view :: "bpf_program_metadata \<Rightarrow> bytes \<Rightarrow> bytes list" where
  "program_view md backing = maps_view (program_layouts md) (unat (pm_map_count md)) backing"

definition metadata_ok :: "bpf_program_metadata \<Rightarrow> bool" where
  "metadata_ok md \<longleftrightarrow> layouts_ok (program_layouts md) (unat (pm_map_count md))"

lemma metadata_layout_inverse [simp]: "metadata_layout (layout_metadata l) = l"
  by (cases l) (simp add: metadata_layout_def layout_metadata_def)

lemma metadata_layout_simps [simp]:
  "ml_offset (metadata_layout m) = mm_backing_offset m" "ml_len (metadata_layout m) = mm_backing_len m"
  "ml_key_size (metadata_layout m) = mm_key_size m" "ml_value_size (metadata_layout m) = mm_value_size m"
  by (simp_all add: metadata_layout_def)

lemma length_program_view [simp]: "length (program_view md backing) = unat (pm_map_count md)"
  by (simp add: program_view_def)

lemma metadata_ok_nth:
  assumes "metadata_ok md" and "i < unat (pm_map_count md)"
  shows "i < length (pm_maps md)" and "program_layouts md ! i = metadata_layout (pm_maps md ! i)"
    and "0 < unat (mm_backing_len (pm_maps md ! i))"
    and "unat (mm_backing_offset (pm_maps md ! i)) + unat (mm_backing_len (pm_maps md ! i)) \<le> 1024"
    and "mm_key_size (pm_maps md ! i) = 4" and "0 < unat (mm_value_size (pm_maps md ! i))"
    and "unat (mm_value_size (pm_maps md ! i)) dvd unat (mm_backing_len (pm_maps md ! i))"
proof -
  show "i < length (pm_maps md)"
    using assms by (simp add: metadata_ok_def layouts_ok_def program_layouts_def)
  then show e: "program_layouts md ! i = metadata_layout (pm_maps md ! i)"
    by (simp add: program_layouts_def)
  show "0 < unat (mm_backing_len (pm_maps md ! i))"
    "unat (mm_backing_offset (pm_maps md ! i)) + unat (mm_backing_len (pm_maps md ! i)) \<le> 1024"
    "mm_key_size (pm_maps md ! i) = 4" "0 < unat (mm_value_size (pm_maps md ! i))"
    "unat (mm_value_size (pm_maps md ! i)) dvd unat (mm_backing_len (pm_maps md ! i))"
    using layouts_ok_nth [of "program_layouts md" "unat (pm_map_count md)" i] assms
    unfolding metadata_ok_def e by simp_all
qed

text \<open>The metadata of a committed program describes the same byte arrays as the loader.\<close>

lemma program_metadata_view:
  assumes "loader_inv ld" and "has_program (ld_state ld)"
  shows "metadata_ok (program_metadata ld)"
    and "program_view (program_metadata ld) backing = host_view ld backing"
proof -
  note ok = has_program_layouts [OF assms]
  let ?n = "unat (ld_committed_map_count ld)"
  have lay: "program_layouts (program_metadata ld) ! i = ld_map_layouts ld ! i" if "i < ?n" for i
    using that ok(2) by (simp add: program_layouts_def program_metadata_def nth_append)
  have len: "length (program_layouts (program_metadata ld)) = 8"
    using ok by (simp add: program_layouts_def program_metadata_def layouts_ok_def)
  have "take ?n (program_layouts (program_metadata ld)) = take ?n (ld_map_layouts ld)"
    using lay len ok by (intro nth_equalityI) (auto simp: layouts_ok_def)
  then show "metadata_ok (program_metadata ld)"
    using ok(1) len by (simp add: metadata_ok_def layouts_ok_def program_metadata_def)
  show "program_view (program_metadata ld) backing = host_view ld backing"
    unfolding program_view_def host_view_def
    using lay by (intro nth_equalityI) (auto simp: maps_view_nth program_metadata_def)
qed

lemma program_view_nth:
  assumes "metadata_ok md" and "i < unat (pm_map_count md)"
  shows "program_view md backing ! i = map_bytes (metadata_layout (pm_maps md ! i)) backing"
    and "length backing = 1024 \<Longrightarrow>
      length (program_view md backing ! i) = unat (mm_backing_len (pm_maps md ! i))"
  using assms metadata_ok_nth(2) [OF assms] length_map_bytes [of "program_layouts md" _ i backing]
  by (simp_all add: program_view_def maps_view_nth metadata_ok_def)

text \<open>A value of a map is a slice of its byte array.\<close>

lemma lookup_view:
  assumes "metadata_ok md" and "i < unat (pm_map_count md)" and "length backing = 1024"
  shows "lookup (pm_maps md ! i) e backing =
    (let vs = unat (mm_value_size (pm_maps md ! i)); off = unat e * vs in
     if off + vs \<le> length (program_view md backing ! i)
     then Some (take vs (drop off (program_view md backing ! i))) else None)"
proof -
  let ?m = "pm_maps md ! i" let ?vs = "unat (mm_value_size ?m)" let ?off = "unat e * ?vs"
  note nth = metadata_ok_nth [OF assms(1,2)]
  note pv = program_view_nth(1) [OF assms(1,2), of backing] program_view_nth(2) [OF assms(1,2,3)]
  show ?thesis
  proof (cases "?off + ?vs \<le> unat (mm_backing_len ?m)")
    case True
    then have "value_range ?m e = Some (?off, ?off + ?vs)" using nth by (simp add: value_range_iff)
    moreover have "take ?vs (drop (unat (mm_backing_offset ?m) + ?off) backing)
        = take ?vs (drop ?off (map_bytes (metadata_layout ?m) backing))"
      using True by (simp add: map_bytes_def take_take_drop_sub ac_simps)
    ultimately show ?thesis
      using True nth(4) assms(3) pv by (simp add: lookup_def slice_def Let_def)
  next
    case False
    then have "value_range ?m e = None"
      by (cases "value_range ?m e") (auto simp: value_range_iff)
    then show ?thesis using False pv by (simp add: lookup_def Let_def)
  qed
qed

lemma update_view:
  assumes "metadata_ok md" and "i < unat (pm_map_count md)" and "length backing = 1024"
  shows "let vs = unat (mm_value_size (pm_maps md ! i)); off = unat e * vs in
    case update (pm_maps md ! i) e v backing of
      None \<Rightarrow> \<not> (length v = vs \<and> off + vs \<le> length (program_view md backing ! i))
    | Some backing' \<Rightarrow> length v = vs \<and> off + vs \<le> length (program_view md backing ! i)
        \<and> length backing' = 1024
        \<and> program_view md backing'
          = (program_view md backing)[i := patch (program_view md backing ! i) off v]"
proof -
  let ?m = "pm_maps md ! i" let ?vs = "unat (mm_value_size ?m)" let ?off = "unat e * ?vs"
  note nth = metadata_ok_nth [OF assms(1,2)]
  note pv = program_view_nth(2) [OF assms(1,2,3)]
  show ?thesis
  proof (cases "length v = ?vs \<and> ?off + ?vs \<le> unat (mm_backing_len ?m)")
    case True
    then have "value_range ?m e = Some (?off, ?off + ?vs)" using nth by (simp add: value_range_iff)
    moreover have "slice backing (unat (mm_backing_offset ?m) + ?off)
        (unat (mm_backing_offset ?m) + (?off + ?vs)) \<noteq> None"
      using True nth(4) assms(3) by (simp add: slice_def)
    moreover obtain backing' where "copy_into backing (unat (mm_backing_offset ?m) + ?off) v = Some backing'"
      "length backing' = 1024" "program_view md backing'
          = (program_view md backing)[i := patch (program_view md backing ! i) ?off v]"
      using copy_into_map [of "program_layouts md" "unat (pm_map_count md)" i backing "?off" v] assms True
      unfolding program_view_def metadata_ok_def nth(2) by auto
    ultimately show ?thesis using True pv by (auto simp: update_def Let_def)
  next
    case False
    then have "update ?m e v backing = None"
      by (cases "value_range ?m e") (auto simp: update_def value_range_iff)
    then show ?thesis using False pv by (simp add: Let_def)
  qed
qed

section \<open>Values as ranged accesses\<close>

definition value_width :: "bpf_program_metadata \<Rightarrow> nat \<Rightarrow> nat" where
  "value_width md i = unat (mm_value_size (pm_maps md ! i))"

definition whole_value :: "bpf_program_metadata \<times> bytes \<Rightarrow> nat \<Rightarrow> nat \<Rightarrow> nat \<Rightarrow> bool" where
  "whole_value s i off n \<longleftrightarrow> i < unat (pm_map_count (fst s)) \<and> n = value_width (fst s) i \<and> n dvd off"

definition program_ok_state :: "bpf_program_metadata \<times> bytes \<Rightarrow> bool" where
  "program_ok_state s \<longleftrightarrow> metadata_ok (fst s) \<and> length (snd s) = 1024"

definition program_read :: "bpf_program_metadata \<times> bytes \<Rightarrow> nat \<Rightarrow> nat \<Rightarrow> nat \<Rightarrow> bytes option" where
  "program_read s i off n =
     (if whole_value s i off n \<and> off < 65536
      then lookup (pm_maps (fst s) ! i) (of_nat (off div n)) (snd s) else None)"

definition program_write ::
    "bpf_program_metadata \<times> bytes \<Rightarrow> nat \<Rightarrow> nat \<Rightarrow> bytes \<Rightarrow> (bpf_program_metadata \<times> bytes) option" where
  "program_write s i off bs =
     (if whole_value s i off (length bs) \<and> off < 65536
      then map_option (Pair (fst s)) (update (pm_maps (fst s) ! i) (of_nat (off div length bs)) bs (snd s))
      else None)"

lemma whole_value_index:
  assumes "whole_value s i off n" and "off < 65536"
  shows "unat (of_nat (off div n) :: u32) * unat (mm_value_size (pm_maps (fst s) ! i)) = off"
proof -
  have "off div n < 65536" using div_le_dividend [of off n] assms(2) by (rule le_less_trans)
  then have "unat (of_nat (off div n) :: u32) = off div n" by (intro unat_of_nat_id) simp
  then show ?thesis using assms(1) by (auto simp: whole_value_def value_width_def)
qed

lemma program_view_bound:
  assumes "program_ok_state s" and "i < length (program_view (fst s) (snd s))"
    and "off + n \<le> length (program_view (fst s) (snd s) ! i)"
  shows "off < 65536"
  using assms unat_u16_less [of "mm_backing_len (pm_maps (fst s) ! i)"]
  by (auto simp: program_ok_state_def program_view_nth(2) whole_value_def dest!: metadata_ok_nth(4))

lemma program_read_spec:
  assumes "program_ok_state s"
  shows "program_read s i off n = (if whole_value s i off n \<and> i < length (program_view (fst s) (snd s))
      \<and> off + n \<le> length (program_view (fst s) (snd s) ! i)
    then Some (take n (drop off (program_view (fst s) (snd s) ! i))) else None)"
proof (cases "whole_value s i off n \<and> off < 65536")
  case False
  then show ?thesis using program_view_bound [OF assms, of i off n] by (auto simp: program_read_def)
next
  case True
  then have i: "i < unat (pm_map_count (fst s))" and n: "n = unat (mm_value_size (pm_maps (fst s) ! i))"
    by (simp_all add: whole_value_def value_width_def)
  have "lookup (pm_maps (fst s) ! i) (of_nat (off div n)) (snd s)
      = (if off + n \<le> length (program_view (fst s) (snd s) ! i)
         then Some (take n (drop off (program_view (fst s) (snd s) ! i))) else None)"
    using lookup_view [OF _ i, of "snd s" "of_nat (off div n)"] assms whole_value_index [of s i off n] True
    unfolding program_ok_state_def n [symmetric] by (auto simp: Let_def)
  then show ?thesis using True i by (simp add: program_read_def)
qed

lemma program_write_spec:
  assumes "program_ok_state s"
  shows "case program_write s i off bs of
      None \<Rightarrow> \<not> (whole_value s i off (length bs) \<and> i < length (program_view (fst s) (snd s))
          \<and> off + length bs \<le> length (program_view (fst s) (snd s) ! i))
    | Some s' \<Rightarrow> whole_value s i off (length bs) \<and> i < length (program_view (fst s) (snd s))
          \<and> off + length bs \<le> length (program_view (fst s) (snd s) ! i) \<and> program_ok_state s'
          \<and> whole_value s' = whole_value s
          \<and> program_view (fst s') (snd s')
            = (program_view (fst s) (snd s))[i := patch (program_view (fst s) (snd s) ! i) off bs]"
proof (cases "whole_value s i off (length bs) \<and> off < 65536")
  case False
  then show ?thesis
    using program_view_bound [OF assms, of i off "length bs"] by (auto simp: program_write_def)
next
  case True
  then have i: "i < unat (pm_map_count (fst s))" and n: "unat (mm_value_size (pm_maps (fst s) ! i)) = length bs"
    by (simp_all add: whole_value_def value_width_def)
  have "metadata_ok (fst s)" "length (snd s) = 1024" using assms by (simp_all add: program_ok_state_def)
  from update_view [OF this(1) i this(2), of "of_nat (off div length bs)" bs]
  show ?thesis using True i assms whole_value_index [of s i off "length bs"]
    by (auto simp: program_write_def program_ok_state_def whole_value_def Let_def n fun_eq_iff
        split: option.splits)
qed

interpretation prog: byte_maps "\<lambda>s. program_view (fst s) (snd s)" program_read program_write
  whole_value whole_value program_ok_state
  by unfold_locales (erule program_read_spec, erule program_write_spec)

section \<open>Properties\<close>

text \<open>Both writes are the same copy.\<close>

lemma host_write_copy:
  assumes "host_write s i off bs = Some s'"
  shows "copy_into (snd s) (unat (ml_offset (ld_map_layouts (fst s) ! i)) + off) bs = Some (snd s')"
    and "fst s' = fst s"
proof -
  from assms have small: "i < 256" "off < 65536" by (simp_all add: host_write_def split: if_splits)
  then have u: "unat (of_nat i :: u8) = i" "unat (of_nat off :: u16) = off"
    by (simp_all add: unat_of_nat_id)
  show "copy_into (snd s) (unat (ml_offset (ld_map_layouts (fst s) ! i)) + off) bs = Some (snd s')"
    "fst s' = fst s"
    using assms small
    by (auto simp: host_write_def write_map_def Let_def u get_at_def split: if_splits option.splits)
qed

lemma update_copy:
  assumes "update m e bs backing = Some backing'"
  shows "copy_into backing (unat (mm_backing_offset m) + unat e * unat (mm_value_size m)) bs = Some backing'"
  using assms by (auto simp: update_def Let_def bind_some_iff value_range_iff split: if_splits)

lemma program_metadata_nth:
  assumes "loader_inv ld" and "has_program (ld_state ld)" and "i < unat (ld_committed_map_count ld)"
  shows "pm_maps (program_metadata ld) ! i = layout_metadata (ld_map_layouts ld ! i)"
  using has_program_layouts(2) [OF assms(1,2)] assms(3)
  by (simp add: program_metadata_def nth_append)

text \<open>An entry of a byte array, before and after a patch inside one entry.\<close>

lemma patched_entry:
  assumes "e * n + n \<le> length v" and "k + length bs \<le> n"
  shows "take n (drop (e * n) (patch v (e * n + k) bs)) = patch (take n (drop (e * n) v)) k bs"
  using assms by (intro nth_equalityI) (auto simp: length_patch patch_nth)

lemma other_entry:
  assumes "e * n + n \<le> length v" and "k + length bs \<le> n" and "e' \<noteq> e" and "e' * n + n \<le> length v"
  shows "take n (drop (e' * n) (patch v (e * n + k) bs)) = take n (drop (e' * n) v)"
proof -
  have "e' * n + n \<le> e * n \<or> e * n + n \<le> e' * n"
    using assms(3) by (metis add.commute mult_Suc mult_le_mono1 nat_neq_iff Suc_leI)
  then show ?thesis using assms by (intro nth_equalityI) (auto simp: length_patch patch_nth)
qed

text \<open>What one map's entries are after a patch inside entry \<open>e\<close> of its byte array.\<close>

lemma lookup_after_patch:
  assumes "metadata_ok md" and "i < unat (pm_map_count md)" and "length backing = 1024" and "length backing' = 1024"
    and "m = pm_maps md ! i" and "n = unat (mm_value_size m)"
    and "unat e * n + n \<le> unat (mm_backing_len m)" and "k + length bs \<le> n"
    and "program_view md backing' = (program_view md backing)
      [i := patch (program_view md backing ! i) (unat e * n + k) bs]"
  shows "\<exists>old. lookup m e backing = Some old \<and> length old = n \<and> lookup m e backing' = Some (patch old k bs)"
    and "e' \<noteq> e \<Longrightarrow> lookup m e' backing' = lookup m e' backing"
proof -
  let ?v = "program_view md backing ! i"
  have l: "length ?v = unat (mm_backing_len m)" "length (program_view md backing' ! i) = unat (mm_backing_len m)"
    using program_view_nth(2) [OF assms(1,2)] assms(3-5) by simp_all
  have "i < length (program_view md backing)" using assms(2) by (simp add: program_view_def)
  then have v': "program_view md backing' ! i = patch ?v (unat e * n + k) bs" using assms(9) by simp
  have look: "lookup m x b = (if unat x * n + n \<le> length (program_view md b ! i)
      then Some (take n (drop (unat x * n) (program_view md b ! i))) else None)" if "length b = 1024" for x b
    using lookup_view [OF assms(1,2) that, of x] assms(5,6) by (simp add: Let_def)
  have fit: "unat e * n + n \<le> length ?v" using assms(7) l(1) by simp
  then have "lookup m e backing' = Some (patch (take n (drop (unat e * n) ?v)) k bs)"
    using look [OF assms(4), of e] l v' patched_entry [OF _ assms(8), of "unat e" ?v] by simp
  then show "\<exists>old. lookup m e backing = Some old \<and> length old = n \<and> lookup m e backing' = Some (patch old k bs)"
    using look [OF assms(3), of e] fit by simp
  show "lookup m e' backing' = lookup m e' backing" if "e' \<noteq> e"
  proof -
    have "unat e' \<noteq> unat e" using that by (simp add: word_unat_eq_iff)
    from other_entry [OF fit assms(8) this] show ?thesis
      using look [OF assms(3), of e'] look [OF assms(4), of e'] l v' by simp
  qed
qed

text \<open>C26: The host and the program share the maps. A value of any size that the program stores with
  its update is what its own lookup and, in every range of up to 16 bytes that one Read BPF Map can
  carry, the host's reads return. Up to 14 bytes that the host writes with one Write BPF Map anywhere
  inside an entry appear at that place in what the program's lookup of the entry returns; longer values
  take several writes. Neither disturbs any other entry of the map.\<close>

theorem host_and_program_share_maps:
  assumes "loader_inv ld" and "has_program (ld_state ld)" and "length backing = BPF_MAX_MAP_BYTES"
    and "i < unat (ld_committed_map_count ld)" and "m = pm_maps (program_metadata ld) ! i"
    and "n = unat (mm_value_size m)" and "unat e * n + n \<le> unat (mm_backing_len m)"
  shows "(length v = n \<longrightarrow> (\<exists>backing'. update m e v backing = Some backing' \<and> lookup m e backing' = Some v
        \<and> (\<forall>k l. 1 \<le> l \<and> l \<le> 16 \<and> k + l \<le> n
            \<longrightarrow> host_read (ld, backing') i (unat e * n + k) l = Some (take l (drop k v)))
        \<and> (\<forall>e'. e' \<noteq> e \<longrightarrow> lookup m e' backing' = lookup m e' backing)))
    \<and> (1 \<le> length bs \<and> length bs \<le> 14 \<and> k + length bs \<le> n \<longrightarrow> (\<exists>old backing'. lookup m e backing = Some old
        \<and> host_write (ld, backing) i (unat e * n + k) bs = Some (ld, backing')
        \<and> lookup m e backing' = Some (patch old k bs)
        \<and> (\<forall>e'. e' \<noteq> e \<longrightarrow> lookup m e' backing' = lookup m e' backing)))"
    (is "(_ \<longrightarrow> ?stored) \<and> (_ \<longrightarrow> ?written)")
proof -
  let ?md = "program_metadata ld"
  have hok: "host_ok (ld, b) \<longleftrightarrow> length b = 1024" for b using assms(1,2) by (simp add: host_ok_def)
  have mok: "metadata_ok ?md" using program_metadata_view(1) [OF assms(1,2)] .
  have view: "program_view ?md b = host_view ld b" for b using program_metadata_view(2) [OF assms(1,2)] .
  have i: "i < unat (pm_map_count ?md)" "i < length (host_view ld b)" for b
    using assms(4) unfolding view [symmetric] by (simp_all add: program_metadata_def program_view_def)
  have b0: "length backing = 1024" using assms(3) by simp
  have len: "length (host_view ld b ! i) = unat (mm_backing_len m)" if "length b = 1024" for b
    using program_view_nth(2) [OF mok i(1) that] assms(5) unfolding view by simp
  note after = lookup_after_patch [OF mok i(1) b0 _ assms(5-7), unfolded view]
  have stored: ?stored if v: "length v = n"
  proof -
    obtain b' where u: "update m e v backing = Some b'" and b': "length b' = 1024"
      "host_view ld b' = (host_view ld backing)[i := patch (host_view ld backing ! i) (unat e * n) v]"
      using update_view [OF mok i(1) b0, of e v] assms(5-7) v len [OF b0] unfolding view
      by (auto simp: Let_def split: option.splits)
    note a = after [where backing' = b' and k = 0 and bs = v, unfolded add_0_right, OF b'(1) _ b'(2)]
    have "lookup m e b' = Some v" using a(1) v by (auto simp: patch_def)
    moreover have "host_read (ld, b') i (unat e * n + k) l = Some (take l (drop k v))"
      if "1 \<le> l \<and> l \<le> 16 \<and> k + l \<le> n" for k l
    proof -
      have fit: "unat e * n + length v \<le> length (host_view ld backing ! i)" using assms(7) v len [OF b0] by simp
      have "drop (unat e * n + k) (host_view ld b' ! i) = drop k v @ drop (unat e * n + n) (host_view ld backing ! i)"
        using b'(2) i(2) that fit v by (simp add: patch_def)
      then show ?thesis
        using host_read_spec [where s = "(ld, b')" and i = i and off = "unat e * n + k" and n = l] hok b'(1) i(2) len [OF b'(1)] that assms(7) v
        by simp
    qed
    ultimately show ?thesis using u a(2) v by (intro exI [of _ b']) simp
  qed
  have written: ?written if w: "1 \<le> length bs \<and> length bs \<le> 14 \<and> k + length bs \<le> n"
  proof -
    obtain s' where hw: "host_write (ld, backing) i (unat e * n + k) bs = Some s'"
      using host_write_spec [where s = "(ld, backing)" and i = i and off = "unat e * n + k" and bs = bs] hok b0 i(2) len [OF b0] w assms(7)
      by (auto split: option.splits)
    then obtain b' where s': "s' = (ld, b')" using host_write_copy(2) [OF hw] by (cases s') simp
    have "host_ok (ld, backing)" using hok b0 by simp
    from host.wr_some(4,6) [OF this hw] have b': "length b' = 1024"
      "host_view ld b' = (host_view ld backing)[i := patch (host_view ld backing ! i) (unat e * n + k) bs]"
      using hok by (simp_all add: s')
    note a = after [where backing' = b' and k = k and bs = bs, OF b'(1) _ b'(2)]
    show ?thesis using a w hw s' by auto
  qed
  show ?thesis using stored written by blast
qed

theorem host_and_program_share_maps_witness:
  "\<exists>b1 b2. update (pm_maps (program_metadata two_maps) ! 1) 0 [1, 2, 3, 4] (replicate 1024 0) = Some b1
     \<and> host_read (two_maps, b1) 1 1 2 = Some [2, 3]
     \<and> host_write (two_maps, replicate 1024 0) 1 2 [9, 8] = Some (two_maps, b2)
     \<and> lookup (pm_maps (program_metadata two_maps) ! 1) 0 b2 = Some [0, 0, 9, 8]"
proof -
  let ?m = "pm_maps (program_metadata two_maps) ! 1"
  have m: "pm_maps (program_metadata two_maps) ! Suc 0
      = \<lparr>mm_backing_offset = 8, mm_backing_len = 4, mm_key_size = 4, mm_value_size = 4\<rparr>"
    by (simp add: program_metadata_def two_maps_def loader_new_def layout_metadata_def)
  have pre: "length (replicate 1024 (0 :: u8)) = BPF_MAX_MAP_BYTES" "1 < unat (ld_committed_map_count two_maps)"
    "4 = unat (mm_value_size ?m)" "unat (0 :: u32) * 4 + 4 \<le> unat (mm_backing_len ?m)"
    by (simp_all add: m two_maps_fields)
  note share = host_and_program_share_maps [OF two_maps_ok pre(1,2) refl pre(3,4)]
  have "\<exists>b1. update ?m 0 [1, 2, 3, 4] (replicate 1024 0) = Some b1
      \<and> (\<forall>k l. 1 \<le> l \<and> l \<le> 16 \<and> k + l \<le> 4
          \<longrightarrow> host_read (two_maps, b1) 1 (unat (0 :: u32) * 4 + k) l = Some (take l (drop k [1, 2, 3, 4])))"
    using share [of "[1, 2, 3, 4]" "[]" 0] by auto
  then obtain b1 where one: "update ?m 0 [1, 2, 3, 4] (replicate 1024 0) = Some b1"
    and rd: "\<And>k l. 1 \<le> l \<and> l \<le> 16 \<and> k + l \<le> 4
      \<Longrightarrow> host_read (two_maps, b1) 1 (unat (0 :: u32) * 4 + k) l = Some (take l (drop k [1, 2, 3, 4]))" by blast
  have cnt: "unat (pm_map_count (program_metadata two_maps)) = 2" by (simp add: program_metadata_def two_maps_fields)
  have zeros: "replicate 4 (0 :: u8) = [0, 0, 0, 0]" by (simp add: numeral_eq_Suc)
  have "lookup ?m 0 (replicate 1024 0) = Some [0, 0, 0, 0]"
    using lookup_view [OF program_metadata_view(1) [OF two_maps_ok], of 1 "replicate 1024 0" 0] cnt zeros
    unfolding program_metadata_view(2) [OF two_maps_ok] by (simp add: m two_maps_fields(3) Let_def)
  then have "\<exists>b2. host_write (two_maps, replicate 1024 0) 1 2 [9, 8] = Some (two_maps, b2)
      \<and> lookup ?m 0 b2 = Some [0, 0, 9, 8]"
    using share [of "[]" "[9, 8]" 2] by (auto simp: patch_def numeral_2_eq_2)
  then show ?thesis using one rd [of 2 1] by (auto simp: numeral_2_eq_2)
qed

end
