(* ===== verification/Bpf_Memory.thy ===== *)
theory Bpf_Memory
  imports Map_Helpers
begin

text \<open>
  The helpers that a running program calls with raw pointers, from
  \<^verbatim>\<open>firmware/optibridge/src/main.rs\<close>: \<open>bpf_map_layout\<close>,
  \<open>valid_bpf_ram_range\<close>, \<open>bpf_map_lookup_elem\<close>, \<open>bpf_map_update_elem\<close>.

  The RAM is a list of 10,240 bytes at \<open>0x2000_0000\<close>. A dereference outside it is
  \<open>None\<close>: the code would touch memory that the model does not have. The lemmas show that it
  does not happen, and that the pointer arithmetic computes the entries that
  \<open>value_range\<close>, \<open>lookup\<close> and \<open>update\<close> define.
\<close>

section \<open>Memory\<close>

definition BPF_RAM_START :: u64 where "BPF_RAM_START = 0x20000000"
definition BPF_RAM_END :: u64 where "BPF_RAM_END = BPF_RAM_START + 10 * 1024"

definition RAM_BYTES :: nat where [simp]: "RAM_BYTES = 10240"

definition ram_index :: "u64 \<Rightarrow> nat" where
  "ram_index p = unat p - unat BPF_RAM_START"

definition ram_read :: "bytes \<Rightarrow> u64 \<Rightarrow> nat \<Rightarrow> bytes may_panic" where
  "ram_read ram p n =
     (if p < BPF_RAM_START then None else slice ram (ram_index p) (ram_index p + n))"

definition ram_write :: "bytes \<Rightarrow> u64 \<Rightarrow> bytes \<Rightarrow> bytes may_panic" where
  "ram_write ram p bs = (if p < BPF_RAM_START then None else copy_into ram (ram_index p) bs)"

section \<open>The helpers\<close>

record active_map_helpers =
  am_backing :: u64
  am_metadata :: bpf_program_metadata

text \<open>\<open>state.backing.add(metadata.backing_offset)\<close>\<close>

definition map_pointer :: "active_map_helpers \<Rightarrow> bpf_map_metadata \<Rightarrow> u64" where
  "map_pointer st m = am_backing st + ucast (mm_backing_offset m)"

fun bpf_map_layout_loop ::
    "u64 \<Rightarrow> active_map_helpers \<Rightarrow> nat \<Rightarrow> nat \<Rightarrow> (nat \<times> u32 \<times> u32 \<times> nat) option may_panic" where
  "bpf_map_layout_loop mp st 0 index = Some None"
| "bpf_map_layout_loop mp st (Suc n) index = do {
     m \<leftarrow> get_at (pm_maps (am_metadata st)) index;
     if mp = map_pointer st m
     then Some (Some (index, mm_key_size m, mm_value_size m, unat (mm_backing_len m)))
     else bpf_map_layout_loop mp st n (index + 1)
   }"

definition bpf_map_layout ::
    "u64 \<Rightarrow> active_map_helpers \<Rightarrow> (nat \<times> u32 \<times> u32 \<times> nat) option may_panic" where
  "bpf_map_layout mp st = bpf_map_layout_loop mp st (unat (pm_map_count (am_metadata st))) 0"

definition valid_bpf_ram_range :: "u64 \<Rightarrow> nat \<Rightarrow> bool" where
  "valid_bpf_ram_range p len \<longleftrightarrow> p \<ge> BPF_RAM_START
     \<and> (case checked_add p (of_nat len) of Some e \<Rightarrow> e \<le> BPF_RAM_END | None \<Rightarrow> False)"

definition bpf_map_lookup_elem ::
    "active_map_helpers option \<Rightarrow> bytes \<Rightarrow> u64 \<Rightarrow> u64 \<Rightarrow> u64 may_panic" where
  "bpf_map_lookup_elem active ram mp key =
     (case active of
        None \<Rightarrow> Some 0
      | Some st \<Rightarrow> do {
          layout \<leftarrow> bpf_map_layout mp st;
          (case layout of
             None \<Rightarrow> Some 0
           | Some (index, key_size, value_size, backing_len) \<Rightarrow>
               if key = 0 \<or> key_size \<noteq> 4 \<or> \<not> valid_bpf_ram_range key 4 then Some 0
               else do {
                 kb \<leftarrow> ram_read ram key 4;
                 let entry = from_le_bytes kb;
                 m \<leftarrow> get_at (pm_maps (am_metadata st)) index;
                 (case value_range m entry of
                    None \<Rightarrow> Some 0
                  | Some (first, stop) \<Rightarrow>
                      if stop > backing_len then Some 0
                      else Some (map_pointer st m + of_nat first))
               })
        })"

definition bpf_map_update_elem ::
    "active_map_helpers option \<Rightarrow> bytes \<Rightarrow> u64 \<Rightarrow> u64 \<Rightarrow> u64 \<Rightarrow> u64 \<Rightarrow> (u64 \<times> bytes) may_panic" where
  "bpf_map_update_elem active ram mp key v flags =
     (case active of
        None \<Rightarrow> Some (HELPER_ERROR, ram)
      | Some st \<Rightarrow> do {
          layout \<leftarrow> bpf_map_layout mp st;
          (case layout of
             None \<Rightarrow> Some (HELPER_ERROR, ram)
           | Some (index, key_size, value_size, backing_len) \<Rightarrow>
               if key = 0 \<or> v = 0 \<or> flags \<noteq> 0 \<or> key_size \<noteq> 4
                  \<or> \<not> valid_bpf_ram_range key 4 \<or> \<not> valid_bpf_ram_range v (unat value_size)
               then Some (HELPER_ERROR, ram)
               else do {
                 kb \<leftarrow> ram_read ram key 4;
                 let entry = from_le_bytes kb;
                 m \<leftarrow> get_at (pm_maps (am_metadata st)) index;
                 (case value_range m entry of
                    None \<Rightarrow> Some (HELPER_ERROR, ram)
                  | Some (first, stop) \<Rightarrow>
                      if stop > backing_len then Some (HELPER_ERROR, ram)
                      else do {
                        source \<leftarrow> ram_read ram v (unat value_size);
                        ram \<leftarrow> ram_write ram (map_pointer st m + of_nat first) source;
                        Some (0, ram)
                      })
               })
        })"

section \<open>The backing store in RAM\<close>

text \<open>The backing store starts at \<open>base\<close>.\<close>

definition base_ok :: "u64 \<Rightarrow> bool" where
  "base_ok base \<longleftrightarrow> BPF_RAM_START \<le> base \<and> unat base + 1024 \<le> unat BPF_RAM_END"

definition backing_of :: "u64 \<Rightarrow> bytes \<Rightarrow> bytes" where
  "backing_of base ram = take 1024 (drop (ram_index base) ram)"

definition with_backing :: "u64 \<Rightarrow> bytes \<Rightarrow> bytes \<Rightarrow> bytes" where
  "with_backing base ram b = take (ram_index base) ram @ b @ drop (ram_index base + 1024) ram"

lemma ram_consts: "unat BPF_RAM_START = 0x20000000" "unat BPF_RAM_END = 0x20002800"
  by (simp_all add: BPF_RAM_START_def BPF_RAM_END_def)

lemma base_index: "base_ok base \<Longrightarrow> ram_index base + 1024 \<le> 10240"
  by (auto simp: base_ok_def ram_index_def word_le_nat_alt ram_consts)

lemma length_backing_of: "base_ok base \<Longrightarrow> length ram = 10240 \<Longrightarrow> length (backing_of base ram) = 1024"
  using base_index [of base] by (simp add: backing_of_def)

lemma with_backing_props:
  assumes "base_ok base" and "length ram = 10240" and "length b = 1024"
  shows "length (with_backing base ram b) = 10240" and "backing_of base (with_backing base ram b) = b"
    and "same_outside (ram_index base) (ram_index base + 1024) ram (with_backing base ram b)"
  using base_index [OF assms(1)] assms(2,3)
  by (auto simp: with_backing_def backing_of_def same_outside_def nth_append)

lemma with_backing_same: "with_backing base ram (backing_of base ram) = ram"
  by (metis append_take_drop_id add.commute backing_of_def drop_drop with_backing_def)

text \<open>Reading and writing inside the backing store.\<close>

lemma pointer_into_backing:
  assumes "base_ok base" and "k \<le> 1024"
  shows "\<not> base + of_nat k < BPF_RAM_START" and "ram_index (base + of_nat k) = ram_index base + k"
    and "unat (base + of_nat k) = unat base + k"
proof -
  have k: "unat (of_nat k :: u64) = k" using assms(2) by (intro unat_of_nat_id) simp
  have b: "unat base \<le> 0x20002400" using assms(1) by (simp add: base_ok_def ram_consts)
  show u: "unat (base + of_nat k) = unat base + k"
    using k b assms(2) by (subst unat_add_id) simp_all
  then show "\<not> base + of_nat k < BPF_RAM_START" "ram_index (base + of_nat k) = ram_index base + k"
    using assms(1) by (simp_all add: base_ok_def ram_index_def word_less_nat_alt word_le_nat_alt ram_consts)
qed

lemma ram_read_backing:
  assumes "base_ok base" and "length ram = 10240" and "k + n \<le> 1024"
  shows "ram_read ram (base + of_nat k) n = slice (backing_of base ram) k (k + n)"
proof -
  have k: "k \<le> 1024" using assms(3) by simp
  note p = pointer_into_backing [OF assms(1) k]
  have "take n (drop (ram_index base + k) ram) = take n (drop k (backing_of base ram))"
    using assms(3) by (simp add: backing_of_def take_take_drop_sub add.commute)
  then show ?thesis
    using p base_index [OF assms(1)] assms(2,3) length_backing_of [OF assms(1,2)]
    by (simp add: ram_read_def slice_def)
qed

lemma ram_write_backing:
  assumes "base_ok base" and "length ram = 10240" and "k + length bs \<le> 1024"
  shows "ram_write ram (base + of_nat k) bs
    = map_option (with_backing base ram) (copy_into (backing_of base ram) k bs)"
proof -
  have k: "k \<le> 1024" using assms(3) by simp
  note p = pointer_into_backing [OF assms(1) k]
  have l: "length (backing_of base ram) = 1024" using length_backing_of [OF assms(1,2)] .
  let ?i = "ram_index base"
  have "take (?i + k) ram = take ?i ram @ take k (backing_of base ram)"
    using k by (simp add: take_add backing_of_def min_absorb1)
  moreover have "drop (?i + k + length bs) ram
      = drop (k + length bs) (backing_of base ram) @ drop (?i + 1024) ram"
  proof -
    have "drop (?i + k + length bs) ram = drop (k + length bs) (drop ?i ram)"
      by (simp add: ac_simps)
    also have "drop ?i ram = backing_of base ram @ drop 1024 (drop ?i ram)"
      by (simp only: backing_of_def append_take_drop_id)
    also have "drop (k + length bs) \<dots> = drop (k + length bs) (backing_of base ram) @ drop 1024 (drop ?i ram)"
      using l assms(3) by (simp only: drop_append) simp
    also have "drop 1024 (drop ?i ram) = drop (?i + 1024) ram" by (simp add: add.commute)
    finally show ?thesis .
  qed
  ultimately have "take (?i + k) ram @ bs @ drop (?i + k + length bs) ram
      = take ?i ram @ (take k (backing_of base ram) @ bs @ drop (k + length bs) (backing_of base ram))
        @ drop (?i + 1024) ram" by simp
  then show ?thesis
    using p base_index [OF assms(1)] assms(2,3) l
    by (simp add: ram_write_def copy_into_def with_backing_def)
qed

section \<open>The pointer helpers compute the map operations\<close>

definition helpers_ok :: "active_map_helpers \<Rightarrow> bytes \<Rightarrow> bool" where
  "helpers_ok st ram \<longleftrightarrow> base_ok (am_backing st) \<and> metadata_ok (am_metadata st) \<and> length ram = RAM_BYTES"

text \<open>The map a pointer names.\<close>

definition map_of_pointer :: "active_map_helpers \<Rightarrow> u64 \<Rightarrow> nat option" where
  "map_of_pointer st mp = List.find (\<lambda>i. mp = map_pointer st (pm_maps (am_metadata st) ! i))
     [0..<unat (pm_map_count (am_metadata st))]"

lemma map_pointer_of_nat: "map_pointer st m = am_backing st + of_nat (unat (mm_backing_offset m))"
  by (simp add: map_pointer_def)

lemma bpf_map_layout_value:
  assumes "metadata_ok (am_metadata st)"
  shows "bpf_map_layout mp st = Some (map_option (\<lambda>i. (i, 4,
      mm_value_size (pm_maps (am_metadata st) ! i), unat (mm_backing_len (pm_maps (am_metadata st) ! i))))
    (map_of_pointer st mp))"
proof -
  let ?n = "unat (pm_map_count (am_metadata st))" let ?maps = "pm_maps (am_metadata st)"
  have loop: "bpf_map_layout_loop mp st k i = Some (map_option (\<lambda>i. (i, 4, mm_value_size (?maps ! i),
      unat (mm_backing_len (?maps ! i)))) (List.find (\<lambda>i. mp = map_pointer st (?maps ! i)) [i..<i + k]))"
    if "i + k \<le> ?n" for k i
    using that
  proof (induction k arbitrary: i)
    case (Suc k)
    have i: "i < ?n" using Suc.prems by simp
    have "get_at ?maps i = Some (?maps ! i)"
      using metadata_ok_nth(1) [OF assms i] by (simp add: get_at_def)
    moreover have "[i..<i + Suc k] = i # [Suc i..<Suc i + k]" by (simp add: upt_conv_Cons)
    ultimately show ?case using Suc.IH [of "Suc i"] Suc.prems metadata_ok_nth(5) [OF assms i] by simp
  qed simp
  show ?thesis using loop [of 0 ?n] by (simp add: bpf_map_layout_def map_of_pointer_def)
qed

lemma map_of_pointer_nth:
  assumes "base_ok (am_backing st)" and "metadata_ok (am_metadata st)"
    and "i < unat (pm_map_count (am_metadata st))"
  shows "map_of_pointer st (map_pointer st (pm_maps (am_metadata st) ! i)) = Some i"
proof -
  let ?maps = "pm_maps (am_metadata st)" let ?n = "unat (pm_map_count (am_metadata st))"
  have inj: "map_pointer st (?maps ! i) \<noteq> map_pointer st (?maps ! j)" if j: "j < i" for j
  proof -
    have jn: "j < ?n" using j assms(3) by simp
    have o: "unat (mm_backing_offset (?maps ! j)) < unat (mm_backing_offset (?maps ! i))"
      using layouts_ok_ordered [of "program_layouts (am_metadata st)" ?n j i] assms(2,3) j
        metadata_ok_nth(2,3) [OF assms(2) jn] metadata_ok_nth(2) [OF assms(2,3)]
      by (simp add: metadata_ok_def)
    have "unat (map_pointer st (?maps ! k)) = unat (am_backing st) + unat (mm_backing_offset (?maps ! k))"
      if "k < ?n" for k
      using pointer_into_backing(3) [OF assms(1), of "unat (mm_backing_offset (?maps ! k))"]
        metadata_ok_nth(4) [OF assms(2) that] unfolding map_pointer_of_nat by simp
    from this [OF jn] this [OF assms(3)] o show ?thesis by auto
  qed
  then have "List.find (\<lambda>k. map_pointer st (?maps ! i) = map_pointer st (?maps ! k)) [0..<?n] = Some i"
    unfolding find_Some_iff using assms(3) inj by (intro exI [of _ i]) simp
  then show ?thesis by (simp add: map_of_pointer_def)
qed

lemma map_of_pointer_SomeD:
  "map_of_pointer st mp = Some i \<Longrightarrow> i < unat (pm_map_count (am_metadata st))
     \<and> mp = map_pointer st (pm_maps (am_metadata st) ! i)"
  by (auto simp: map_of_pointer_def find_Some_iff)

lemma valid_range_read:
  assumes "valid_bpf_ram_range p n" and "length ram = 10240" and "n < 2 ^ 32"
  shows "\<exists>bs. ram_read ram p n = Some bs \<and> length bs = n"
proof -
  obtain e where lo: "p \<ge> BPF_RAM_START" and e: "checked_add p (of_nat n) = Some e" "e \<le> BPF_RAM_END"
    using assms(1) by (auto simp: valid_bpf_ram_range_def split: option.splits)
  have "unat (of_nat n :: u64) = n" using assms(3) by (intro unat_of_nat_id) simp
  then have "unat p + n \<le> 0x20002800" "0x20000000 \<le> unat p"
    using checked_add_SomeD [OF e(1)] e(2) lo by (simp_all add: word_le_nat_alt ram_consts)
  then show ?thesis
    using lo assms(2) by (auto simp: ram_read_def slice_def ram_index_def ram_consts)
qed

text \<open>The entry a key pointer selects.\<close>

definition key_at :: "bytes \<Rightarrow> u64 \<Rightarrow> u32" where
  "key_at ram key = (case ram_read ram key 4 of Some kb \<Rightarrow> from_le_bytes kb | None \<Rightarrow> 0)"

lemma lookup_none_iff:
  assumes "metadata_ok md" and "i < unat (pm_map_count md)" and "length b = 1024"
  shows "(lookup (pm_maps md ! i) e b = None) = (value_range (pm_maps md ! i) e = None)"
proof (cases "value_range (pm_maps md ! i) e")
  case None
  then show ?thesis by (simp add: lookup_def)
next
  case (Some r)
  then have "fst r \<le> snd r" "snd r \<le> unat (mm_backing_len (pm_maps md ! i))"
    by (auto simp: value_range_iff)
  then show ?thesis
    using Some metadata_ok_nth(4) [OF assms(1,2)] assms(3)
    by (cases r) (simp add: lookup_def slice_def Let_def)
qed

lemma lookup_elem_value:
  assumes ok: "helpers_ok st ram"
  shows "bpf_map_lookup_elem (Some st) ram mp key = Some
    (case map_of_pointer st mp of None \<Rightarrow> 0
     | Some i \<Rightarrow>
        let m = pm_maps (am_metadata st) ! i; e = key_at ram key in
        if key = 0 \<or> \<not> valid_bpf_ram_range key 4 \<or> lookup m e (backing_of (am_backing st) ram) = None
        then 0 else map_pointer st m + of_nat (unat e * unat (mm_value_size m)))"
proof (cases "map_of_pointer st mp")
  case None
  then show ?thesis using ok by (simp add: bpf_map_lookup_elem_def bpf_map_layout_value helpers_ok_def)
next
  case (Some i)
  let ?m = "pm_maps (am_metadata st) ! i" let ?b = "backing_of (am_backing st) ram"
  have md: "metadata_ok (am_metadata st)" "base_ok (am_backing st)" "length ram = 10240"
    using ok by (simp_all add: helpers_ok_def)
  have i: "i < unat (pm_map_count (am_metadata st))" using map_of_pointer_SomeD [OF Some] by simp
  have lb: "length ?b = 1024" using length_backing_of [OF md(2,3)] .
  have get: "get_at (pm_maps (am_metadata st)) i = Some ?m"
    using metadata_ok_nth(1) [OF md(1) i] by (simp add: get_at_def)
  have lay: "bpf_map_layout mp st = Some (Some (i, 4, mm_value_size ?m, unat (mm_backing_len ?m)))"
    using Some bpf_map_layout_value [OF md(1)] by simp
  show ?thesis
  proof (cases "key = 0 \<or> \<not> valid_bpf_ram_range key 4")
    case True
    then show ?thesis using lay Some by (auto simp: bpf_map_lookup_elem_def Let_def)
  next
    case False
    then obtain kb where kb: "ram_read ram key 4 = Some kb"
      using valid_range_read [of key 4 ram] md(3) by auto
    let ?e = "key_at ram key"
    have e: "from_le_bytes kb = ?e" by (simp add: key_at_def kb)
    have vr: "(lookup ?m ?e ?b = None) = (value_range ?m ?e = None)"
      using lookup_none_iff [OF md(1) i lb] .
    show ?thesis
    proof (cases "value_range ?m ?e")
      case None
      then show ?thesis using False lay kb e get vr Some
        by (simp add: bpf_map_lookup_elem_def Let_def)
    next
      case (Some r)
      then have "r = (unat ?e * unat (mm_value_size ?m), unat ?e * unat (mm_value_size ?m) + unat (mm_value_size ?m))"
        "snd r \<le> unat (mm_backing_len ?m)" by (auto simp: value_range_iff)
      then show ?thesis using False lay kb e get vr Some \<open>map_of_pointer st mp = Some i\<close>
        by (auto simp: bpf_map_lookup_elem_def Let_def)
    qed
  qed
qed

lemma update_elem_value:
  assumes ok: "helpers_ok st ram"
  shows "bpf_map_update_elem (Some st) ram mp key v flags = Some
    (case map_of_pointer st mp of None \<Rightarrow> (HELPER_ERROR, ram)
     | Some i \<Rightarrow>
        let m = pm_maps (am_metadata st) ! i; vs = unat (mm_value_size m) in
        if key = 0 \<or> v = 0 \<or> flags \<noteq> 0 \<or> \<not> valid_bpf_ram_range key 4 \<or> \<not> valid_bpf_ram_range v vs
        then (HELPER_ERROR, ram)
        else case update m (key_at ram key) (the (ram_read ram v vs)) (backing_of (am_backing st) ram) of
          None \<Rightarrow> (HELPER_ERROR, ram)
        | Some b \<Rightarrow> (0, with_backing (am_backing st) ram b))"
proof (cases "map_of_pointer st mp")
  case None
  then show ?thesis using ok by (simp add: bpf_map_update_elem_def bpf_map_layout_value helpers_ok_def)
next
  case (Some i)
  let ?m = "pm_maps (am_metadata st) ! i" let ?b = "backing_of (am_backing st) ram"
  let ?vs = "unat (mm_value_size ?m)" let ?o = "unat (mm_backing_offset ?m)"
  have md: "metadata_ok (am_metadata st)" "base_ok (am_backing st)" "length ram = 10240"
    using ok by (simp_all add: helpers_ok_def)
  have i: "i < unat (pm_map_count (am_metadata st))" using map_of_pointer_SomeD [OF Some] by simp
  have lb: "length ?b = 1024" using length_backing_of [OF md(2,3)] .
  note nth = metadata_ok_nth [OF md(1) i]
  have get: "get_at (pm_maps (am_metadata st)) i = Some ?m"
    using nth(1) by (simp add: get_at_def)
  have lay: "bpf_map_layout mp st = Some (Some (i, 4, mm_value_size ?m, unat (mm_backing_len ?m)))"
    using Some bpf_map_layout_value [OF md(1)] by simp
  show ?thesis
  proof (cases "key = 0 \<or> v = 0 \<or> flags \<noteq> 0 \<or> \<not> valid_bpf_ram_range key 4 \<or> \<not> valid_bpf_ram_range v ?vs")
    case True
    then show ?thesis using lay Some by (auto simp: bpf_map_update_elem_def Let_def)
  next
    case False
    then obtain kb where kb: "ram_read ram key 4 = Some kb"
      using valid_range_read [of key 4 ram] md(3) by auto
    obtain vb where vb: "ram_read ram v ?vs = Some vb" "length vb = ?vs"
      using valid_range_read [of v ?vs ram] md(3) False unat_u32_less [of "mm_value_size ?m"] by auto
    let ?e = "key_at ram key"
    have e: "from_le_bytes kb = ?e" by (simp add: key_at_def kb)
    show ?thesis
    proof (cases "value_range ?m ?e")
      case None
      then have "update ?m ?e vb ?b = None" by (simp add: update_def)
      then show ?thesis using False lay kb e get Some vb None
        by (simp add: bpf_map_update_elem_def Let_def)
    next
      case r: (Some r)
      let ?off = "unat ?e * ?vs"
      have fit: "?off + ?vs \<le> unat (mm_backing_len ?m)" and r': "r = (?off, ?off + ?vs)"
        using r by (auto simp: value_range_iff)
      have in1k: "?o + ?off + length vb \<le> 1024" using fit nth(4) vb(2) by simp
      have "slice ?b (?o + ?off) (?o + (?off + ?vs)) \<noteq> None"
        using in1k lb vb(2) by (simp add: slice_def)
      then have up: "update ?m ?e vb ?b = copy_into ?b (?o + ?off) vb"
        using r r' vb(2) by (auto simp: update_def Let_def)
      have ptr: "map_pointer st ?m + of_nat ?off = am_backing st + of_nat (?o + ?off)"
        unfolding map_pointer_of_nat by (simp only: of_nat_add add.assoc)
      have wr: "ram_write ram (map_pointer st ?m + of_nat ?off) vb
          = map_option (with_backing (am_backing st) ram) (copy_into ?b (?o + ?off) vb)"
        unfolding ptr using ram_write_backing [OF md(2,3) in1k] .
      obtain b' where b': "copy_into ?b (?o + ?off) vb = Some b'"
        using in1k lb by (simp add: copy_into_def)
      have "bpf_map_update_elem (Some st) ram mp key v flags = do {
          ram' \<leftarrow> ram_write ram (map_pointer st ?m + of_nat ?off) vb; Some (0, ram') }"
        using False lay kb e get vb r fit
        by (simp add: bpf_map_update_elem_def Let_def r' del: of_nat_mult)
      then show ?thesis using False Some vb up wr b' by (simp add: Let_def)
    qed
  qed
qed

section \<open>Properties\<close>

text \<open>C27: The pointer a lookup helper returns: with a metadata table of disjoint maps, the helper
  never reads outside the RAM, and for a map's pointer and a key pointer into the RAM it returns the
  address of exactly the bytes that \<open>lookup\<close> of map_helpers.rs returns for that entry, or 0 when
  the entry does not exist. For any other map pointer it returns 0.\<close>

theorem lookup_helper_returns_entry:
  assumes "helpers_ok st ram"
  shows "\<exists>r. bpf_map_lookup_elem (Some st) ram mp key = Some r
    \<and> (case map_of_pointer st mp of None \<Rightarrow> r = 0
       | Some i \<Rightarrow>
         (case lookup (pm_maps (am_metadata st) ! i) (key_at ram key) (backing_of (am_backing st) ram) of
            None \<Rightarrow> r = 0
          | Some v \<Rightarrow> if key \<noteq> 0 \<and> valid_bpf_ram_range key 4
              then r \<noteq> 0 \<and> ram_read ram r (length v) = Some v else r = 0))"
proof (cases "map_of_pointer st mp")
  case None
  then show ?thesis using lookup_elem_value [OF assms] by auto
next
  case (Some i)
  let ?m = "pm_maps (am_metadata st) ! i" let ?b = "backing_of (am_backing st) ram"
  let ?e = "key_at ram key" let ?vs = "unat (mm_value_size ?m)"
  let ?r = "map_pointer st ?m + of_nat (unat ?e * ?vs)"
  have md: "metadata_ok (am_metadata st)" "base_ok (am_backing st)" "length ram = 10240"
    using assms by (simp_all add: helpers_ok_def)
  have i: "i < unat (pm_map_count (am_metadata st))" using map_of_pointer_SomeD [OF Some] by simp
  have val: "bpf_map_lookup_elem (Some st) ram mp key = Some
      (if key = 0 \<or> \<not> valid_bpf_ram_range key 4 \<or> lookup ?m ?e ?b = None then 0 else ?r)"
    using lookup_elem_value [OF assms] Some by (simp add: Let_def)
  have entry: "?r \<noteq> 0 \<and> ram_read ram ?r (length v) = Some v" if "lookup ?m ?e ?b = Some v" for v
  proof -
    let ?o = "unat (mm_backing_offset ?m)" let ?k = "?o + unat ?e * ?vs"
    have "value_range ?m ?e \<noteq> None"
      using lookup_none_iff [OF md(1) i length_backing_of [OF md(2,3)], of ?e] that by simp
    then have vr: "value_range ?m ?e = Some (unat ?e * ?vs, unat ?e * ?vs + ?vs)"
      "unat ?e * ?vs + ?vs \<le> unat (mm_backing_len ?m)"
      by (auto simp: value_range_iff)
    then have sl: "slice ?b ?k (?k + ?vs) = Some v"
      using that by (simp add: lookup_def Let_def add.assoc)
    have k: "?k + ?vs \<le> 1024" using vr(2) metadata_ok_nth(4) [OF md(1) i] by simp
    have ptr: "?r = am_backing st + of_nat ?k"
      unfolding map_pointer_of_nat by (simp only: of_nat_add add.assoc)
    have "\<not> ?r < BPF_RAM_START"
      unfolding ptr using pointer_into_backing(1) [OF md(2), of ?k] k by simp
    then have "?r \<noteq> 0" by (auto simp: BPF_RAM_START_def)
    moreover have "ram_read ram ?r ?vs = Some v"
      unfolding ptr using ram_read_backing [OF md(2,3) k] sl by simp
    moreover have "length v = ?vs" using slice_length [OF sl] by simp
    ultimately show ?thesis by simp
  qed
  show ?thesis
  proof (cases "lookup ?m ?e ?b")
    case None
    then show ?thesis using val Some by auto
  next
    case v: (Some v)
    then show ?thesis using val Some entry [OF v] by auto
  qed
qed

text \<open>Helpers over the two maps of \<open>two_maps\<close> in a RAM of zeros, for the witnesses.\<close>

definition sample_helpers :: active_map_helpers where
  "sample_helpers = \<lparr>am_backing = 0x20000100, am_metadata = program_metadata two_maps\<rparr>"

definition sample_ram :: bytes where "sample_ram = replicate 10240 0"

lemma sample_helpers_ok: "helpers_ok sample_helpers sample_ram"
  using program_metadata_view(1) [OF two_maps_ok]
  by (simp add: helpers_ok_def sample_helpers_def sample_ram_def base_ok_def word_le_nat_alt ram_consts)

lemma sample_second_map:
  "pm_maps (am_metadata sample_helpers) ! 1
     = \<lparr>mm_backing_offset = 8, mm_backing_len = 4, mm_key_size = 4, mm_value_size = 4\<rparr>"
  "1 < unat (pm_map_count (am_metadata sample_helpers))"
  "map_of_pointer sample_helpers 0x20000108 = Some 1"
proof -
  show m: "pm_maps (am_metadata sample_helpers) ! 1
     = \<lparr>mm_backing_offset = 8, mm_backing_len = 4, mm_key_size = 4, mm_value_size = 4\<rparr>"
    by (simp add: sample_helpers_def program_metadata_def two_maps_def loader_new_def layout_metadata_def)
  show n: "1 < unat (pm_map_count (am_metadata sample_helpers))"
    by (simp add: sample_helpers_def program_metadata_def two_maps_fields)
  have "map_pointer sample_helpers (pm_maps (am_metadata sample_helpers) ! 1) = 0x20000108"
    unfolding m by (simp add: map_pointer_def sample_helpers_def)
  moreover have "base_ok (am_backing sample_helpers)" "metadata_ok (am_metadata sample_helpers)"
    using sample_helpers_ok by (simp_all add: helpers_ok_def)
  ultimately show "map_of_pointer sample_helpers 0x20000108 = Some 1"
    using map_of_pointer_nth [OF _ _ n] by simp
qed

lemma replicate_four: "replicate 4 x = [x, x, x, x]"
  by (simp add: numeral_eq_Suc)

lemma sample_entry:
  "valid_bpf_ram_range 0x20000800 4" "key_at sample_ram 0x20000800 = 0"
  "backing_of (am_backing sample_helpers) sample_ram = replicate 1024 0"
  "ram_read sample_ram 0x20000800 4 = Some [0, 0, 0, 0]"
proof -
  show "valid_bpf_ram_range 0x20000800 4"
    by (simp add: valid_bpf_ram_range_def BPF_RAM_START_def BPF_RAM_END_def checked_add_def)
  show r: "ram_read sample_ram 0x20000800 4 = Some [0, 0, 0, 0]"
    by (simp add: ram_read_def BPF_RAM_START_def ram_index_def sample_ram_def slice_def replicate_four)
  show "key_at sample_ram 0x20000800 = 0" by (simp add: key_at_def r le_bytes_eval)
  show "backing_of (am_backing sample_helpers) sample_ram = replicate 1024 0"
    by (simp add: backing_of_def sample_ram_def sample_helpers_def ram_index_def ram_consts)
qed

theorem lookup_helper_returns_entry_witness:
  "\<exists>r. bpf_map_lookup_elem (Some sample_helpers) sample_ram 0x20000108 0x20000800 = Some r \<and> r \<noteq> 0
     \<and> ram_read sample_ram r (length [0, 0, 0, 0 :: u8]) = Some [0, 0, 0, 0]"
proof -
  have "lookup (pm_maps (am_metadata sample_helpers) ! 1) 0 (replicate 1024 0) = Some [0, 0, 0, 0]"
    unfolding sample_second_map(1)
    by (simp add: lookup_def value_range_def usize_mul_def usize_add_def slice_def replicate_four)
  then show ?thesis
    using lookup_helper_returns_entry [OF sample_helpers_ok, of "0x20000108" "0x20000800"]
    by (auto simp: sample_second_map(3) sample_entry)
qed

text \<open>C28: The update helper writes a whole value into one entry or nothing: it never reads or writes
  outside the RAM, never changes a byte outside the map backing store, and either fails with the
  helper error and changes nothing, or returns 0 and has stored the value bytes as \<open>update\<close> of
  map_helpers.rs stores them. It succeeds exactly when the pointers are valid, the flags are zero and
  the entry exists; the value may overlap the map.\<close>

theorem update_helper_stores_entry:
  assumes "helpers_ok st ram"
  shows "\<exists>res ram'. bpf_map_update_elem (Some st) ram mp key v flags = Some (res, ram') \<and> helpers_ok st ram'
    \<and> same_outside (ram_index (am_backing st)) (ram_index (am_backing st) + BPF_MAX_MAP_BYTES) ram ram'
    \<and> (res = 0 \<or> res = HELPER_ERROR \<and> ram' = ram)
    \<and> (if key = 0 \<or> v = 0 \<or> flags \<noteq> 0 \<or> \<not> valid_bpf_ram_range key 4 then res = HELPER_ERROR
       else case map_of_pointer st mp of None \<Rightarrow> res = HELPER_ERROR
       | Some i \<Rightarrow>
         let m = pm_maps (am_metadata st) ! i; vs = unat (mm_value_size m) in
         if \<not> valid_bpf_ram_range v vs then res = HELPER_ERROR
         else \<exists>vb. ram_read ram v vs = Some vb
           \<and> (case update m (key_at ram key) vb (backing_of (am_backing st) ram) of
                None \<Rightarrow> res = HELPER_ERROR
              | Some b \<Rightarrow> res = 0 \<and> backing_of (am_backing st) ram' = b))"
proof (cases "map_of_pointer st mp")
  case None
  then show ?thesis using update_elem_value [OF assms] assms by (auto simp: HELPER_ERROR_def)
next
  case (Some i)
  let ?m = "pm_maps (am_metadata st) ! i" let ?b = "backing_of (am_backing st) ram"
  let ?vs = "unat (mm_value_size ?m)"
  have md: "metadata_ok (am_metadata st)" "base_ok (am_backing st)" "length ram = 10240"
    using assms by (simp_all add: helpers_ok_def)
  let ?bad = "key = 0 \<or> v = 0 \<or> flags \<noteq> 0 \<or> \<not> valid_bpf_ram_range key 4 \<or> \<not> valid_bpf_ram_range v ?vs"
  note val = update_elem_value [OF assms, of mp key v flags, unfolded Some option.case Let_def]
  show ?thesis
  proof (cases ?bad)
    case True
    then show ?thesis using val Some assms by (auto simp: HELPER_ERROR_def)
  next
    case False
    obtain vb where vb: "ram_read ram v ?vs = Some vb"
      using valid_range_read [of v ?vs ram] md(3) False unat_u32_less [of "mm_value_size ?m"] by auto
    show ?thesis
    proof (cases "update ?m (key_at ram key) vb ?b")
      case None
      then show ?thesis using val False Some vb assms by (auto simp: HELPER_ERROR_def)
    next
      case b: (Some b)
      have i: "i < unat (pm_map_count (am_metadata st))" using map_of_pointer_SomeD [OF Some] by simp
      have "length b = 1024"
        using update_view [OF md(1) i length_backing_of [OF md(2,3)], of "key_at ram key" vb] b
        by (simp add: Let_def)
      note wb = with_backing_props [OF md(2,3) this]
      then have "helpers_ok st (with_backing (am_backing st) ram b)" using md by (simp add: helpers_ok_def)
      then show ?thesis using val False Some vb b wb by auto
    qed
  qed
qed

theorem update_helper_stores_entry_witness:
  "\<exists>ram'. bpf_map_update_elem (Some sample_helpers) sample_ram 0x20000108 0x20000800 0x20000900 0 = Some (0, ram')
     \<and> same_outside 256 1280 sample_ram ram'"
proof -
  have up: "\<exists>b. update (pm_maps (am_metadata sample_helpers) ! 1) 0 [0, 0, 0, 0] (replicate 1024 0) = Some b"
    unfolding sample_second_map(1)
    by (simp add: update_def value_range_def usize_mul_def usize_add_def slice_def copy_into_def)
  have v: "valid_bpf_ram_range 0x20000900 4" "ram_read sample_ram 0x20000900 4 = Some [0, 0, 0, 0]"
    by (simp_all add: valid_bpf_ram_range_def BPF_RAM_START_def BPF_RAM_END_def checked_add_def
        ram_read_def ram_index_def sample_ram_def slice_def replicate_four)
  obtain res ram' where r: "bpf_map_update_elem (Some sample_helpers) sample_ram 0x20000108 0x20000800 0x20000900 0
      = Some (res, ram')" "same_outside 256 1280 sample_ram ram'"
    using update_helper_stores_entry [OF sample_helpers_ok, of "0x20000108" "0x20000800" "0x20000900" 0]
    by (auto simp: sample_helpers_def ram_index_def ram_consts)
  have "res = 0"
    using r(1) up update_elem_value [OF sample_helpers_ok, of "0x20000108" "0x20000800" "0x20000900" 0]
      sample_second_map sample_entry v by (auto simp: Let_def)
  then show ?thesis using r by blast
qed

end
