(* ===== verification/Event_Timer.thy ===== *)
theory Event_Timer
  imports Map_Helpers
begin

text \<open>
  The one-shot timer of \<^verbatim>\<open>firmware/optibridge/src/main.rs\<close>: \<open>TimerState\<close>, the
  helpers \<open>bpf_schedule_timer\<close> and \<open>bpf_cancel_timer\<close>, and the main loop's
  \<open>poll_timer\<close>, \<open>wait_for_timer_or_work\<close>, \<open>take_ready_timer\<close> and
  \<open>restore_ready_timer\<close>. Each of them is one critical section, so one step.

  \<open>Instant\<close> and \<open>Duration\<close> belong to embassy-time: the model takes a linearly ordered
  type of instants and the two operations the code uses, in milliseconds (the firmware configures
  1,000 ticks a second); \<open>None\<close> is their overflow panic. \<open>alarm\<close> is the abstract timer the
  state refines, and generation numbers tell whether an event that was taken is still wanted.
\<close>

section \<open>State\<close>

record 'i time_api =
  ta_add_ms :: "'i \<Rightarrow> u64 \<Rightarrow> 'i option"
  ta_sub :: "'i \<Rightarrow> 'i \<Rightarrow> u64 option"

record 'i timer_request =
  tr_generation :: u32
  tr_deadline :: 'i
  tr_cookie :: u64

record timer_event =
  te_generation :: u32
  te_cookie :: u64

record 'i timer_state =
  ts_generation :: u32
  ts_pending :: "'i timer_request option"
  ts_ready :: "timer_event option"

definition timer_state_new :: "'i timer_state" where
  "timer_state_new = \<lparr>ts_generation = 0, ts_pending = None, ts_ready = None\<rparr>"

section \<open>Operations\<close>

definition next_generation :: "u32 \<Rightarrow> u32" where
  "next_generation g = (let g' = g + 1 in if g' = 0 then 1 else g')"

definition next_timer_generation :: "'i timer_state \<Rightarrow> u32 \<times> 'i timer_state" where
  "next_timer_generation st =
     (let g = next_generation (ts_generation st) in (g, st\<lparr>ts_generation := g\<rparr>))"

definition bpf_schedule_timer ::
    "'i time_api \<Rightarrow> 'i \<Rightarrow> u64 \<Rightarrow> u64 \<Rightarrow> 'i timer_state \<Rightarrow> (u64 \<times> 'i timer_state) may_panic" where
  "bpf_schedule_timer api now delay_ms cookie st =
     (if delay_ms > 0xffffffff then Some (HELPER_ERROR, st)
      else
        let (generation, st) = next_timer_generation st; st = st\<lparr>ts_ready := None\<rparr> in
        do {
          deadline \<leftarrow> ta_add_ms api now delay_ms;
          Some (0, st\<lparr>ts_pending := Some \<lparr>tr_generation = generation, tr_deadline = deadline,
                                          tr_cookie = cookie\<rparr>\<rparr>)
        })"

definition bpf_cancel_timer :: "'i timer_state \<Rightarrow> u64 \<times> 'i timer_state" where
  "bpf_cancel_timer st =
     (let (_, st) = next_timer_generation st in (0, st\<lparr>ts_pending := None, ts_ready := None\<rparr>))"

definition poll_timer :: "'i::linorder \<Rightarrow> 'i timer_state \<Rightarrow> 'i timer_state" where
  "poll_timer now st =
     (case ts_pending st of
        None \<Rightarrow> st
      | Some p \<Rightarrow>
          if now \<ge> tr_deadline p
          then st\<lparr>ts_pending := None, ts_ready := Some \<lparr>te_generation = tr_generation p,
                                                       te_cookie = tr_cookie p\<rparr>\<rparr>
          else st)"

text \<open>A duration in milliseconds.\<close>

definition wait_for_timer_or_work ::
    "'i::linorder time_api \<Rightarrow> 'i \<Rightarrow> 'i timer_state \<Rightarrow> u64 may_panic" where
  "wait_for_timer_or_work api now st =
     (case ts_pending st of
        Some p \<Rightarrow>
          if tr_deadline p \<le> now then Some 0
          else map_option (\<lambda>d. min d 1) (ta_sub api (tr_deadline p) now)
      | None \<Rightarrow> Some 1)"

definition take_ready_timer :: "'i timer_state \<Rightarrow> timer_event option \<times> 'i timer_state" where
  "take_ready_timer st = (ts_ready st, st\<lparr>ts_ready := None\<rparr>)"

definition restore_ready_timer :: "timer_event \<Rightarrow> 'i timer_state \<Rightarrow> 'i timer_state" where
  "restore_ready_timer event st =
     (if ts_generation st = te_generation event \<and> ts_ready st = None
      then st\<lparr>ts_ready := Some event\<rparr> else st)"

text \<open>What the code relies on of embassy-time.\<close>

definition time_ok :: "'i::linorder time_api \<Rightarrow> bool" where
  "time_ok api \<longleftrightarrow> (\<forall>i ms j. ta_add_ms api i ms = Some j \<longrightarrow> i \<le> j)
     \<and> (\<forall>i j. i < j \<longrightarrow> (\<exists>d. ta_sub api j i = Some d \<and> 0 < d))"

section \<open>Generations\<close>

text \<open>Generations run through 1, ..., 2^32 - 1 and start over at 1.\<close>

lemma next_generation_nonzero: "next_generation g \<noteq> 0"
  by (simp add: next_generation_def Let_def)

lemma unat_next_generation: "unat (next_generation g) = unat g mod 4294967295 + 1"
proof (cases "g + 1 = 0")
  case True
  then have "g = 0xffffffff" by (simp add: eq_neg_iff_add_eq_0 [symmetric])
  then show ?thesis by (simp add: next_generation_def)
next
  case False
  then have "unat (g + 1) = unat g + 1"
    by (metis Suc_eq_plus1 add.commute unatSuc)
  moreover have "unat (g + 1) < 4294967296" by (rule unat_u32_less)
  ultimately show ?thesis using False by (simp add: next_generation_def Let_def)
qed

lemma generation_iterate:
  "unat ((next_generation ^^ k) g) =
     (if k = 0 then unat g else (unat g + k - 1) mod 4294967295 + 1)"
proof (induction k)
  case (Suc k)
  show ?case
  proof (cases "k = 0")
    case True
    then show ?thesis by (simp add: unat_next_generation)
  next
    case False
    have "(x mod 4294967295 + 1) mod 4294967295 = (x + 1) mod (4294967295 :: nat)" for x
      by (rule mod_add_left_eq)
    with False Suc.IH show ?thesis
      by (simp add: unat_next_generation)
  qed
qed simp

section \<open>The invariant\<close>

text \<open>What is armed or ready carries the current generation, and not both are set.\<close>

definition timer_inv :: "'i timer_state \<Rightarrow> bool" where
  "timer_inv st \<longleftrightarrow> (ts_pending st = None \<or> ts_ready st = None)
     \<and> pred_option (\<lambda>p. tr_generation p = ts_generation st \<and> ts_generation st \<noteq> 0) (ts_pending st)
     \<and> pred_option (\<lambda>e. te_generation e = ts_generation st \<and> ts_generation st \<noteq> 0) (ts_ready st)"

lemma timer_inv_new: "timer_inv timer_state_new"
  by (simp add: timer_inv_def timer_state_new_def)

lemma timer_inv_schedule:
  "timer_inv st \<Longrightarrow> bpf_schedule_timer api now d c st = Some (r, st') \<Longrightarrow> timer_inv st'"
  by (auto simp: bpf_schedule_timer_def next_timer_generation_def timer_inv_def Let_def bind_some_iff
      next_generation_nonzero split: if_splits)

lemma timer_inv_cancel: "timer_inv (snd (bpf_cancel_timer st))"
  by (simp add: bpf_cancel_timer_def next_timer_generation_def timer_inv_def Let_def)

lemma timer_inv_poll: "timer_inv st \<Longrightarrow> timer_inv (poll_timer now st)"
  by (auto simp: poll_timer_def timer_inv_def split: option.splits)

lemma timer_inv_take: "timer_inv st \<Longrightarrow> timer_inv (snd (take_ready_timer st))"
  by (simp add: take_ready_timer_def timer_inv_def)

section \<open>The abstract timer\<close>

datatype 'i alarm = Disarmed | Armed 'i u64 | Due u64

definition alarm_of :: "'i timer_state \<Rightarrow> 'i alarm" where
  "alarm_of st = (case ts_pending st of
      Some p \<Rightarrow> Armed (tr_deadline p) (tr_cookie p)
    | None \<Rightarrow> (case ts_ready st of Some e \<Rightarrow> Due (te_cookie e) | None \<Rightarrow> Disarmed))"

fun alarm_poll :: "'i::linorder \<Rightarrow> 'i alarm \<Rightarrow> 'i alarm" where
  "alarm_poll now (Armed deadline cookie) = (if deadline \<le> now then Due cookie else Armed deadline cookie)"
| "alarm_poll now a = a"

fun alarm_take :: "'i alarm \<Rightarrow> u64 option \<times> 'i alarm" where
  "alarm_take (Due cookie) = (Some cookie, Disarmed)"
| "alarm_take a = (None, a)"

lemma alarm_of_simps:
  "timer_inv st \<Longrightarrow> alarm_of (poll_timer now st) = alarm_poll now (alarm_of st)"
  "timer_inv st \<Longrightarrow> take_ready_timer st = (ev, st') \<Longrightarrow>
     (map_option te_cookie ev, alarm_of st') = alarm_take (alarm_of st)"
  "alarm_of (snd (bpf_cancel_timer st)) = Disarmed"
  by (auto simp: alarm_of_def poll_timer_def take_ready_timer_def timer_inv_def bpf_cancel_timer_def
      next_timer_generation_def Let_def split: option.splits)

lemma alarm_of_schedule:
  "bpf_schedule_timer api now d c st = Some (r, st') \<Longrightarrow>
     if d > 0xffffffff then r = HELPER_ERROR \<and> st' = st
     else r = 0 \<and> (\<exists>t. ta_add_ms api now d = Some t \<and> alarm_of st' = Armed t c)"
  by (auto simp: bpf_schedule_timer_def next_timer_generation_def alarm_of_def Let_def bind_some_iff)

section \<open>Runs of timer operations\<close>

datatype 'i timer_op = Schedule 'i u64 u64 | Cancel | Poll 'i | Take

fun timer_exec :: "'i::linorder time_api \<Rightarrow> 'i timer_op \<Rightarrow> 'i timer_state \<Rightarrow> 'i timer_state may_panic" where
  "timer_exec api (Schedule now d c) st = map_option snd (bpf_schedule_timer api now d c st)"
| "timer_exec api Cancel st = Some (snd (bpf_cancel_timer st))"
| "timer_exec api (Poll now) st = Some (poll_timer now st)"
| "timer_exec api Take st = Some (snd (take_ready_timer st))"

fun timer_run :: "'i::linorder time_api \<Rightarrow> 'i timer_op list \<Rightarrow> 'i timer_state \<Rightarrow> 'i timer_state may_panic" where
  "timer_run api [] st = Some st"
| "timer_run api (op # ops) st = timer_exec api op st \<bind> timer_run api ops"

text \<open>The operations that supersede an earlier event.\<close>

fun supersedes :: "'i timer_op \<Rightarrow> bool" where
  "supersedes (Schedule now d c) = (d \<le> 0xffffffff)"
| "supersedes Cancel = True"
| "supersedes op = False"

lemma timer_exec_generation:
  assumes "timer_exec api op st = Some st'"
  shows "ts_generation st' = (if supersedes op then next_generation (ts_generation st) else ts_generation st)"
  using assms
  by (cases op) (auto simp: bpf_schedule_timer_def bpf_cancel_timer_def poll_timer_def take_ready_timer_def
      next_timer_generation_def Let_def bind_some_iff split: if_splits option.splits)

lemma timer_run_generation:
  "timer_run api ops st = Some st' \<Longrightarrow>
     ts_generation st' = (next_generation ^^ length (filter supersedes ops)) (ts_generation st)"
proof (induction ops arbitrary: st)
  case (Cons op ops)
  then obtain st1 where e: "timer_exec api op st = Some st1" and r: "timer_run api ops st1 = Some st'"
    by (auto simp: bind_some_iff)
  show ?case
    using Cons.IH [OF r] timer_exec_generation [OF e] by (simp add: funpow_swap1)
qed simp

lemma wait_value:
  assumes "time_ok api"
  shows "\<exists>w. wait_for_timer_or_work api now st = Some w \<and> w \<le> 1
    \<and> (w = 0 \<longleftrightarrow> (\<exists>c. alarm_poll now (alarm_of (st\<lparr>ts_ready := None\<rparr>)) = Due c))"
proof (cases "ts_pending st")
  case None
  then show ?thesis by (simp add: wait_for_timer_or_work_def alarm_of_def)
next
  case (Some p)
  show ?thesis
  proof (cases "tr_deadline p \<le> now")
    case True
    then show ?thesis using Some by (simp add: wait_for_timer_or_work_def alarm_of_def)
  next
    case False
    then have "now < tr_deadline p" by simp
    then obtain d where "ta_sub api (tr_deadline p) now = Some d" "0 < d"
      using assms unfolding time_ok_def by blast
    moreover from this(2) have "min d 1 \<noteq> 0" by (auto simp: min_def)
    ultimately show ?thesis using Some False by (simp add: wait_for_timer_or_work_def alarm_of_def)
  qed
qed

lemma wait_total: "time_ok api \<Longrightarrow> \<exists>w. wait_for_timer_or_work api now st = Some w"
  using wait_value by blast

section \<open>Properties\<close>

text \<open>C29: The timer is a one-shot alarm with one slot: every operation of the firmware is the
  corresponding operation of the abstract alarm. Scheduling replaces whatever was armed or due (or
  fails for a delay over 2^32 - 1 ms and changes nothing), cancelling disarms, polling makes the
  armed alarm due when, and only when, its deadline has come, and taking returns a due alarm's cookie
  once. The invariant that generations are current is kept.\<close>

theorem timer_refines_alarm:
  assumes "timer_inv st"
  shows "timer_inv (poll_timer now st) \<and> alarm_of (poll_timer now st) = alarm_poll now (alarm_of st)
    \<and> timer_inv (snd (take_ready_timer st))
    \<and> (map_option te_cookie (fst (take_ready_timer st)), alarm_of (snd (take_ready_timer st)))
        = alarm_take (alarm_of st)
    \<and> timer_inv (snd (bpf_cancel_timer st)) \<and> fst (bpf_cancel_timer st) = 0
    \<and> alarm_of (snd (bpf_cancel_timer st)) = Disarmed
    \<and> (case bpf_schedule_timer api now d c st of
         None \<Rightarrow> ta_add_ms api now d = None
       | Some (r, st') \<Rightarrow> timer_inv st' \<and>
           (if d > 0xffffffff then r = HELPER_ERROR \<and> st' = st
            else r = 0 \<and> (\<exists>t. ta_add_ms api now d = Some t \<and> alarm_of st' = Armed t c)))"
proof -
  obtain ev st1 where t: "take_ready_timer st = (ev, st1)" by (cases "take_ready_timer st")
  have "case bpf_schedule_timer api now d c st of
         None \<Rightarrow> ta_add_ms api now d = None
       | Some (r, st') \<Rightarrow> timer_inv st' \<and>
           (if d > 0xffffffff then r = HELPER_ERROR \<and> st' = st
            else r = 0 \<and> (\<exists>t. ta_add_ms api now d = Some t \<and> alarm_of st' = Armed t c))"
  proof (cases "bpf_schedule_timer api now d c st")
    case None
    then show ?thesis
      by (auto simp: bpf_schedule_timer_def next_timer_generation_def Let_def bind_eq_None_conv split: if_splits)
  next
    case (Some x)
    obtain r st' where x: "x = (r, st')" by (cases x)
    show ?thesis
      using alarm_of_schedule [OF Some [unfolded x]] timer_inv_schedule [OF assms Some [unfolded x]]
      by (simp add: Some x)
  qed
  then show ?thesis
    using timer_inv_poll [OF assms, of now] alarm_of_simps(1) [OF assms, of now]
      timer_inv_take [OF assms] alarm_of_simps(2) [OF assms t] timer_inv_cancel [of st] alarm_of_simps(3) [of st] t
    by (simp add: bpf_cancel_timer_def next_timer_generation_def Let_def)
qed

text \<open>An armed timer, for the witnesses; instants are milliseconds.\<close>

definition ms_api :: "nat time_api" where
  "ms_api = \<lparr>ta_add_ms = \<lambda>i d. Some (i + unat d), ta_sub = \<lambda>j i. if j < i then None else Some (word_of_nat (min (j - i) (2 ^ 64 - 1)))\<rparr>"

definition due_timer :: "nat timer_state" where
  "due_timer = \<lparr>ts_generation = 3, ts_pending = None, ts_ready = Some \<lparr>te_generation = 3, te_cookie = 77\<rparr>\<rparr>"

lemma due_timer_inv: "timer_inv due_timer"
  by (simp add: timer_inv_def due_timer_def)

theorem timer_refines_alarm_witness:
  "timer_inv due_timer \<and> alarm_of (poll_timer 5 due_timer) = Due 77"
  using timer_refines_alarm [OF due_timer_inv, of 5 ms_api 9 9] due_timer_inv
  by (simp add: alarm_of_def due_timer_def)

text \<open>C30: A superseded event is recognised: for an event taken from the timer, after any further
  operations its generation is still the current one exactly when none of them scheduled or
  cancelled, as long as fewer than 2^32 - 1 did. (With exactly 2^32 - 1 of them the generation comes
  round again.)\<close>

theorem superseded_event_is_stale:
  assumes "timer_inv st" and "take_ready_timer st = (Some ev, st1)" and "timer_run api ops st1 = Some st2"
    and "length (filter supersedes ops) < 2 ^ 32 - 1"
  shows "ts_generation st2 = te_generation ev \<longleftrightarrow> \<not> list_ex supersedes ops"
proof -
  let ?k = "length (filter supersedes ops)" let ?g = "te_generation ev"
  have g: "ts_generation st1 = ?g" "?g \<noteq> 0"
    using assms(1,2) by (auto simp: take_ready_timer_def timer_inv_def)
  then have gen: "ts_generation st2 = (next_generation ^^ ?k) ?g"
    using timer_run_generation [OF assms(3)] by simp
  have k0: "(?k = 0) = (\<not> list_ex supersedes ops)"
    by (simp add: filter_empty_conv list_ex_iff)
  show ?thesis
  proof (cases "?k = 0")
    case True
    then show ?thesis using gen k0 by simp
  next
    case False
    have u: "0 < unat ?g" "unat ?g < 4294967296" using g(2) unat_u32_less [of ?g] by (simp_all add: unat_gt_0)
    have "unat ((next_generation ^^ ?k) ?g) = (unat ?g + ?k - 1) mod 4294967295 + 1"
      using False by (simp add: generation_iterate)
    moreover have "(unat ?g + ?k - 1) mod 4294967295 + 1 \<noteq> unat ?g"
    proof (cases "unat ?g + ?k - 1 < 4294967295")
      case True
      then show ?thesis using False by simp
    next
      case False
      then have "(unat ?g + ?k - 1) mod 4294967295 = unat ?g + ?k - 1 - 4294967295"
        using u assms(4) by (simp add: le_mod_geq)
      then show ?thesis using False u assms(4) by simp
    qed
    ultimately show ?thesis using gen k0 False by auto
  qed
qed

theorem superseded_event_is_stale_witness:
  "\<exists>ev st1 st2. take_ready_timer due_timer = (Some ev, st1)
     \<and> timer_run ms_api [Poll 4, Schedule 4 10 78] st1 = Some st2 \<and> ts_generation st2 \<noteq> te_generation ev"
proof -
  let ?ops = "[Poll 4, Schedule 4 10 78] :: nat timer_op list"
  obtain ev st1 where t: "take_ready_timer due_timer = (Some ev, st1)"
    by (simp add: take_ready_timer_def due_timer_def)
  obtain st2 where r: "timer_run ms_api ?ops st1 = Some st2"
    by (simp add: bpf_schedule_timer_def next_timer_generation_def ms_api_def Let_def)
  have "length (filter supersedes ?ops) < 2 ^ 32 - 1" by simp
  from superseded_event_is_stale [OF due_timer_inv t r this] t r show ?thesis by auto
qed

lemma time_ok_ms_api: "time_ok ms_api"
proof -
  have "0 < (word_of_nat (min (j - i) (2 ^ 64 - 1)) :: u64)" if "i < j" for i j :: nat
  proof -
    let ?n = "min (j - i) (2 ^ 64 - 1) :: nat"
    have "0 < ?n" "?n < 2 ^ 64" using that by auto
    then have "unat (word_of_nat ?n :: u64) \<noteq> 0" by (simp only: unsigned_of_nat) (simp add: take_bit_nat_eq_self)
    then have "(word_of_nat ?n :: u64) \<noteq> 0" by (metis unsigned_0)
    then show ?thesis by (simp only: word_neq_0_conv)
  qed
  then show ?thesis by (auto simp: time_ok_def ms_api_def)
qed

definition armed_timer :: "nat timer_state" where
  "armed_timer = \<lparr>ts_generation = 3,
     ts_pending = Some \<lparr>tr_generation = 3, tr_deadline = 9, tr_cookie = 1\<rparr>, ts_ready = None\<rparr>"

end
