(* ===== verification/Bpf_Execution.thy ===== *)
theory Bpf_Execution
  imports Bpf_Memory Event_Timer "HOL-Library.Stream"
begin

text \<open>
  One invocation of a loaded program: \<open>execute_loaded_bpf\<close> and
  \<open>run_bpf_size_probe\<close> of \<^verbatim>\<open>firmware/optibridge/src/main.rs\<close>.

  The interpreter is the crate sonde-bpf, a parameter of the model. What it does with its
  arguments is a \<open>bpf_process\<close>: a possibly infinite tree of loads from and stores to RAM,
  calls of the registered helpers, and a result (\<open>None\<close> is any interpreter error). The
  helpers run on the firmware's state, which is the record \<open>machine\<close>. A small step of the
  process and the run that iterates it to the end are separate, because the invocation for a
  timer event can be interrupted at every step and the one for Start cannot.

  The RAM is the list of bytes of \<^verbatim>\<open>Bpf_Memory\<close>: it holds the map backing store,
  the event context and the interpreter's stack. The statics that the firmware's own code keeps
  are fields of records and not part of the list.
\<close>

section \<open>The interpreter's interface\<close>

codatatype bpf_process =
    Return "u64 option"
  | Load u64 nat "bytes \<Rightarrow> bpf_process"
  | Store u64 bytes bpf_process
  | Call_Helper u32 u64 u64 u64 u64 u64 "u64 \<Rightarrow> bpf_process"

datatype helper_return = MapValueOrNull nat | Scalar

record map_region =
  mr_relocated_ptr :: u64
  mr_key_size :: u32
  mr_value_size :: u32
  mr_data_start :: u64
  mr_data_end :: u64

text \<open>The arguments of \<open>execute_program\<close>: a context is a pointer and a length. The budget
  is always unlimited and the last argument always empty.\<close>

record bpf_call =
  bc_program :: bytes
  bc_context :: "u64 \<times> nat"
  bc_helpers :: "(u32 \<times> helper_return) list"
  bc_maps :: "map_region list"
  bc_read_only :: bool

record sonde =
  so_execute :: "bpf_call \<Rightarrow> bpf_process"
  so_execute_no_maps :: "bytes \<Rightarrow> bytes \<Rightarrow> (u32 \<times> helper_return) list \<Rightarrow> bool \<Rightarrow> nat \<Rightarrow> u64 option"

definition BPF_SIZE_PROBE :: bytes where
  "BPF_SIZE_PROBE = [0xb7, 0, 0, 0, 0x2a, 0, 0, 0, 0x95, 0, 0, 0, 0, 0, 0, 0]"

definition run_bpf_size_probe :: "sonde \<Rightarrow> unit may_panic" where
  "run_bpf_size_probe so =
     (if so_execute_no_maps so BPF_SIZE_PROBE [0] [] False 2 = Some 42 then Some () else None)"

section \<open>The state a program can reach\<close>

text \<open>The clock is the stream of the instants that \<open>Instant::now()\<close> is going to return.\<close>

record 'i machine =
  mc_ram :: bytes
  mc_timer :: "'i timer_state"
  mc_helpers :: "active_map_helpers option"
  mc_clock :: "'i stream"

type_synonym 'i helper =
  "u64 \<Rightarrow> u64 \<Rightarrow> u64 \<Rightarrow> u64 \<Rightarrow> u64 \<Rightarrow> 'i machine \<Rightarrow> (u64 \<times> 'i machine) may_panic"

record 'i helper_descriptor =
  hd_id :: u32
  hd_func :: "'i helper"
  hd_ret :: helper_return

definition MAP_LOOKUP_HELPER_ID :: u32 where "MAP_LOOKUP_HELPER_ID = 10"
definition MAP_UPDATE_HELPER_ID :: u32 where "MAP_UPDATE_HELPER_ID = 11"

definition lookup_func :: "'i helper" where
  "lookup_func r1 r2 r3 r4 r5 m =
     map_option (\<lambda>v. (v, m)) (bpf_map_lookup_elem (mc_helpers m) (mc_ram m) r1 r2)"

definition update_func :: "'i helper" where
  "update_func r1 r2 r3 r4 r5 m =
     map_option (\<lambda>(v, ram). (v, m\<lparr>mc_ram := ram\<rparr>)) (bpf_map_update_elem (mc_helpers m) (mc_ram m) r1 r2 r3 r4)"

definition schedule_func :: "'i time_api \<Rightarrow> 'i helper" where
  "schedule_func api r1 r2 r3 r4 r5 m =
     map_option (\<lambda>(v, t). (v, m\<lparr>mc_timer := t, mc_clock := stl (mc_clock m)\<rparr>))
       (bpf_schedule_timer api (shd (mc_clock m)) r1 r2 (mc_timer m))"

definition cancel_func :: "'i helper" where
  "cancel_func r1 r2 r3 r4 r5 m =
     (let (v, t) = bpf_cancel_timer (mc_timer m) in Some (v, m\<lparr>mc_timer := t\<rparr>))"

definition bpf_helpers :: "'i time_api \<Rightarrow> 'i helper_descriptor list" where
  "bpf_helpers api =
     [\<lparr>hd_id = MAP_LOOKUP_HELPER_ID, hd_func = lookup_func, hd_ret = MapValueOrNull 1\<rparr>,
      \<lparr>hd_id = MAP_UPDATE_HELPER_ID, hd_func = update_func, hd_ret = Scalar\<rparr>,
      \<lparr>hd_id = 12, hd_func = schedule_func api, hd_ret = Scalar\<rparr>,
      \<lparr>hd_id = 13, hd_func = cancel_func, hd_ret = Scalar\<rparr>]"

section \<open>Running a process\<close>

fun call_helper :: "'i helper_descriptor list \<Rightarrow> u32 \<Rightarrow> 'i helper" where
  "call_helper [] i r1 r2 r3 r4 r5 m = None"
| "call_helper (h # hs) i r1 r2 r3 r4 r5 m =
     (if hd_id h = i then hd_func h r1 r2 r3 r4 r5 m else call_helper hs i r1 r2 r3 r4 r5 m)"

definition bpf_step ::
    "'i helper_descriptor list \<Rightarrow> bpf_process \<times> 'i machine \<Rightarrow> (bpf_process \<times> 'i machine) may_panic" where
  "bpf_step hs c = (case c of (p, m) \<Rightarrow>
     (case p of
        Return r \<Rightarrow> Some (p, m)
      | Load a n k \<Rightarrow> map_option (\<lambda>bs. (k bs, m)) (ram_read (mc_ram m) a n)
      | Store a bs k \<Rightarrow> map_option (\<lambda>ram. (k, m\<lparr>mc_ram := ram\<rparr>)) (ram_write (mc_ram m) a bs)
      | Call_Helper i r1 r2 r3 r4 r5 k \<Rightarrow>
          map_option (\<lambda>(v, m). (k v, m)) (call_helper hs i r1 r2 r3 r4 r5 m)))"

fun returned :: "bpf_process \<Rightarrow> u64 option option" where
  "returned (Return r) = Some r"
| "returned p = None"

partial_function (option) run_bpf ::
    "'i helper_descriptor list \<Rightarrow> bpf_process \<times> 'i machine \<Rightarrow> (u64 option \<times> 'i machine) option" where
  "run_bpf hs c = (case returned (fst c) of
       Some r \<Rightarrow> Some (r, snd c)
     | None \<Rightarrow> bpf_step hs c \<bind> run_bpf hs)"

section \<open>One invocation\<close>

fun map_regions_loop ::
    "u64 \<Rightarrow> bpf_program_metadata \<Rightarrow> nat \<Rightarrow> nat \<Rightarrow> map_region list \<Rightarrow> map_region list may_panic" where
  "map_regions_loop map_backing metadata 0 index maps = Some maps"
| "map_regions_loop map_backing metadata (Suc n) index maps = do {
     descriptor \<leftarrow> get_at (pm_maps metadata) index;
     let start = map_backing + ucast (mm_backing_offset descriptor);
     maps \<leftarrow> set_at maps index
       \<lparr>mr_relocated_ptr = start, mr_key_size = mm_key_size descriptor,
        mr_value_size = mm_value_size descriptor, mr_data_start = start,
        mr_data_end = start + ucast (mm_backing_len descriptor)\<rparr>;
     map_regions_loop map_backing metadata n (index + 1) maps
   }"

definition no_region :: map_region where
  "no_region = \<lparr>mr_relocated_ptr = 0, mr_key_size = 0, mr_value_size = 0, mr_data_start = 0, mr_data_end = 0\<rparr>"

definition BPF_EXECUTION_FLASH_BASE :: nat where "BPF_EXECUTION_FLASH_BASE = 0"

text \<open>Everything before the interpreter runs. \<open>flash\<close> is the flash as it is mapped at
  address 0.\<close>

definition launch_bpf ::
    "sonde \<Rightarrow> 'i time_api \<Rightarrow> bpf_program_metadata \<Rightarrow> u64 \<Rightarrow> u64 \<times> nat \<Rightarrow> bool \<Rightarrow> bytes \<Rightarrow> 'i machine
      \<Rightarrow> (bpf_process \<times> 'i machine) may_panic" where
  "launch_bpf so api metadata map_backing context read_only flash m = do {
     let count = unat (pm_map_count metadata);
     unused \<leftarrow> slice (replicate BPF_MAX_MAPS no_region) 0 count;
     maps \<leftarrow> map_regions_loop map_backing metadata count 0 (replicate BPF_MAX_MAPS no_region);
     let image = BPF_EXECUTION_FLASH_BASE + unat BPF_FLASH_OFFSET + BPF_HEADER_SIZE;
     program \<leftarrow> slice flash image (image + unat (pm_bytecode_len metadata));
     Some (so_execute so
             \<lparr>bc_program = program, bc_context = context,
              bc_helpers = map (\<lambda>h. (hd_id h, hd_ret h)) (bpf_helpers api),
              bc_maps = take count maps, bc_read_only = read_only\<rparr>,
           m\<lparr>mc_helpers := Some \<lparr>am_backing = map_backing, am_metadata = metadata\<rparr>\<rparr>)
   }"

definition finish_bpf :: "u64 option \<Rightarrow> 'i machine \<Rightarrow> (u8, u64) rust_result \<times> 'i machine" where
  "finish_bpf r m =
     (case r of Some v \<Rightarrow> Inr v | None \<Rightarrow> Inl STATUS_BAD_COMMAND, m\<lparr>mc_helpers := None\<rparr>)"

definition execute_loaded_bpf ::
    "sonde \<Rightarrow> 'i time_api \<Rightarrow> bpf_program_metadata \<Rightarrow> u64 \<Rightarrow> u64 \<times> nat \<Rightarrow> bool \<Rightarrow> bytes \<Rightarrow> 'i machine
      \<Rightarrow> ((u8, u64) rust_result \<times> 'i machine) may_panic" where
  "execute_loaded_bpf so api metadata map_backing context read_only flash m = do {
     c \<leftarrow> launch_bpf so api metadata map_backing context read_only flash m;
     (r, m) \<leftarrow> run_bpf (bpf_helpers api) c;
     Some (finish_bpf r m)
   }"

section \<open>Address ranges\<close>

definition accessible :: "(u64 \<times> u64) list \<Rightarrow> u64 \<Rightarrow> nat \<Rightarrow> bool" where
  "accessible rs a n \<longleftrightarrow> 0 < n \<and> (\<exists>(s, e)\<in>set rs. s \<le> a \<and> unat a + n \<le> unat e)"

definition in_ram :: "(u64 \<times> u64) list \<Rightarrow> bool" where
  "in_ram rs \<longleftrightarrow> (\<forall>(s, e)\<in>set rs. s < e \<longrightarrow> BPF_RAM_START \<le> s \<and> e \<le> BPF_RAM_END)"

text \<open>Every byte of the RAM outside the ranges is the same.\<close>

definition untouched :: "(u64 \<times> u64) list \<Rightarrow> bytes \<Rightarrow> bytes \<Rightarrow> bool" where
  "untouched rs ram ram' \<longleftrightarrow> length ram' = length ram \<and> (\<forall>j.
     (\<forall>(s, e)\<in>set rs. \<not> (unat s \<le> 0x20000000 + j \<and> 0x20000000 + j < unat e)) \<longrightarrow> ram' ! j = ram ! j)"

lemma untouched_refl [simp]: "untouched rs ram ram"
  by (simp add: untouched_def)

lemma untouched_trans: "untouched rs a b \<Longrightarrow> untouched rs b c \<Longrightarrow> untouched rs a c"
  by (simp add: untouched_def)

lemma untouched_mono: "untouched rs a b \<Longrightarrow> set rs \<subseteq> set rs' \<Longrightarrow> untouched rs' a b"
  unfolding untouched_def by blast

lemma in_ram_cases [simp]:
  "in_ram []" "in_ram ((s, e) # rs) \<longleftrightarrow> (s < e \<longrightarrow> BPF_RAM_START \<le> s \<and> e \<le> BPF_RAM_END) \<and> in_ram rs"
  "in_ram (rs @ rs') \<longleftrightarrow> in_ram rs \<and> in_ram rs'"
  by (auto simp: in_ram_def)

lemma accessible_bounds:
  assumes "in_ram rs" and "accessible rs a n"
  shows "BPF_RAM_START \<le> a" and "unat a + n \<le> 0x20002800"
proof -
  obtain s e where r: "(s, e) \<in> set rs" "s \<le> a" "unat a + n \<le> unat e" and n: "0 < n"
    using assms(2) by (auto simp: accessible_def)
  then have "s < e" by (simp add: word_less_nat_alt word_le_nat_alt)
  then have "BPF_RAM_START \<le> s" "e \<le> BPF_RAM_END" using r(1) assms(1) by (auto simp: in_ram_def)
  then show "BPF_RAM_START \<le> a" "unat a + n \<le> 0x20002800"
    using r(2,3) by (simp_all add: word_le_nat_alt ram_consts)
qed

lemma accessible_read:
  assumes "in_ram rs" and "accessible rs a n" and "length ram = 10240"
  shows "\<exists>bs. ram_read ram a n = Some bs \<and> length bs = n"
  using accessible_bounds [OF assms(1,2)] assms(3)
  by (auto simp: ram_read_def slice_def ram_index_def ram_consts word_le_nat_alt word_less_nat_alt)

lemma accessible_write:
  assumes "in_ram rs" and "accessible rs a (length bs)" and "length ram = 10240"
  shows "\<exists>ram'. ram_write ram a bs = Some ram' \<and> untouched rs ram ram'"
proof -
  note b = accessible_bounds [OF assms(1,2)]
  let ?i = "ram_index a"
  have i: "unat a = 0x20000000 + ?i" using b(1) by (simp add: ram_index_def ram_consts word_le_nat_alt)
  have w: "ram_write ram a bs = Some (take ?i ram @ bs @ drop (?i + length bs) ram)"
    using b i assms(3) by (simp add: ram_write_def copy_into_def ram_consts word_le_nat_alt word_less_nat_alt)
  obtain s e where r: "(s, e) \<in> set rs" "unat s \<le> unat a" "unat a + length bs \<le> unat e"
    using assms(2) by (auto simp: accessible_def word_le_nat_alt)
  have "(take ?i ram @ bs @ drop (?i + length bs) ram) ! j = ram ! j" if "j < ?i \<or> ?i + length bs \<le> j" for j
    using that b i assms(3) by (auto simp: nth_append)
  moreover have "j < ?i \<or> ?i + length bs \<le> j" if "\<not> (unat s \<le> 0x20000000 + j \<and> 0x20000000 + j < unat e)" for j
    using that r(2,3) i by auto
  ultimately have "untouched rs ram (take ?i ram @ bs @ drop (?i + length bs) ram)"
    using r(1) b i assms(3) unfolding untouched_def by auto
  then show ?thesis using w by blast
qed

section \<open>What the code relies on of the interpreter\<close>

text \<open>A process is confined when it loads and stores only where it may and calls only registered
  helpers, whatever it is told in answer.\<close>

coinductive confined :: "u32 set \<Rightarrow> (u64 \<times> u64) list \<Rightarrow> (u64 \<times> u64) list \<Rightarrow> bpf_process \<Rightarrow> bool"
  for ids rd wr where
  confined_Return: "confined ids rd wr (Return r)"
| confined_Load: "accessible rd a n \<Longrightarrow> (\<And>bs. length bs = n \<Longrightarrow> confined ids rd wr (k bs))
    \<Longrightarrow> confined ids rd wr (Load a n k)"
| confined_Store: "accessible wr a (length bs) \<Longrightarrow> confined ids rd wr p \<Longrightarrow> confined ids rd wr (Store a bs p)"
| confined_Call: "i \<in> ids \<Longrightarrow> (\<And>v. confined ids rd wr (k v))
    \<Longrightarrow> confined ids rd wr (Call_Helper i r1 r2 r3 r4 r5 k)"

inductive_cases confined_LoadE: "confined ids rd wr (Load a n k)"
inductive_cases confined_StoreE: "confined ids rd wr (Store a bs p)"
inductive_cases confined_CallE: "confined ids rd wr (Call_Helper i r1 r2 r3 r4 r5 k)"

definition map_ranges :: "bpf_call \<Rightarrow> (u64 \<times> u64) list" where
  "map_ranges c = map (\<lambda>r. (mr_data_start r, mr_data_end r)) (bc_maps c)"

definition context_range :: "u64 \<times> nat \<Rightarrow> u64 \<times> u64" where
  "context_range c = (fst c, fst c + of_nat (snd c))"

definition readable :: "u64 \<times> u64 \<Rightarrow> bpf_call \<Rightarrow> (u64 \<times> u64) list" where
  "readable stack c = stack # context_range (bc_context c) # map_ranges c"

definition writable :: "u64 \<times> u64 \<Rightarrow> bpf_call \<Rightarrow> (u64 \<times> u64) list" where
  "writable stack c = stack # (if bc_read_only c then [] else [context_range (bc_context c)]) @ map_ranges c"

text \<open>sonde-bpf checks every access against its stack, the context and the map regions it was
  given, does not write a read-only context, and calls registered helpers only.\<close>

definition sonde_ok :: "sonde \<Rightarrow> u64 \<times> u64 \<Rightarrow> bool" where
  "sonde_ok so stack \<longleftrightarrow>
     (\<forall>c. confined (set (map fst (bc_helpers c))) (readable stack c) (writable stack c) (so_execute so c))"

text \<open>A program that ends on every path.\<close>

inductive halting :: "bpf_process \<Rightarrow> bool" where
  halting_Return: "halting (Return r)"
| halting_Load: "(\<And>bs. length bs = n \<Longrightarrow> halting (k bs)) \<Longrightarrow> halting (Load a n k)"
| halting_Store: "halting p \<Longrightarrow> halting (Store a bs p)"
| halting_Call: "(\<And>v. halting (k v)) \<Longrightarrow> halting (Call_Helper i r1 r2 r3 r4 r5 k)"

text \<open>Adding a delay that fits 32 bits of milliseconds to an instant does not overflow.\<close>

definition time_total :: "'i time_api \<Rightarrow> bool" where
  "time_total api \<longleftrightarrow> (\<forall>i d. d \<le> 0xffffffff \<longrightarrow> ta_add_ms api i d \<noteq> None)"

section \<open>Helpers keep the state and stay inside the maps\<close>

definition helper_ranges :: "active_map_helpers \<Rightarrow> (u64 \<times> u64) list" where
  "helper_ranges st = map (\<lambda>m. (map_pointer st m, map_pointer st m + ucast (mm_backing_len m)))
     (take (unat (pm_map_count (am_metadata st))) (pm_maps (am_metadata st)))"

definition exec_inv :: "active_map_helpers \<Rightarrow> 'i machine \<Rightarrow> bool" where
  "exec_inv st m \<longleftrightarrow> mc_helpers m = Some st \<and> helpers_ok st (mc_ram m) \<and> timer_inv (mc_timer m)"

lemma map_range_unat:
  assumes "base_ok (am_backing st)" and "metadata_ok (am_metadata st)"
    and "i < unat (pm_map_count (am_metadata st))"
  shows "unat (map_pointer st (pm_maps (am_metadata st) ! i))
      = unat (am_backing st) + unat (mm_backing_offset (pm_maps (am_metadata st) ! i))"
    and "unat (map_pointer st (pm_maps (am_metadata st) ! i) + ucast (mm_backing_len (pm_maps (am_metadata st) ! i)))
      = unat (am_backing st) + unat (mm_backing_offset (pm_maps (am_metadata st) ! i))
        + unat (mm_backing_len (pm_maps (am_metadata st) ! i))"
proof -
  let ?m = "pm_maps (am_metadata st) ! i"
  let ?o = "unat (mm_backing_offset ?m)" let ?l = "unat (mm_backing_len ?m)"
  have le: "?o + ?l \<le> 1024" using metadata_ok_nth(4) [OF assms(2,3)] .
  show "unat (map_pointer st ?m) = unat (am_backing st) + ?o"
    unfolding map_pointer_of_nat using le by (intro pointer_into_backing(3) [OF assms(1)]) simp
  have "map_pointer st ?m + ucast (mm_backing_len ?m) = am_backing st + of_nat (?o + ?l)"
    unfolding map_pointer_of_nat by simp
  then show "unat (map_pointer st ?m + ucast (mm_backing_len ?m)) = unat (am_backing st) + ?o + ?l"
    using pointer_into_backing(3) [OF assms(1) le] by (simp add: add.assoc)
qed

lemma in_ram_helper_ranges:
  assumes "base_ok (am_backing st)" and "metadata_ok (am_metadata st)"
  shows "in_ram (helper_ranges st)"
proof -
  have "BPF_RAM_START \<le> map_pointer st (pm_maps (am_metadata st) ! i)
      \<and> map_pointer st (pm_maps (am_metadata st) ! i) + ucast (mm_backing_len (pm_maps (am_metadata st) ! i)) \<le> BPF_RAM_END"
    if "i < unat (pm_map_count (am_metadata st))" for i
    using map_range_unat [OF assms that] metadata_ok_nth(4) [OF assms(2) that] assms(1)
    by (simp add: base_ok_def word_le_nat_alt ram_consts)
  then show ?thesis by (auto simp: in_ram_def helper_ranges_def in_set_conv_nth)
qed

lemma with_backing_untouched:
  assumes "helpers_ok st ram" and "i < unat (pm_map_count (am_metadata st))"
    and "update (pm_maps (am_metadata st) ! i) e v (backing_of (am_backing st) ram) = Some b"
  shows "untouched (helper_ranges st) ram (with_backing (am_backing st) ram b)" and "length b = 1024"
proof -
  let ?m = "pm_maps (am_metadata st) ! i" let ?base = "am_backing st" let ?b0 = "backing_of ?base ram"
  let ?o = "unat (mm_backing_offset ?m)" let ?l = "unat (mm_backing_len ?m)"
  have md: "metadata_ok (am_metadata st)" "base_ok ?base" "length ram = 10240"
    using assms(1) by (simp_all add: helpers_ok_def)
  have lb: "length ?b0 = 1024" by (rule length_backing_of [OF md(2,3)])
  obtain off where cp: "copy_into ?b0 (?o + off) v = Some b" and fit: "off + length v \<le> ?l"
    using assms(3) by (auto simp: update_def Let_def bind_some_iff value_range_iff split: if_splits)
  show len: "length b = 1024" using copy_into_length [OF cp] lb by simp
  note wb = with_backing_props [OF md(2,3) len]
  let ?i = "ram_index ?base"
  have base: "unat ?base = 0x20000000 + ?i"
    using md(2) by (simp add: base_ok_def ram_index_def word_le_nat_alt ram_consts)
  have out: "with_backing ?base ram b ! j = ram ! j" if "j < ?i + ?o \<or> ?i + ?o + ?l \<le> j" for j
  proof (cases "j < ?i \<or> ?i + 1024 \<le> j")
    case True
    then show ?thesis using wb(3) by (auto simp: same_outside_def)
  next
    case False
    then have j: "j - ?i < 1024" and "j - ?i < ?o + off \<or> ?o + off + length v \<le> j - ?i"
      using that fit by auto
    have "with_backing ?base ram b ! j = b ! (j - ?i)"
      using False len base_index [OF md(2)] md(3) by (auto simp: with_backing_def nth_append)
    also have "\<dots> = ?b0 ! (j - ?i)"
      using copy_into_nth_outside [OF cp] j lb \<open>j - ?i < ?o + off \<or> _\<close> by auto
    also have "\<dots> = ram ! j"
      using False j base_index [OF md(2)] md(3) by (simp add: backing_of_def)
    finally show ?thesis .
  qed
  have r: "(map_pointer st ?m, map_pointer st ?m + ucast (mm_backing_len ?m)) \<in> set (helper_ranges st)"
    using assms(2) metadata_ok_nth(1) [OF md(1) assms(2)] nth_mem [of i "take (unat (pm_map_count (am_metadata st))) (pm_maps (am_metadata st))"]
    by (auto simp: helper_ranges_def)
  have "with_backing ?base ram b ! j = ram ! j"
    if "\<forall>(s, e)\<in>set (helper_ranges st). \<not> (unat s \<le> 0x20000000 + j \<and> 0x20000000 + j < unat e)" for j
  proof -
    have "\<not> (unat (map_pointer st ?m) \<le> 0x20000000 + j
        \<and> 0x20000000 + j < unat (map_pointer st ?m + ucast (mm_backing_len ?m)))"
      using that r by blast
    then have "j < ?i + ?o \<or> ?i + ?o + ?l \<le> j"
      unfolding map_range_unat [OF md(2,1) assms(2)] base by auto
    then show ?thesis by (rule out)
  qed
  then show "untouched (helper_ranges st) ram (with_backing ?base ram b)"
    using wb(1) md(3) by (simp add: untouched_def)
qed

lemma update_elem_untouched:
  assumes "helpers_ok st ram"
  shows "\<exists>v' ram'. bpf_map_update_elem (Some st) ram mp key v flags = Some (v', ram')
    \<and> helpers_ok st ram' \<and> untouched (helper_ranges st) ram ram'"
proof (cases "\<exists>v'. bpf_map_update_elem (Some st) ram mp key v flags = Some (v', ram)")
  case True
  then show ?thesis using assms by auto
next
  case False
  then obtain i vb b where mp: "map_of_pointer st mp = Some i"
    and up: "update (pm_maps (am_metadata st) ! i) (key_at ram key) vb (backing_of (am_backing st) ram) = Some b"
    and res: "bpf_map_update_elem (Some st) ram mp key v flags = Some (0, with_backing (am_backing st) ram b)"
    using update_elem_value [OF assms, of mp key v flags]
    by (auto simp: Let_def split: option.splits if_splits)
  have i: "i < unat (pm_map_count (am_metadata st))" using map_of_pointer_SomeD [OF mp] by simp
  note b = with_backing_untouched [OF assms i up]
  have "helpers_ok st (with_backing (am_backing st) ram b)"
    using assms with_backing_props(1) [OF _ _ b(2), of "am_backing st" ram] by (simp add: helpers_ok_def)
  then show ?thesis using res b(1) by blast
qed

definition helper_ids :: "u32 set" where "helper_ids = {10, 11, 12, 13}"

lemma registered_ids: "set (map fst (map (\<lambda>h. (hd_id h, hd_ret h)) (bpf_helpers api))) = helper_ids"
  by (simp add: bpf_helpers_def helper_ids_def MAP_LOOKUP_HELPER_ID_def MAP_UPDATE_HELPER_ID_def)

lemma call_helper_cases:
  assumes "i \<in> helper_ids"
  shows "call_helper (bpf_helpers api) i =
    (if i = 10 then lookup_func else if i = 11 then update_func
     else if i = 12 then schedule_func api else cancel_func)"
  using assms by (auto simp: fun_eq_iff bpf_helpers_def helper_ids_def MAP_LOOKUP_HELPER_ID_def MAP_UPDATE_HELPER_ID_def)

lemma helper_result:
  assumes "i \<in> helper_ids" and "exec_inv st m"
  shows "case call_helper (bpf_helpers api) i r1 r2 r3 r4 r5 m of
      None \<Rightarrow> \<not> time_total api
    | Some (v, m') \<Rightarrow> exec_inv st m' \<and> untouched (helper_ranges st) (mc_ram m) (mc_ram m')"
proof -
  have h: "mc_helpers m = Some st" "helpers_ok st (mc_ram m)" "timer_inv (mc_timer m)"
    using assms(2) by (simp_all add: exec_inv_def)
  have sched: "\<not> time_total api" if "bpf_schedule_timer api t r1 r2 (mc_timer m) = None" for t
    using that by (auto simp: time_total_def bpf_schedule_timer_def next_timer_generation_def Let_def
        bind_eq_None_conv not_less split: if_splits)
  obtain u where look: "bpf_map_lookup_elem (Some st) (mc_ram m) r1 r2 = Some u"
    using lookup_elem_value [OF h(2), of r1 r2] by simp
  obtain v' ram' where upd: "bpf_map_update_elem (Some st) (mc_ram m) r1 r2 r3 r4 = Some (v', ram')"
    "helpers_ok st ram'" "untouched (helper_ranges st) (mc_ram m) ram'"
    using update_elem_untouched [OF h(2), of r1 r2 r3 r4] by blast
  consider "i = 10" | "i = 11" | "i = 12" | "i = 13" using assms(1) by (auto simp: helper_ids_def)
  then show ?thesis
  proof cases
    case 1
    then have "call_helper (bpf_helpers api) i = lookup_func" using call_helper_cases [OF assms(1)] by simp
    then show ?thesis using h look by (simp add: lookup_func_def exec_inv_def)
  next
    case 2
    then have "call_helper (bpf_helpers api) i = update_func" using call_helper_cases [OF assms(1)] by simp
    then show ?thesis using h upd by (simp add: update_func_def exec_inv_def)
  next
    case 3
    then have "call_helper (bpf_helpers api) i = schedule_func api" using call_helper_cases [OF assms(1)] by simp
    then show ?thesis
      using h sched timer_inv_schedule [OF h(3), of api "shd (mc_clock m)" r1 r2]
      by (auto simp: schedule_func_def exec_inv_def split: option.split)
  next
    case 4
    then have "call_helper (bpf_helpers api) i = cancel_func" using call_helper_cases [OF assms(1)] by simp
    then show ?thesis
      using h timer_inv_cancel [of "mc_timer m"] by (simp add: cancel_func_def exec_inv_def case_prod_beta)
  qed
qed

section \<open>Steps and runs\<close>

definition regions_ok :: "u64 \<times> u64 \<Rightarrow> u64 \<times> nat \<Rightarrow> bool" where
  "regions_ok stack context \<longleftrightarrow> in_ram [stack, context_range context]"

text \<open>The process under way and the state, as they are from the launch to the return.\<close>

definition running_ok ::
    "(u64 \<times> u64) list \<Rightarrow> (u64 \<times> u64) list \<Rightarrow> active_map_helpers \<Rightarrow> bpf_process \<times> 'i machine \<Rightarrow> bool" where
  "running_ok rd wr st c \<longleftrightarrow> confined helper_ids rd wr (fst c) \<and> exec_inv st (snd c)
     \<and> in_ram rd \<and> in_ram wr \<and> set (helper_ranges st) \<subseteq> set wr"

lemma exec_inv_ram: "exec_inv st m \<Longrightarrow> length (mc_ram m) = 10240"
  by (simp add: exec_inv_def helpers_ok_def)

lemma step_result:
  assumes "running_ok rd wr st (p, m)"
  shows "case bpf_step (bpf_helpers api) (p, m) of
      None \<Rightarrow> \<not> time_total api
    | Some (p', m') \<Rightarrow> running_ok rd wr st (p', m') \<and> untouched wr (mc_ram m) (mc_ram m')
        \<and> (halting p \<longrightarrow> halting p')"
proof (cases p)
  case (Return r)
  then show ?thesis using assms by (simp add: bpf_step_def)
next
  case (Load a n k)
  have acc: "accessible rd a n" and k: "\<And>bs. length bs = n \<Longrightarrow> confined helper_ids rd wr (k bs)"
    using assms unfolding running_ok_def Load by (auto elim: confined_LoadE)
  obtain bs where "ram_read (mc_ram m) a n = Some bs" "length bs = n"
    using accessible_read [OF _ acc exec_inv_ram] assms by (auto simp: running_ok_def)
  then show ?thesis using assms k
    by (auto simp: Load bpf_step_def running_ok_def elim: halting.cases)
next
  case (Store a bs k)
  have acc: "accessible wr a (length bs)" and k: "confined helper_ids rd wr k"
    using assms unfolding running_ok_def Store by (auto elim: confined_StoreE)
  obtain ram where w: "ram_write (mc_ram m) a bs = Some ram" "untouched wr (mc_ram m) ram"
    using accessible_write [OF _ acc exec_inv_ram [of st]] assms unfolding running_ok_def by auto
  then have "length ram = length (mc_ram m)" by (simp add: untouched_def)
  then show ?thesis using assms k w
    by (auto simp: Store bpf_step_def running_ok_def exec_inv_def helpers_ok_def elim: halting.cases)
next
  case (Call_Helper i r1 r2 r3 r4 r5 k)
  have i: "i \<in> helper_ids" and k: "\<And>v. confined helper_ids rd wr (k v)"
    using assms unfolding running_ok_def Call_Helper by (auto elim: confined_CallE)
  have "exec_inv st m" using assms by (simp add: running_ok_def)
  note res = helper_result [OF i this, of api r1 r2 r3 r4 r5]
  have halt: "halting (k v)" if "halting p" for v
    using that unfolding Call_Helper by (auto elim: halting.cases)
  show ?thesis
  proof (cases "call_helper (bpf_helpers api) i r1 r2 r3 r4 r5 m")
    case None
    then show ?thesis using res by (simp add: Call_Helper bpf_step_def)
  next
    case (Some x)
    obtain v m' where x: "x = (v, m')" by (cases x)
    have m': "exec_inv st m'" "untouched (helper_ranges st) (mc_ram m) (mc_ram m')"
      using res Some x by simp_all
    then have "untouched wr (mc_ram m) (mc_ram m')"
      using assms untouched_mono [of "helper_ranges st"] by (simp add: running_ok_def)
    then show ?thesis using Some x m'(1) k halt assms
      by (simp add: Call_Helper bpf_step_def running_ok_def)
  qed
qed

lemma returned_Some [simp]: "returned p = Some r \<longleftrightarrow> p = Return r"
  by (cases p) auto

lemma run_bpf_safe:
  assumes "run_bpf (bpf_helpers api) c = Some res" and "running_ok rd wr st c"
  shows "running_ok rd wr st (Return (fst res), snd res) \<and> untouched wr (mc_ram (snd c)) (mc_ram (snd res))"
proof -
  have "hs = bpf_helpers api \<longrightarrow> running_ok rd wr st c \<longrightarrow>
      running_ok rd wr st (Return (fst res), snd res) \<and> untouched wr (mc_ram (snd c)) (mc_ram (snd res))"
    if "run_bpf hs c = Some res" for hs :: "'a helper_descriptor list" and c res
  proof (rule run_bpf.raw_induct [OF _ that])
    fix f and hs :: "'a helper_descriptor list" and c res
    assume IH: "\<And>hs c res. f hs c = Some res \<Longrightarrow> hs = bpf_helpers api \<longrightarrow> running_ok rd wr st c \<longrightarrow>
        running_ok rd wr st (Return (fst res), snd res) \<and> untouched wr (mc_ram (snd c)) (mc_ram (snd res))"
      and eq: "(case returned (fst c) of None \<Rightarrow> bpf_step hs c \<bind> f hs | Some r \<Rightarrow> Some (r, snd c)) = Some res"
    show "hs = bpf_helpers api \<longrightarrow> running_ok rd wr st c \<longrightarrow>
        running_ok rd wr st (Return (fst res), snd res) \<and> untouched wr (mc_ram (snd c)) (mc_ram (snd res))"
    proof (intro impI)
      assume hs: "hs = bpf_helpers api" and ok: "running_ok rd wr st c"
      obtain p m where c: "c = (p, m)" by (cases c)
      show "running_ok rd wr st (Return (fst res), snd res) \<and> untouched wr (mc_ram (snd c)) (mc_ram (snd res))"
      proof (cases "returned p")
        case (Some r)
        then show ?thesis using eq ok c by auto
      next
        case None
        then obtain p' m' where s: "bpf_step (bpf_helpers api) (p, m) = Some (p', m')" and f: "f hs (p', m') = Some res"
          using eq c hs by (auto simp: bind_some_iff)
        have "running_ok rd wr st (p', m')" "untouched wr (mc_ram m) (mc_ram m')"
          using step_result [of rd wr st p m api] ok s c by auto
        then show ?thesis using IH [OF f] hs c untouched_trans by auto
      qed
    qed
  qed
  then show ?thesis using assms by blast
qed

lemma run_bpf_total:
  assumes "halting p" and "running_ok rd wr st (p, m)" and "time_total api"
  shows "\<exists>res. run_bpf (bpf_helpers api) (p, m) = Some res"
  using assms(1,2)
proof (induction arbitrary: m)
  case (halting_Return r)
  then show ?case by (simp add: run_bpf.simps)
next
  case (halting_Load n k a)
  obtain p' m' where s: "bpf_step (bpf_helpers api) (Load a n k, m) = Some (p', m')" "running_ok rd wr st (p', m')"
    using step_result [OF halting_Load.prems, of api] assms(3) by (cases "bpf_step (bpf_helpers api) (Load a n k, m)") auto
  then obtain bs where "p' = k bs" "ram_read (mc_ram m) a n = Some bs" by (auto simp: bpf_step_def)
  moreover have "length bs = n"
    using slice_length [of "mc_ram m" "ram_index a" "ram_index a + n" bs] calculation(2)
    by (simp add: ram_read_def split: if_splits)
  ultimately show ?case using s halting_Load.IH by (subst run_bpf.simps) auto
next
  case (halting_Store p a bs)
  obtain p' m' where s: "bpf_step (bpf_helpers api) (Store a bs p, m) = Some (p', m')" "running_ok rd wr st (p', m')"
    using step_result [OF halting_Store.prems, of api] assms(3) by (cases "bpf_step (bpf_helpers api) (Store a bs p, m)") auto
  then have "p' = p" by (auto simp: bpf_step_def)
  then show ?case using s halting_Store.IH by (subst run_bpf.simps) auto
next
  case (halting_Call k i r1 r2 r3 r4 r5)
  let ?p = "Call_Helper i r1 r2 r3 r4 r5 k"
  obtain p' m' where s: "bpf_step (bpf_helpers api) (?p, m) = Some (p', m')" "running_ok rd wr st (p', m')"
    using step_result [OF halting_Call.prems, of api] assms(3) by (cases "bpf_step (bpf_helpers api) (?p, m)") auto
  then obtain v where "p' = k v" by (auto simp: bpf_step_def)
  then show ?case using s halting_Call.IH by (subst run_bpf.simps) auto
qed

section \<open>Launching\<close>

definition region_of :: "u64 \<Rightarrow> bpf_map_metadata \<Rightarrow> map_region" where
  "region_of base d = (let start = base + ucast (mm_backing_offset d) in
     \<lparr>mr_relocated_ptr = start, mr_key_size = mm_key_size d, mr_value_size = mm_value_size d,
      mr_data_start = start, mr_data_end = start + ucast (mm_backing_len d)\<rparr>)"

text \<open>The call that an invocation makes.\<close>

definition invocation ::
    "'i time_api \<Rightarrow> bpf_program_metadata \<Rightarrow> u64 \<Rightarrow> u64 \<times> nat \<Rightarrow> bool \<Rightarrow> bytes \<Rightarrow> bpf_call" where
  "invocation api md base context read_only code =
     \<lparr>bc_program = code, bc_context = context,
      bc_helpers = map (\<lambda>h. (hd_id h, hd_ret h)) (bpf_helpers api),
      bc_maps = map (region_of base) (take (unat (pm_map_count md)) (pm_maps md)),
      bc_read_only = read_only\<rparr>"

definition active :: "u64 \<Rightarrow> bpf_program_metadata \<Rightarrow> active_map_helpers" where
  "active base md = \<lparr>am_backing = base, am_metadata = md\<rparr>"

lemma map_regions_loop_value:
  assumes "i + n \<le> length maps" and "i + n \<le> length (pm_maps md)"
  shows "map_regions_loop base md n i maps
    = Some (take i maps @ map (region_of base) (take n (drop i (pm_maps md))) @ drop (i + n) maps)"
  using assms
proof (induction n arbitrary: i maps)
  case (Suc n)
  let ?x = "region_of base (pm_maps md ! i)"
  have "map_regions_loop base md (Suc n) i maps = map_regions_loop base md n (i + 1) (maps[i := ?x])"
    using Suc.prems by (simp add: get_at_def set_at_def region_of_def Let_def)
  also have "\<dots> = Some (take (i + 1) (maps[i := ?x])
      @ map (region_of base) (take n (drop (i + 1) (pm_maps md))) @ drop (i + 1 + n) (maps[i := ?x]))"
    using Suc.prems by (intro Suc.IH) simp_all
  also have "take (i + 1) (maps[i := ?x]) = take i maps @ [?x]"
    using Suc.prems by (simp add: take_Suc_conv_app_nth)
  also have "take (Suc n) (drop i (pm_maps md)) = pm_maps md ! i # take n (drop (i + 1) (pm_maps md))"
    using Suc.prems by (simp add: take_Suc_conv_app_nth Cons_nth_drop_Suc [symmetric])
  ultimately show ?case using Suc.prems by simp
qed simp

lemma launch_value:
  assumes "metadata_ok md" and "slice flash 0x6010 (0x6010 + unat (pm_bytecode_len md)) = Some code"
  shows "launch_bpf so api md base context ro flash m =
    Some (so_execute so (invocation api md base context ro code), m\<lparr>mc_helpers := Some (active base md)\<rparr>)"
proof -
  have n: "unat (pm_map_count md) \<le> 8" "unat (pm_map_count md) \<le> length (pm_maps md)"
    using assms(1) by (simp_all add: metadata_ok_def layouts_ok_def program_layouts_def)
  have "BPF_EXECUTION_FLASH_BASE + unat BPF_FLASH_OFFSET + BPF_HEADER_SIZE = 0x6010"
    by (simp add: BPF_EXECUTION_FLASH_BASE_def BPF_FLASH_OFFSET_def)
  then show ?thesis
    using n assms(2) map_regions_loop_value [of 0 "unat (pm_map_count md)" "replicate 8 no_region" md base]
    by (simp add: launch_bpf_def Let_def slice_def invocation_def active_def)
qed

lemma map_ranges_invocation:
  "map_ranges (invocation api md base context ro code) = helper_ranges (active base md)"
  by (simp add: map_ranges_def invocation_def helper_ranges_def active_def region_of_def map_pointer_def Let_def)

definition launch_ok :: "u64 \<Rightarrow> bpf_program_metadata \<Rightarrow> 'i machine \<Rightarrow> bool" where
  "launch_ok base md m \<longleftrightarrow> base_ok base \<and> metadata_ok md \<and> length (mc_ram m) = RAM_BYTES \<and> timer_inv (mc_timer m)"

lemma launch_running:
  assumes "sonde_ok so stack" and "regions_ok stack context" and "launch_ok base md m"
    and c_def: "c = invocation api md base context ro code"
  shows "running_ok (readable stack c) (writable stack c) (active base md)
    (so_execute so c, m\<lparr>mc_helpers := Some (active base md)\<rparr>)"
proof -
  have ids: "set (map fst (bc_helpers c)) = helper_ids"
    using registered_ids [of api] by (simp add: c_def invocation_def)
  have "confined helper_ids (readable stack c) (writable stack c) (so_execute so c)"
    using assms(1) ids unfolding sonde_ok_def by metis
  moreover have "in_ram (helper_ranges (active base md))"
    using assms(3) by (intro in_ram_helper_ranges) (simp_all add: launch_ok_def active_def)
  moreover have "bc_context c = context" by (simp add: c_def invocation_def)
  ultimately show ?thesis
    using assms(2,3) map_ranges_invocation [of api md base "context" ro code, folded c_def]
    by (cases stack; cases "context_range context")
       (auto simp: running_ok_def readable_def writable_def regions_ok_def exec_inv_def helpers_ok_def
         launch_ok_def active_def)
qed

text \<open>The ranges an invocation may write.\<close>

definition invocation_writes ::
    "u64 \<times> u64 \<Rightarrow> u64 \<Rightarrow> bpf_program_metadata \<Rightarrow> u64 \<times> nat \<Rightarrow> bool \<Rightarrow> (u64 \<times> u64) list" where
  "invocation_writes stack base md context read_only =
     stack # (if read_only then [] else [context_range context]) @ helper_ranges (active base md)"

lemma writable_invocation:
  "writable stack (invocation api md base context ro code) = invocation_writes stack base md context ro"
  unfolding writable_def map_ranges_invocation by (simp add: invocation_writes_def invocation_def)

lemma execution_contained:
  assumes "sonde_ok so stack" and "regions_ok stack context" and "launch_ok base md m"
    and "execute_loaded_bpf so api md base context read_only flash m = Some (res, m')"
  shows "untouched (invocation_writes stack base md context read_only) (mc_ram m) (mc_ram m')
    \<and> mc_helpers m' = None \<and> timer_inv (mc_timer m') \<and> (\<forall>status. res = Inl status \<longrightarrow> status = STATUS_BAD_COMMAND)"
proof -
  obtain c r m1 where launch: "launch_bpf so api md base context read_only flash m = Some c"
    and run: "run_bpf (bpf_helpers api) c = Some (r, m1)" and fin: "finish_bpf r m1 = (res, m')"
    using assms(4) by (auto simp: execute_loaded_bpf_def bind_some_iff)
  have md: "metadata_ok md" using assms(3) by (simp add: launch_ok_def)
  obtain code where code: "slice flash 0x6010 (0x6010 + unat (pm_bytecode_len md)) = Some code"
    using launch by (auto simp: launch_bpf_def Let_def bind_some_iff BPF_EXECUTION_FLASH_BASE_def BPF_FLASH_OFFSET_def)
  have c: "c = (so_execute so (invocation api md base context read_only code), m\<lparr>mc_helpers := Some (active base md)\<rparr>)"
    using launch launch_value [OF md code, of so api base "context" read_only m] by simp
  have "running_ok (readable stack (invocation api md base context read_only code))
      (invocation_writes stack base md context read_only) (active base md) c"
    using launch_running [OF assms(1,2,3) refl, of api read_only code] unfolding c writable_invocation .
  from run_bpf_safe [OF run this] show ?thesis
    using fin c by (auto simp: finish_bpf_def running_ok_def exec_inv_def split: option.splits)
qed

section \<open>Properties\<close>

text \<open>C10: An invocation is contained: when it returns, whatever the program did, only bytes of its
  maps, of the interpreter's stack and of a writable context have changed, the map helpers are
  deactivated again, the timer state is consistent, and the result is a value or BAD_COMMAND.\<close>

theorem program_stays_in_its_regions:
  assumes "sonde_ok so stack" and "regions_ok stack context" and "launch_ok base md m"
    and "execute_loaded_bpf so api md base context read_only flash m = Some (res, m')"
  shows "untouched (invocation_writes stack base md context read_only) (mc_ram m) (mc_ram m')
    \<and> mc_helpers m' = None \<and> timer_inv (mc_timer m') \<and> (\<forall>status. res = Inl status \<longrightarrow> status = STATUS_BAD_COMMAND)"
  by (rule execution_contained [OF assms])

text \<open>An interpreter that runs one program, for the witnesses: it stores a byte into the first
  map if that is allowed.\<close>

definition sample_stack :: "u64 \<times> u64" where "sample_stack = (0x20002000, 0x20002200)"

definition sample_sonde :: sonde where
  "sample_sonde = \<lparr>so_execute = \<lambda>c. if accessible (writable sample_stack c) 0x20000100 1
       then Store 0x20000100 [7] (Return (Some 0)) else Return None,
     so_execute_no_maps = \<lambda>_ _ _ _ _. Some 42\<rparr>"

definition sample_machine :: "nat machine" where
  "sample_machine = \<lparr>mc_ram = sample_ram, mc_timer = timer_state_new, mc_helpers = None, mc_clock = sconst 0\<rparr>"

definition sample_program :: bpf_program_metadata where
  "sample_program = program_metadata two_maps"

lemma sample_sonde_ok: "sonde_ok sample_sonde sample_stack"
  by (auto simp: sonde_ok_def sample_sonde_def intro: confined.intros)

lemma sample_halts: "halting (so_execute sample_sonde c)"
  by (simp add: sample_sonde_def halting.intros)

lemma sample_launch_ok:
  "regions_ok sample_stack (1, 0)" "launch_ok 0x20000100 sample_program sample_machine" "time_total ms_api"
proof -
  show "regions_ok sample_stack (1, 0)"
    by (simp add: regions_ok_def sample_stack_def context_range_def BPF_RAM_START_def BPF_RAM_END_def)
  show "launch_ok 0x20000100 sample_program sample_machine"
    using sample_helpers_ok timer_inv_new
    by (simp add: launch_ok_def helpers_ok_def sample_helpers_def sample_program_def sample_machine_def)
  show "time_total ms_api" by (simp add: time_total_def ms_api_def)
qed

lemma sample_code:
  "slice (replicate 0x8000 0xff) 0x6010 (0x6010 + unat (pm_bytecode_len sample_program)) = Some (replicate 8 0xff)"
  by (simp add: sample_program_def program_metadata_def two_maps_def slice_def)

lemma sample_execution:
  "\<exists>res m'. execute_loaded_bpf sample_sonde ms_api sample_program 0x20000100 (1, 0) False (replicate 0x8000 0xff)
     sample_machine = Some (res, m')"
proof -
  have md: "metadata_ok sample_program" using sample_launch_ok(2) by (simp add: launch_ok_def)
  obtain res where "run_bpf (bpf_helpers ms_api) (so_execute sample_sonde
      (invocation ms_api sample_program 0x20000100 (1, 0) False (replicate 8 0xff)),
      sample_machine\<lparr>mc_helpers := Some (active 0x20000100 sample_program)\<rparr>) = Some res"
    using run_bpf_total [OF sample_halts launch_running [OF sample_sonde_ok sample_launch_ok(1,2) refl] sample_launch_ok(3)]
    by blast
  then show ?thesis
    using launch_value [OF md sample_code, of sample_sonde ms_api "0x20000100" "(1, 0)" False sample_machine]
    by (cases res) (simp add: execute_loaded_bpf_def finish_bpf_def)
qed

theorem program_stays_in_its_regions_witness:
  "\<exists>res m'. execute_loaded_bpf sample_sonde ms_api sample_program 0x20000100 (1, 0) False (replicate 0x8000 0xff)
      sample_machine = Some (res, m')
    \<and> untouched (invocation_writes sample_stack 0x20000100 sample_program (1, 0) False) sample_ram (mc_ram m')"
proof -
  obtain res m' where e: "execute_loaded_bpf sample_sonde ms_api sample_program 0x20000100 (1, 0) False
      (replicate 0x8000 0xff) sample_machine = Some (res, m')"
    using sample_execution by blast
  moreover have "mc_ram sample_machine = sample_ram" by (simp add: sample_machine_def)
  ultimately show ?thesis
    using program_stays_in_its_regions [OF sample_sonde_ok sample_launch_ok(1,2) e] by auto
qed

text \<open>C33: An invocation of a program that halts on every path returns: no helper panics, no access
  leaves the memory, and neither the number of its steps nor what the helpers answer matters.\<close>

theorem halting_program_returns:
  assumes "sonde_ok so stack" and "regions_ok stack context" and "launch_ok base md m" and "time_total api"
    and "slice flash 0x6010 (0x6010 + unat (pm_bytecode_len md)) = Some code"
    and "halting (so_execute so (invocation api md base context read_only code))"
  shows "\<exists>res m'. execute_loaded_bpf so api md base context read_only flash m = Some (res, m')"
proof -
  have md: "metadata_ok md" using assms(3) by (simp add: launch_ok_def)
  obtain r m1 where "run_bpf (bpf_helpers api) (so_execute so (invocation api md base context read_only code),
      m\<lparr>mc_helpers := Some (active base md)\<rparr>) = Some (r, m1)"
    using run_bpf_total [OF assms(6) launch_running [OF assms(1,2,3) refl] assms(4)] by auto
  then show ?thesis
    using launch_value [OF md assms(5), of so api base "context" read_only m]
    by (simp add: execute_loaded_bpf_def finish_bpf_def)
qed

theorem halting_program_returns_witness:
  "\<exists>res m'. execute_loaded_bpf sample_sonde ms_api sample_program 0x20000100 (1, 0) False (replicate 0x8000 0xff)
     sample_machine = Some (res, m')"
  by (rule halting_program_returns [OF sample_sonde_ok sample_launch_ok sample_code sample_halts])

end
