(* ===== verification/Firmware.thy ===== *)
theory Firmware
  imports Host_Load Bpf_Execution
begin

text \<open>
  The OptiBridge firmware as a whole, \<^verbatim>\<open>firmware/optibridge/src/main.rs\<close>: its
  state, the I2C packet handler, timer events, startup and the main loop.

  Two threads of control share the state: the main loop and the handler, which the I2C interrupt
  calls between any two steps of the main loop. A critical section is one step. The handler is one
  step as a whole: it runs in the interrupt, and a program that Start runs is run to its end inside
  it. A program that the main loop runs for a timer event is interrupted freely, so every load,
  store and helper call of it is a step of its own.

  Parameters, in the record \<open>platform\<close>: the interpreter, the clock arithmetic, the HAL's
  flash driver with the bytes it shows at address 0, and the addresses the linker and the
  compiler chose for the map backing store and for the local variable \<open>context\<close>.
\<close>

section \<open>State\<close>

record ('e, 'f) hal_flash =
  hf_read :: "'f \<Rightarrow> u32 \<Rightarrow> nat \<Rightarrow> ('e, bytes) rust_result \<times> 'f"
  hf_write :: "'f \<Rightarrow> u32 \<Rightarrow> bytes \<Rightarrow> ('e, unit) rust_result \<times> 'f"
  hf_erase :: "'f \<Rightarrow> u32 \<Rightarrow> u32 \<Rightarrow> ('e, unit) rust_result \<times> 'f"

definition flash_storage :: "('e, 'f) hal_flash \<Rightarrow> 'f bpf_flash" where
  "flash_storage hal =
     \<lparr>fl_read = \<lambda>f off n. (case hf_read hal f off n of (Inr bs, f) \<Rightarrow> (Some bs, f) | (Inl _, f) \<Rightarrow> (None, f)),
      fl_write = \<lambda>f off bs. (case hf_write hal f off bs of (Inr _, f) \<Rightarrow> (True, f) | (Inl _, f) \<Rightarrow> (False, f)),
      fl_erase = \<lambda>f a b. (case hf_erase hal f a b of (Inr _, f) \<Rightarrow> (True, f) | (Inl _, f) \<Rightarrow> (False, f))\<rparr>"

record protocol_state =
  ps_status_queue :: status_queue
  ps_loader :: bpf_loader
  ps_response :: bytes

definition protocol_state_new :: protocol_state where
  "protocol_state_new = \<lparr>ps_status_queue = status_queue_ready, ps_loader = loader_new,
     ps_response = replicate MAX_FRAME 0\<rparr>"

text \<open>The statics, the flash device, and the packets queued for the I2C master, the newest last.
  \<open>MAP_BACKING_STORE\<close> is the part of \<open>mc_ram\<close> at the platform's backing address.\<close>

record ('i, 'f) firmware =
  fw_protocol :: protocol_state
  fw_machine :: "'i machine"
  fw_reset_pending :: bool
  fw_active :: bool
  fw_flash :: 'f
  fw_tx :: "bytes list"

record ('i, 'e, 'f) platform =
  pl_sonde :: sonde
  pl_time :: "'i time_api"
  pl_flash :: "('e, 'f) hal_flash"
  pl_mapped :: "'f \<Rightarrow> bytes"
  pl_backing :: u64
  pl_context :: u64

abbreviation pl_storage :: "('i, 'e, 'f) platform \<Rightarrow> 'f bpf_flash" where
  "pl_storage pl \<equiv> flash_storage (pl_flash pl)"

section \<open>The execution flag\<close>

definition try_claim_bpf_execution :: "bool \<Rightarrow> bool \<times> bool" where
  "try_claim_bpf_execution busy = (if busy then (False, busy) else (True, True))"

definition release_bpf_execution :: "bool \<Rightarrow> bool" where
  "release_bpf_execution busy = False"

section \<open>The packet handler\<close>

text \<open>The closure given to the dispatcher. It captures the machine and the flag.\<close>

definition start_executor ::
    "('i, 'e, 'f) platform \<Rightarrow> bytes \<Rightarrow> ('i machine \<times> bool) executor" where
  "start_executor pl flash md backing w =
     (case w of (m, busy) \<Rightarrow>
       (case try_claim_bpf_execution busy of
          (False, busy) \<Rightarrow> Some (Inl STATUS_BUSY, backing, (m, busy))
        | (True, busy) \<Rightarrow> do {
            let ram = with_backing (pl_backing pl) (mc_ram m) backing;
            (result, m) \<leftarrow> execute_loaded_bpf (pl_sonde pl) (pl_time pl) md (pl_backing pl)
                             (pl_context pl, 0) False flash (m\<lparr>mc_ram := ram\<rparr>);
            Some (result, backing_of (pl_backing pl) (mc_ram m), (m, release_bpf_execution busy))
          }))"

definition request_state :: "('i, 'e, 'f) platform \<Rightarrow> ('i, 'f) firmware \<Rightarrow> ('i machine \<times> bool) dispatch_state" where
  "request_state pl fw =
     \<lparr>ds_queue = ps_status_queue (fw_protocol fw), ds_loader = ps_loader (fw_protocol fw),
      ds_backing = backing_of (pl_backing pl) (mc_ram (fw_machine fw)),
      ds_output = ps_response (fw_protocol fw), ds_world = (fw_machine fw, fw_active fw)\<rparr>"

definition after_request ::
    "('i, 'e, 'f) platform \<Rightarrow> ('i, 'f) firmware \<Rightarrow> ('i machine \<times> bool) dispatch_state \<Rightarrow> ('i, 'f) firmware" where
  "after_request pl fw s =
     (case ds_world s of (m, busy) \<Rightarrow>
        fw\<lparr>fw_protocol := \<lparr>ps_status_queue = ds_queue s, ps_loader = ds_loader s, ps_response = ds_output s\<rparr>,
           fw_machine := m\<lparr>mc_ram := with_backing (pl_backing pl) (mc_ram m) (ds_backing s)\<rparr>,
           fw_active := busy\<rparr>)"

definition take_snapshot :: "bytes \<Rightarrow> nat \<Rightarrow> bytes may_panic" where
  "take_snapshot frame len = do {
     bs \<leftarrow> slice frame 0 len;
     copy_into (replicate MAX_FRAME 0) 0 bs
   }"

definition on_i2c_packet ::
    "('i, 'e, 'f) platform \<Rightarrow> bytes \<Rightarrow> bool \<Rightarrow> ('i, 'f) firmware \<Rightarrow> ('i, 'f) firmware may_panic" where
  "on_i2c_packet pl packet truncated fw = do {
     req \<leftarrow> parse_packet packet truncated;
     (outcome, snapshot, fw) \<leftarrow>
       (case req of
          Some request \<Rightarrow>
            if fw_active fw \<and> req_command request \<noteq> CMD_RESET then do {
              let st = fw_protocol fw;
              (outcome, output) \<leftarrow> status_response STATUS_BUSY (req_sequence request) (ps_response st);
              let len = (case outcome of Response len \<Rightarrow> len | _ \<Rightarrow> 0);
              snapshot \<leftarrow> take_snapshot output len;
              Some (Response len, snapshot, fw\<lparr>fw_protocol := st\<lparr>ps_response := output\<rparr>\<rparr>)
            } else do {
              (outcome, s) \<leftarrow> dispatch_with_bpf_and_executor
                 (start_executor pl (pl_mapped pl (fw_flash fw))) request (request_state pl fw);
              let fw = after_request pl fw s;
              (case outcome of
                 Response len \<Rightarrow> do {
                   snapshot \<leftarrow> take_snapshot (ps_response (fw_protocol fw)) len;
                   Some (Response len, snapshot, fw)
                 }
               | EmptyPacket \<Rightarrow> Some (EmptyPacket, replicate MAX_FRAME 0, fw)
               | ResetRequested \<Rightarrow> Some (ResetRequested, replicate MAX_FRAME 0, fw))
            }
        | None \<Rightarrow> Some (EmptyPacket, replicate MAX_FRAME 0, fw));
     (case outcome of
        Response len \<Rightarrow> do {
          bs \<leftarrow> slice snapshot 0 len;
          Some (fw\<lparr>fw_tx := fw_tx fw @ [bs]\<rparr>)
        }
      | EmptyPacket \<Rightarrow> Some (fw\<lparr>fw_tx := fw_tx fw @ [[]]\<rparr>)
      | ResetRequested \<Rightarrow> Some (fw\<lparr>fw_reset_pending := True\<rparr>))
   }"

section \<open>The main loop\<close>

definition I2C_STAR2_BUSY :: u16 where "I2C_STAR2_BUSY = push_bit 1 1"
definition I2C_BUS_IDLE_SPINS :: nat where "I2C_BUS_IDLE_SPINS = 48000"

text \<open>The status register is read once a spin.\<close>

fun bus_idle_loop :: "nat \<Rightarrow> u16 stream \<Rightarrow> bool" where
  "bus_idle_loop 0 star2 = False"
| "bus_idle_loop (Suc n) star2 =
     (if shd star2 AND I2C_STAR2_BUSY = 0 then True else bus_idle_loop n (stl star2))"

definition wait_for_i2c_bus_idle :: "u16 stream \<Rightarrow> bool" where
  "wait_for_i2c_bus_idle star2 = bus_idle_loop I2C_BUS_IDLE_SPINS star2"

definition TIMER_EVENT_KIND :: u32 where "TIMER_EVENT_KIND = 1"
definition TIMER_CONTEXT_VERSION :: u32 where "TIMER_CONTEXT_VERSION = 1"
definition TIMER_CONTEXT_LEN :: nat where "TIMER_CONTEXT_LEN = 32"

definition timer_context :: "u64 \<Rightarrow> bytes may_panic" where
  "timer_context cookie = do {
     let c = replicate TIMER_CONTEXT_LEN 0;
     c \<leftarrow> copy_into c 0 (to_le_bytes 4 TIMER_EVENT_KIND);
     c \<leftarrow> copy_into c 4 (to_le_bytes 4 TIMER_CONTEXT_VERSION);
     copy_into c 8 (to_le_bytes 8 cookie)
   }"

text \<open>Where the main loop is. The points from \<open>Claim\<close> to \<open>Release\<close> are inside
  \<open>execute_timer_event\<close>; \<open>Interpret\<close> is inside the interpreter.\<close>

datatype main_pc =
    Top | Wait_Bus_Idle | Exec_Pending | Poll_Timer | Take_Ready
  | Claim timer_event | Check_Generation timer_event | Fetch_Metadata timer_event
  | Invoke timer_event bpf_program_metadata | Interpret timer_event bpf_process
  | Release | Sleep

text \<open>Startup, up to the point where the packet handler is enabled. The RAM outside the backing
  store, the instants to come and the flash are as the reset found them.\<close>

definition startup ::
    "('i, 'e, 'f) platform \<Rightarrow> bytes \<Rightarrow> 'i stream \<Rightarrow> 'f \<Rightarrow> (main_pc \<times> ('i, 'f) firmware) may_panic" where
  "startup pl ram clock flash = do {
     probe \<leftarrow> run_bpf_size_probe (pl_sonde pl);
     let ram = with_backing (pl_backing pl) ram (replicate BPF_MAX_MAP_BYTES 0);
     (loader, flash) \<leftarrow> validate_committed (pl_storage pl) (ps_loader protocol_state_new) flash;
     Some (Top, \<lparr>fw_protocol = protocol_state_new\<lparr>ps_loader := loader\<rparr>,
                 fw_machine = \<lparr>mc_ram = ram, mc_timer = timer_state_new, mc_helpers = None, mc_clock = clock\<rparr>,
                 fw_reset_pending = False, fw_active = False, fw_flash = flash, fw_tx = []\<rparr>)
   }"

definition set_timer :: "('i, 'f) firmware \<Rightarrow> 'i timer_state \<Rightarrow> ('i, 'f) firmware" where
  "set_timer fw t = fw\<lparr>fw_machine := (fw_machine fw)\<lparr>mc_timer := t\<rparr>\<rparr>"

definition tick :: "('i, 'f) firmware \<Rightarrow> ('i, 'f) firmware" where
  "tick fw = fw\<lparr>fw_machine := (fw_machine fw)\<lparr>mc_clock := stl (mc_clock (fw_machine fw))\<rparr>\<rparr>"

abbreviation fw_now :: "('i, 'f) firmware \<Rightarrow> 'i" where
  "fw_now fw \<equiv> shd (mc_clock (fw_machine fw))"

abbreviation fw_timer :: "('i, 'f) firmware \<Rightarrow> 'i timer_state" where
  "fw_timer fw \<equiv> mc_timer (fw_machine fw)"

abbreviation fw_loader :: "('i, 'f) firmware \<Rightarrow> bpf_loader" where
  "fw_loader fw \<equiv> ps_loader (fw_protocol fw)"

text \<open>\<open>execute_timer_event\<close>, one critical section or interpreter action a step.\<close>

definition timer_event_step ::
    "('i, 'e, 'f) platform \<Rightarrow> main_pc \<Rightarrow> ('i, 'f) firmware \<Rightarrow> (main_pc \<times> ('i, 'f) firmware) may_panic" where
  "timer_event_step pl pc fw =
     (case pc of
        Claim event \<Rightarrow>
          (case try_claim_bpf_execution (fw_active fw) of
             (False, busy) \<Rightarrow> Some (Sleep, set_timer fw (restore_ready_timer event (fw_timer fw)))
           | (True, busy) \<Rightarrow> Some (Check_Generation event, fw\<lparr>fw_active := busy\<rparr>))
      | Check_Generation event \<Rightarrow>
          Some (if ts_generation (fw_timer fw) = te_generation event then Fetch_Metadata event else Release, fw)
      | Fetch_Metadata event \<Rightarrow> do {
          res \<leftarrow> event_execution_metadata (fw_loader fw);
          Some (case res of Inr metadata \<Rightarrow> Invoke event metadata | Inl _ \<Rightarrow> Release, fw)
        }
      | Invoke event metadata \<Rightarrow> do {
          context \<leftarrow> timer_context (te_cookie event);
          ram \<leftarrow> ram_write (mc_ram (fw_machine fw)) (pl_context pl) context;
          (p, m) \<leftarrow> launch_bpf (pl_sonde pl) (pl_time pl) metadata (pl_backing pl)
                      (pl_context pl, TIMER_CONTEXT_LEN) True (pl_mapped pl (fw_flash fw))
                      ((fw_machine fw)\<lparr>mc_ram := ram\<rparr>);
          Some (Interpret event p, fw\<lparr>fw_machine := m\<rparr>)
        }
      | Interpret event p \<Rightarrow>
          (case returned p of
             Some r \<Rightarrow> Some (Release, fw\<lparr>fw_machine := snd (finish_bpf r (fw_machine fw))\<rparr>)
           | None \<Rightarrow> do {
               (p, m) \<leftarrow> bpf_step (bpf_helpers (pl_time pl)) (p, fw_machine fw);
               Some (Interpret event p, fw\<lparr>fw_machine := m\<rparr>)
             })
      | Release \<Rightarrow> Some (Sleep, fw\<lparr>fw_active := release_bpf_execution (fw_active fw)\<rparr>)
      | _ \<Rightarrow> Some (pc, fw))"

text \<open>One step of the main loop; \<open>star2\<close> is what the bus status register is going to read.
  A pending reset restarts the firmware.\<close>

definition main_step ::
    "('i::linorder, 'e, 'f) platform \<Rightarrow> u16 stream \<Rightarrow> main_pc \<times> ('i, 'f) firmware
      \<Rightarrow> (main_pc \<times> ('i, 'f) firmware) may_panic" where
  "main_step pl star2 st =
     (case st of (pc, fw) \<Rightarrow>
       (case pc of
          Top \<Rightarrow>
            if fw_reset_pending fw
            then startup pl (mc_ram (fw_machine fw)) (mc_clock (fw_machine fw)) (fw_flash fw)
            else Some (if has_pending (fw_loader fw) then Wait_Bus_Idle else Exec_Pending, fw)
        | Wait_Bus_Idle \<Rightarrow> Some (if wait_for_i2c_bus_idle star2 then Exec_Pending else Top, fw)
        | Exec_Pending \<Rightarrow> do {
            (loader, flash) \<leftarrow> execute_pending (pl_storage pl) (fw_loader fw) (fw_flash fw);
            Some (Poll_Timer, fw\<lparr>fw_protocol := (fw_protocol fw)\<lparr>ps_loader := loader\<rparr>, fw_flash := flash\<rparr>)
          }
        | Poll_Timer \<Rightarrow> Some (Take_Ready, tick (set_timer fw (poll_timer (fw_now fw) (fw_timer fw))))
        | Take_Ready \<Rightarrow>
            (case take_ready_timer (fw_timer fw) of
               (Some event, t) \<Rightarrow> Some (Claim event, set_timer fw t)
             | (None, t) \<Rightarrow> Some (Sleep, set_timer fw t))
        | Sleep \<Rightarrow> do {
            wait \<leftarrow> wait_for_timer_or_work (pl_time pl) (fw_now fw) (fw_timer fw);
            Some (Top, tick fw)
          }
        | _ \<Rightarrow> timer_event_step pl pc fw))"

section \<open>Interleaved runs\<close>

datatype fw_action = Main_Step "u16 stream" | Packet bytes bool

definition fw_step ::
    "('i::linorder, 'e, 'f) platform \<Rightarrow> fw_action \<Rightarrow> main_pc \<times> ('i, 'f) firmware
      \<Rightarrow> (main_pc \<times> ('i, 'f) firmware) may_panic" where
  "fw_step pl a st =
     (case a of
        Main_Step star2 \<Rightarrow> main_step pl star2 st
      | Packet packet truncated \<Rightarrow> map_option (Pair (fst st)) (on_i2c_packet pl packet truncated (snd st)))"

fun fw_run ::
    "('i::linorder, 'e, 'f) platform \<Rightarrow> fw_action list \<Rightarrow> main_pc \<times> ('i, 'f) firmware
      \<Rightarrow> (main_pc \<times> ('i, 'f) firmware) may_panic" where
  "fw_run pl [] st = Some st"
| "fw_run pl (a # as) st = fw_step pl a st \<bind> fw_run pl as"

inductive fw_reachable ::
    "('i::linorder, 'e, 'f) platform \<Rightarrow> main_pc \<times> ('i, 'f) firmware \<Rightarrow> bool" for pl where
  power_on: "length ram = RAM_BYTES \<Longrightarrow> startup pl ram clock flash = Some st \<Longrightarrow> fw_reachable pl st"
| action: "fw_reachable pl st \<Longrightarrow> fw_step pl a st = Some st' \<Longrightarrow> fw_reachable pl st'"

end
