(* ===== verification/Firmware_Invariant.thy ===== *)
theory Firmware_Invariant
  imports Firmware
begin

text \<open>
  What holds in every state the firmware can reach, with packets arriving between any two steps of
  the main loop: the execution flag tells exactly when the main loop is inside a timer event, the
  helper table is set exactly while a program is interpreted, a program being interpreted is the
  committed one, and the loader with its flash is in a state of \<open>loader_run\<close>, so that the
  properties of the loader hold of the firmware.
\<close>

section \<open>What the firmware relies on\<close>

definition disjoint_ranges :: "u64 \<Rightarrow> nat \<Rightarrow> u64 \<Rightarrow> nat \<Rightarrow> bool" where
  "disjoint_ranges a n b k \<longleftrightarrow> unat a + n \<le> unat b \<or> unat b + k \<le> unat a"

definition platform_ok :: "('i::linorder, 'e, 'f) platform \<Rightarrow> u64 \<times> u64 \<Rightarrow> bool" where
  "platform_ok pl stack \<longleftrightarrow> sonde_ok (pl_sonde pl) stack \<and> in_ram [stack]
     \<and> base_ok (pl_backing pl)
     \<and> BPF_RAM_START \<le> pl_context pl \<and> unat (pl_context pl) + TIMER_CONTEXT_LEN \<le> unat BPF_RAM_END
     \<and> disjoint_ranges (pl_context pl) TIMER_CONTEXT_LEN (pl_backing pl) BPF_MAX_MAP_BYTES
     \<and> nor_flash (pl_storage pl) (pl_mapped pl) \<and> time_ok (pl_time pl) \<and> time_total (pl_time pl)
     \<and> run_bpf_size_probe (pl_sonde pl) = Some ()"

lemma context_regions:
  assumes "platform_ok pl stack"
  shows "regions_ok stack (pl_context pl, TIMER_CONTEXT_LEN)" and "regions_ok stack (pl_context pl, 0)"
proof -
  have c: "BPF_RAM_START \<le> pl_context pl" "unat (pl_context pl) + 32 \<le> 0x20002800" "in_ram [stack]"
    using assms by (simp_all add: platform_ok_def TIMER_CONTEXT_LEN_def ram_consts)
  then have "unat (pl_context pl + 32) = unat (pl_context pl) + 32"
    by (subst unat_add_id) simp_all
  then have "pl_context pl + 32 \<le> BPF_RAM_END" using c by (simp add: word_le_nat_alt ram_consts)
  then show "regions_ok stack (pl_context pl, TIMER_CONTEXT_LEN)" "regions_ok stack (pl_context pl, 0)"
    using c by (cases stack; simp add: regions_ok_def context_range_def TIMER_CONTEXT_LEN_def)+
qed

section \<open>Requests and the loader\<close>

lemma respond_keeps: "respond r s status payload = Some (outcome, s') \<Longrightarrow> \<exists>out. s' = s\<lparr>ds_output := out\<rparr>"
  by (auto simp: respond_def bind_some_iff)

lemma start_status_loader:
  "snd (start_status res ld) = ld \<or> snd (start_status res ld) = snd (mark_running ld)"
  by (auto simp: start_status_def split: sum.splits prod.splits)

lemma handle_start_executes:
  assumes "req_payload_len r = 0" and "execution_metadata (ds_loader s) = Some (Inr md)"
  shows "handle_start execute r s = execute md (ds_backing s) (ds_world s) \<bind> (\<lambda>x.
      respond r (s\<lparr>ds_loader := snd (start_status (fst x) (ds_loader s)), ds_backing := fst (snd x),
                   ds_world := snd (snd x)\<rparr>) (fst (start_status (fst x) (ds_loader s))) [])"
  using assms by (simp add: handle_start_def case_prod_unfold Let_def)

lemma dispatch_loader_step:
  assumes "dispatch_with_bpf_and_executor execute r s = Some (outcome, s')"
  shows "ds_loader s' = ds_loader s
    \<or> (\<exists>res. accepts_load (ds_loader s) r = Some (res, ds_loader s'))
    \<or> (\<exists>md res. execution_metadata (ds_loader s) = Some (Inr md) \<and> mark_running (ds_loader s) = (res, ds_loader s'))"
proof -
  have load: ?thesis if "handle_load r s = Some (outcome, s')"
    using that by (auto simp: handle_load_def bind_some_iff dest!: respond_keeps)
  have read: ?thesis if "handle_read_map r s = Some (outcome, s')"
    using that by (auto simp: handle_read_map_def Let_def dest!: respond_keeps split: if_splits sum.splits)
  have wr: ?thesis if "handle_write_map r s = Some (outcome, s')"
    using that by (clarsimp simp: handle_write_map_def Let_def bind_some_iff split: if_splits)
      (auto dest!: respond_keeps split: sum.split_asm prod.split_asm)
  have start: ?thesis if h: "handle_start execute r s = Some (outcome, s')"
  proof (cases "req_payload_len r = 0 \<and> (\<exists>md. execution_metadata (ds_loader s) = Some (Inr md))")
    case True
    then obtain md where md: "execution_metadata (ds_loader s) = Some (Inr md)" by blast
    then obtain x where "respond r (s\<lparr>ds_loader := snd (start_status (fst x) (ds_loader s)),
        ds_backing := fst (snd x), ds_world := snd (snd x)\<rparr>) (fst (start_status (fst x) (ds_loader s))) [] = Some (outcome, s')"
      using h handle_start_executes [OF _ md, of r execute] True by (auto simp: bind_some_iff)
    then have "ds_loader s' = snd (start_status (fst x) (ds_loader s))"
      by (auto dest!: respond_keeps)
    with md start_status_loader [of "fst x" "ds_loader s"] show ?thesis by (metis prod.collapse)
  next
    case False
    then have "\<exists>status. respond r s status [] = Some (outcome, s')"
    proof (cases "execution_metadata (ds_loader s)")
      case (Some x)
      then show ?thesis using h False by (cases x) (auto simp: handle_start_def split: if_splits)
    qed (use h in \<open>auto simp: handle_start_def split: if_splits\<close>)
    then show ?thesis by (auto dest!: respond_keeps)
  qed
  have query: ?thesis if "handle_query r s = Some (outcome, s')"
    using that by (auto simp: handle_query_def dest!: respond_keeps split: if_splits sum.splits)
  have plain: ?thesis if "dispatch r s = Some (outcome, s')"
    using that by (auto simp: dispatch_def bind_some_iff dest!: respond_keeps split: if_splits)
  show ?thesis
    using assms load read wr start query plain
    by (auto simp: dispatch_with_bpf_and_executor_def dest!: respond_keeps split: if_splits)
qed

lemma dispatch_loader_run:
  assumes "loader_run api (ds_loader s) f" and "wf_request r"
    and "dispatch_with_bpf_and_executor execute r s = Some (outcome, s')"
  shows "loader_run api (ds_loader s') f"
proof -
  consider "ds_loader s' = ds_loader s" | res where "accepts_load (ds_loader s) r = Some (res, ds_loader s')"
    | md res where "execution_metadata (ds_loader s) = Some (Inr md)" "mark_running (ds_loader s) = (res, ds_loader s')"
    using dispatch_loader_step [OF assms(3)] by blast
  then show ?thesis
  proof cases
    case 1
    then show ?thesis using assms(1) by simp
  next
    case (2 res)
    then show ?thesis by (rule loader_run.accept [OF assms(1,2)])
  next
    case (3 md res)
    then show ?thesis by (rule loader_run.start [OF assms(1)])
  qed
qed

lemma handle_start_ready:
  assumes "loader_inv (ds_loader s)" and "starts r" and "ld_pending (ds_loader s) = None"
    and "ld_state (ds_loader s) = Committed c"
  shows "dispatch_with_bpf_and_executor execute r s =
    execute (program_metadata (ds_loader s)) (ds_backing s) (ds_world s) \<bind> (\<lambda>x.
      respond r (s\<lparr>ds_loader := snd (start_status (fst x) (ds_loader s)), ds_backing := fst (snd x),
                   ds_world := snd (snd x)\<rparr>) (fst (start_status (fst x) (ds_loader s))) [])"
proof -
  have "dispatch_with_bpf_and_executor execute r s = handle_start execute r s" "req_payload_len r = 0"
    using assms(2) by (simp_all add: dispatch_with_bpf_and_executor_def starts_def command_codes)
  then show ?thesis
    using execution_metadata_value [OF assms(1)] assms(3,4) by (simp add: handle_start_executes)
qed

lemma handle_start_refused:
  assumes "loader_inv (ds_loader s)" and "starts r"
    and "ld_pending (ds_loader s) \<noteq> None \<or> (\<nexists>c. ld_state (ds_loader s) = Committed c)"
  shows "\<exists>status. dispatch_with_bpf_and_executor execute r s = respond r s status []"
proof -
  have "dispatch_with_bpf_and_executor execute r s = handle_start execute r s" "req_payload_len r = 0"
    using assms(2) by (simp_all add: dispatch_with_bpf_and_executor_def starts_def command_codes)
  moreover obtain status where "execution_metadata (ds_loader s) = Some (Inl status)"
    using execution_metadata_value [OF assms(1)] assms(3) by (auto split: loader_state.splits if_splits)
  ultimately show ?thesis by (auto simp: handle_start_def)
qed

section \<open>Well-formed firmware states\<close>

definition fw_wf :: "('i, 'e, 'f) platform \<Rightarrow> ('i, 'f) firmware \<Rightarrow> bool" where
  "fw_wf pl fw \<longleftrightarrow> status_queue_wf (ps_status_queue (fw_protocol fw))
     \<and> length (ps_response (fw_protocol fw)) = MAX_FRAME
     \<and> length (mc_ram (fw_machine fw)) = RAM_BYTES \<and> timer_inv (fw_timer fw)
     \<and> loader_run (pl_storage pl) (fw_loader fw) (fw_flash fw)"

lemma fw_loader_inv:
  assumes "platform_ok pl stack" and "fw_wf pl fw"
  shows "loader_inv (fw_loader fw)" and "device_inv (fw_loader fw) (pl_mapped pl (fw_flash fw))"
  using nor_flash.loader_run_inv [of "pl_storage pl" "pl_mapped pl" "fw_loader fw" "fw_flash fw"] assms
  by (simp_all add: platform_ok_def fw_wf_def)

lemma request_state_wf:
  assumes "platform_ok pl stack" and "fw_wf pl fw"
  shows "dispatch_wf (request_state pl fw)"
  using assms fw_loader_inv [OF assms] length_backing_of [of "pl_backing pl" "mc_ram (fw_machine fw)"]
  by (simp add: dispatch_wf_def request_state_def fw_wf_def platform_ok_def)

text \<open>The bytes of a committed program that an invocation runs.\<close>

definition program_code :: "bpf_loader \<Rightarrow> bytes \<Rightarrow> bytes" where
  "program_code ld flash = take (unat (ld_bytecode_len ld)) (drop 0x6010 flash)"

lemma committed_code:
  assumes "device_inv ld flash" and "has_program (ld_state ld)"
  shows "\<exists>crc img. ld_state ld \<in> {Committed crc, Running crc}
      \<and> committed_image flash (ld_bytecode_len ld) (ld_map_count ld) crc img
      \<and> program_code ld flash = take (unat (ld_bytecode_len ld)) img"
    and "slice flash 0x6010 (0x6010 + unat (ld_bytecode_len ld)) = Some (program_code ld flash)"
proof -
  obtain crc img where st: "ld_state ld \<in> {Committed crc, Running crc}" and od: "on_device ld flash crc img"
    using assms by (cases "ld_state ld") (auto simp: device_inv_def)
  then have ci: "committed_image flash (ld_bytecode_len ld) (ld_map_count ld) crc img"
    by (simp add: on_device_def)
  then have sl: "slice flash 0x6010 (0x6010 + length img) = Some img"
    and len: "length img = unat (ld_bytecode_len ld) + 16 * unat (ld_map_count ld)"
    unfolding committed_image_def by blast+
  show "slice flash 0x6010 (0x6010 + unat (ld_bytecode_len ld)) = Some (program_code ld flash)"
    using slice_split(1) [OF sl, of "0x6010 + unat (ld_bytecode_len ld)"] len
    by (auto simp: slice_def program_code_def split: if_splits)
  have "program_code ld flash = take (unat (ld_bytecode_len ld)) img"
    using sl len by (auto simp: program_code_def slice_def min_def split: if_splits)
  then show "\<exists>crc img. ld_state ld \<in> {Committed crc, Running crc}
      \<and> committed_image flash (ld_bytecode_len ld) (ld_map_count ld) crc img
      \<and> program_code ld flash = take (unat (ld_bytecode_len ld)) img"
    using st ci by blast
qed

lemma program_launch_ok:
  assumes "platform_ok pl stack" and "fw_wf pl fw" and "has_program (ld_state (fw_loader fw))"
    and "length (mc_ram m) = RAM_BYTES" and "timer_inv (mc_timer m)"
  shows "launch_ok (pl_backing pl) (program_metadata (fw_loader fw)) m"
  using assms program_metadata_view(1) [OF fw_loader_inv(1) [OF assms(1,2)] assms(3)]
  by (simp add: launch_ok_def platform_ok_def)

section \<open>Replies of the packet handler\<close>

lemma snapshot_slice:
  assumes "length out = MAX_FRAME" and "n \<le> MAX_FRAME"
  shows "\<exists>sn. take_snapshot out n = Some sn \<and> slice sn 0 n = Some (take n out)"
  using assms by (simp add: take_snapshot_def slice_def copy_into_def)

lemma after_request_same:
  assumes "s = request_state pl fw\<lparr>ds_output := out\<rparr>"
  shows "after_request pl fw s = fw\<lparr>fw_protocol := (fw_protocol fw)\<lparr>ps_response := out\<rparr>\<rparr>"
  by (simp add: assms after_request_def request_state_def with_backing_same)

lemma packet_reply:
  assumes "parse_packet packet truncated = Some (Some r)"
    and "\<not> (fw_active fw \<and> req_command r \<noteq> CMD_RESET)"
    and "dispatch_with_bpf_and_executor (start_executor pl (pl_mapped pl (fw_flash fw))) r (request_state pl fw)
      = Some (outcome, s)"
    and "replies s outcome status sq payload" and "length (ds_output s) = MAX_FRAME"
  shows "on_i2c_packet pl packet truncated fw
    = Some ((after_request pl fw s)\<lparr>fw_tx := fw_tx fw @ [reply_frame status sq payload]\<rparr>)"
proof -
  let ?n = "HEADER_LEN + length payload"
  have rep: "outcome = Response ?n" "?n \<le> MAX_FRAME" "take ?n (ds_output s) = reply_frame status sq payload"
    using assms(4) by (simp_all add: replies_def)
  obtain sn where sn: "take_snapshot (ds_output s) ?n = Some sn" "slice sn 0 ?n = Some (reply_frame status sq payload)"
    using snapshot_slice [OF assms(5) rep(2)] rep(3) by auto
  have "ps_response (fw_protocol (after_request pl fw s)) = ds_output s" "fw_tx (after_request pl fw s) = fw_tx fw"
    by (simp_all add: after_request_def case_prod_unfold)
  then show ?thesis
    using assms(1,2,3) rep(1) sn by (auto simp: on_i2c_packet_def Let_def)
qed

text \<open>A request that changes at most the loader.\<close>

lemma packet_responds:
  assumes "length (ps_response (fw_protocol fw)) = MAX_FRAME"
    and "parse_packet packet truncated = Some (Some r)"
    and "\<not> (fw_active fw \<and> req_command r \<noteq> CMD_RESET)"
    and "dispatch_with_bpf_and_executor (start_executor pl (pl_mapped pl (fw_flash fw))) r (request_state pl fw)
      = respond r (request_state pl fw\<lparr>ds_loader := ld\<rparr>) status payload"
    and "length payload \<le> MAX_PAYLOAD"
  shows "\<exists>out. length out = MAX_FRAME \<and> on_i2c_packet pl packet truncated fw
    = Some (fw\<lparr>fw_protocol := (fw_protocol fw)\<lparr>ps_loader := ld, ps_response := out\<rparr>,
               fw_tx := fw_tx fw @ [reply_frame status (req_sequence r) payload]\<rparr>)"
proof -
  let ?s = "request_state pl fw\<lparr>ds_loader := ld\<rparr>"
  have "length (ds_output ?s) = MAX_FRAME" using assms(1) by (simp add: request_state_def)
  then obtain outcome out where o: "respond r ?s status payload = Some (outcome, ?s\<lparr>ds_output := out\<rparr>)"
    "length out = MAX_FRAME" "replies (?s\<lparr>ds_output := out\<rparr>) outcome status (req_sequence r) payload"
    using respond_replies [of ?s payload r status] assms(5) by auto
  have "on_i2c_packet pl packet truncated fw
      = Some ((after_request pl fw (?s\<lparr>ds_output := out\<rparr>))\<lparr>fw_tx := fw_tx fw @ [reply_frame status (req_sequence r) payload]\<rparr>)"
    using assms(2-4) o by (intro packet_reply [where outcome = outcome]) simp_all
  moreover have "after_request pl fw (?s\<lparr>ds_output := out\<rparr>)
      = fw\<lparr>fw_protocol := (fw_protocol fw)\<lparr>ps_loader := ld, ps_response := out\<rparr>\<rparr>"
    by (simp add: after_request_def request_state_def with_backing_same)
  ultimately show ?thesis using o(2) by auto
qed

lemma packet_empty:
  "parse_packet packet truncated = Some None \<Longrightarrow>
     on_i2c_packet pl packet truncated fw = Some (fw\<lparr>fw_tx := fw_tx fw @ [[]]\<rparr>)"
  by (simp add: on_i2c_packet_def)

lemma packet_reset:
  assumes "parse_packet packet truncated = Some (Some r)" and "resets r"
  shows "on_i2c_packet pl packet truncated fw = Some (fw\<lparr>fw_reset_pending := True\<rparr>)"
proof -
  have "dispatch_with_bpf_and_executor ex r (request_state pl fw) = Some (ResetRequested, request_state pl fw)" for ex
    using assms(2) by (simp add: resets_def dispatch_with_bpf_and_executor_def dispatch_def command_codes)
  moreover have "after_request pl fw (request_state pl fw) = fw"
    using after_request_same [of "request_state pl fw" "ps_response (fw_protocol fw)" pl fw]
    by (simp add: request_state_def)
  ultimately show ?thesis using assms by (simp add: on_i2c_packet_def Let_def resets_def)
qed

text \<open>While a timer event executes, a request is answered without being dispatched.\<close>

lemma packet_busy:
  assumes "fw_wf pl fw" and "fw_active fw" and "parse_packet packet truncated = Some (Some r)"
    and "req_command r \<noteq> CMD_RESET"
  shows "\<exists>out. length out = MAX_FRAME \<and> on_i2c_packet pl packet truncated fw
    = Some (fw\<lparr>fw_protocol := (fw_protocol fw)\<lparr>ps_response := out\<rparr>,
               fw_tx := fw_tx fw @ [reply_frame STATUS_BUSY (req_sequence r) []]\<rparr>)"
proof -
  let ?out = "[MAGIC, STATUS_BUSY, 0, req_sequence r, 0] @ drop 5 (ps_response (fw_protocol fw))"
  have "status_response STATUS_BUSY (req_sequence r) (ps_response (fw_protocol fw)) = Some (Response 5, ?out)"
    using encode_response_ok [of "ps_response (fw_protocol fw)" "[]" STATUS_BUSY "req_sequence r" 0] assms(1)
    by (simp add: status_response_def response_def fw_wf_def)
  moreover have len: "length ?out = MAX_FRAME" using assms(1) by (simp add: fw_wf_def)
  moreover obtain sn where "take_snapshot ?out 5 = Some sn" "slice sn 0 5 = Some (take 5 ?out)"
    using snapshot_slice [OF len, of 5] by auto
  moreover have "take 5 ?out = reply_frame STATUS_BUSY (req_sequence r) []"
    by (simp add: reply_frame_def take_five)
  ultimately have "on_i2c_packet pl packet truncated fw
    = Some (fw\<lparr>fw_protocol := (fw_protocol fw)\<lparr>ps_response := ?out\<rparr>,
               fw_tx := fw_tx fw @ [reply_frame STATUS_BUSY (req_sequence r) []]\<rparr>)"
    using assms(2-4) by (simp add: on_i2c_packet_def Let_def)
  with len show ?thesis by blast
qed

section \<open>Packets between timer events\<close>

lemma after_request_wf:
  assumes "platform_ok pl stack" and "dispatch_wf s" and "ds_world s = (m, busy)"
    and "length (mc_ram m) = RAM_BYTES" and "timer_inv (mc_timer m)"
    and "loader_run (pl_storage pl) (ds_loader s) (fw_flash fw)"
  shows "fw_wf pl (after_request pl fw s)"
    and "fw_active (after_request pl fw s) = busy" and "mc_helpers (fw_machine (after_request pl fw s)) = mc_helpers m"
    and "fw_timer (after_request pl fw s) = mc_timer m"
    and "fw_flash (after_request pl fw s) = fw_flash fw"
    and "fw_reset_pending (after_request pl fw s) = fw_reset_pending fw"
  using assms with_backing_props(1) [of "pl_backing pl" "mc_ram m" "ds_backing s"]
  by (simp_all add: after_request_def fw_wf_def dispatch_wf_def platform_ok_def)

text \<open>What a Start does that runs a program.\<close>

lemma start_request_runs:
  assumes "platform_ok pl stack" and "fw_wf pl fw" and "\<not> fw_active fw" and "starts r"
    and "ld_pending (fw_loader fw) = None" and "ld_state (fw_loader fw) = Committed c"
  shows "dispatch_with_bpf_and_executor (start_executor pl flash) r (request_state pl fw) =
    execute_loaded_bpf (pl_sonde pl) (pl_time pl) (program_metadata (fw_loader fw)) (pl_backing pl)
      (pl_context pl, 0) False flash (fw_machine fw) \<bind> (\<lambda>(res, m).
    respond r (request_state pl fw\<lparr>ds_loader := snd (start_status res (fw_loader fw)),
        ds_backing := backing_of (pl_backing pl) (mc_ram m), ds_world := (m, False)\<rparr>)
      (fst (start_status res (fw_loader fw))) [])"
proof -
  have m: "(fw_machine fw)\<lparr>mc_ram := with_backing (pl_backing pl) (mc_ram (fw_machine fw))
      (backing_of (pl_backing pl) (mc_ram (fw_machine fw)))\<rparr> = fw_machine fw"
    by (simp add: with_backing_same)
  have ld: "loader_inv (ds_loader (request_state pl fw))" "ld_pending (ds_loader (request_state pl fw)) = None"
    "ld_state (ds_loader (request_state pl fw)) = Committed c"
    using fw_loader_inv [OF assms(1,2)] assms(5,6) by (simp_all add: request_state_def)
  show ?thesis
    unfolding handle_start_ready [OF ld(1) assms(4) ld(2,3)]
    using assms(3) m
    by (simp add: request_state_def start_executor_def try_claim_bpf_execution_def release_bpf_execution_def
        case_prod_unfold)
qed

lemma start_status_run:
  assumes "loader_inv ld" and "ld_pending ld = None" and "ld_state ld = Committed c" and "loader_run api ld f"
  shows "loader_run api (snd (start_status res ld)) f"
proof -
  have "execution_metadata ld = Some (Inr (program_metadata ld))"
    using execution_metadata_value [OF assms(1)] assms(2,3) by simp
  from loader_run.start [OF assms(4) this prod.collapse [symmetric]] show ?thesis
    using start_status_loader [of res ld] assms(4) by auto
qed

lemma start_packet:
  assumes "platform_ok pl stack" and "fw_wf pl fw" and "\<not> fw_active fw"
    and "parse_packet packet truncated = Some (Some r)" and "starts r"
    and "ld_pending (fw_loader fw) = None" and "ld_state (fw_loader fw) = Committed c"
    and "execute_loaded_bpf (pl_sonde pl) (pl_time pl) (program_metadata (fw_loader fw)) (pl_backing pl)
      (pl_context pl, 0) False (pl_mapped pl (fw_flash fw)) (fw_machine fw) = Some (res, m)"
  shows "\<exists>out. length out = MAX_FRAME \<and> on_i2c_packet pl packet truncated fw
    = Some (fw\<lparr>fw_protocol := \<lparr>ps_status_queue = ps_status_queue (fw_protocol fw),
          ps_loader = snd (start_status res (fw_loader fw)), ps_response = out\<rparr>, fw_machine := m, fw_active := False,
          fw_tx := fw_tx fw @ [reply_frame (fst (start_status res (fw_loader fw))) (req_sequence r) []]\<rparr>)"
proof -
  let ?s = "request_state pl fw" let ?ld = "fw_loader fw" let ?st = "fst (start_status res ?ld)"
  let ?s' = "?s\<lparr>ds_loader := snd (start_status res ?ld),
      ds_backing := backing_of (pl_backing pl) (mc_ram m), ds_world := (m, False)\<rparr>"
  have "length (ds_output ?s') = MAX_FRAME" using assms(2) by (simp add: request_state_def fw_wf_def)
  then obtain outcome out where o: "respond r ?s' ?st [] = Some (outcome, ?s'\<lparr>ds_output := out\<rparr>)"
      "length out = MAX_FRAME" "replies (?s'\<lparr>ds_output := out\<rparr>) outcome ?st (req_sequence r) []"
    using respond_replies [of ?s' "[]" r ?st] by auto
  have d: "dispatch_with_bpf_and_executor (start_executor pl (pl_mapped pl (fw_flash fw))) r ?s
      = Some (outcome, ?s'\<lparr>ds_output := out\<rparr>)"
    unfolding start_request_runs [OF assms(1-3,5-7), of "pl_mapped pl (fw_flash fw)"] using assms(8) o(1) by simp
  have len: "length (ds_output (?s'\<lparr>ds_output := out\<rparr>)) = MAX_FRAME" using o(2) by simp
  have "on_i2c_packet pl packet truncated fw
      = Some ((after_request pl fw (?s'\<lparr>ds_output := out\<rparr>))\<lparr>fw_tx := fw_tx fw @ [reply_frame ?st (req_sequence r) []]\<rparr>)"
    using packet_reply [OF assms(4) _ d o(3) len] assms(3) by blast
  moreover have "m\<lparr>mc_ram := with_backing (pl_backing pl) (mc_ram m) (backing_of (pl_backing pl) (mc_ram m))\<rparr> = m"
    by (simp add: with_backing_same)
  ultimately show ?thesis using o(2) by (intro exI [of _ out]) (simp add: after_request_def request_state_def)
qed

lemma idle_packet:
  assumes "platform_ok pl stack" and "fw_wf pl fw" and "\<not> fw_active fw" and "mc_helpers (fw_machine fw) = None"
    and "on_i2c_packet pl packet truncated fw = Some fw'"
  shows "fw_wf pl fw' \<and> \<not> fw_active fw' \<and> mc_helpers (fw_machine fw') = None \<and> fw_flash fw' = fw_flash fw"
proof -
  let ?s = "request_state pl fw" let ?ex = "start_executor pl (pl_mapped pl (fw_flash fw))"
  obtain req where parse: "parse_packet packet truncated = Some req"
    using parse_packet_not_none by blast
  show ?thesis
  proof (cases req)
    case None
    then have "on_i2c_packet pl packet truncated fw = Some (fw\<lparr>fw_tx := fw_tx fw @ [[]]\<rparr>)"
      using packet_empty parse by blast
    then show ?thesis using assms by (auto simp: fw_wf_def)
  next
    case (Some r)
    have wf: "wf_request r" using parse_packet_wf parse Some by blast
    have dwf: "dispatch_wf ?s" using request_state_wf [OF assms(1,2)] .
    have world: "ds_world ?s = (fw_machine fw, False)" using assms(3) by (simp add: request_state_def)
    have run: "loader_run (pl_storage pl) (ds_loader ?s) (fw_flash fw)"
      using assms(2) by (simp add: fw_wf_def request_state_def)
    have finish: ?thesis
      if d: "dispatch_with_bpf_and_executor ?ex r ?s = Some (outcome, s)"
        and "replies s outcome status sq payload" and "dispatch_wf s" and "ds_world s = (m, False)"
        and "length (mc_ram m) = RAM_BYTES" "timer_inv (mc_timer m)" "mc_helpers m = None"
      for outcome s status sq payload m
    proof -
      have "length (ds_output s) = MAX_FRAME" using that(3) by (simp add: dispatch_wf_def)
      then have "fw' = (after_request pl fw s)\<lparr>fw_tx := fw_tx fw @ [reply_frame status sq payload]\<rparr>"
        using packet_reply [OF _ _ d that(2), of packet truncated] parse Some assms(3,5) by simp
      then show ?thesis
        using after_request_wf [OF assms(1) that(3,4,5,6) dispatch_loader_run [OF run wf d]] that(7)
        by (simp add: fw_wf_def)
    qed
    show ?thesis
    proof (cases "resets r")
      case True
      then have "on_i2c_packet pl packet truncated fw = Some (fw\<lparr>fw_reset_pending := True\<rparr>)"
        using packet_reset parse Some by blast
      then show ?thesis using assms by (auto simp: fw_wf_def)
    next
      case nreset: False
      have mach: "length (mc_ram (fw_machine fw)) = RAM_BYTES" "timer_inv (mc_timer (fw_machine fw))"
        using assms(2) by (simp_all add: fw_wf_def)
      show ?thesis
      proof (cases "starts r \<and> ld_pending (fw_loader fw) = None \<and> (\<exists>c. ld_state (fw_loader fw) = Committed c)")
        case False
        have "answers r ?s (dispatch_with_bpf_and_executor ?ex r ?s)"
        proof (cases "starts r")
          case True
          have "loader_inv (ds_loader ?s)" using dwf by (simp add: dispatch_wf_def)
          moreover have "ld_pending (ds_loader ?s) \<noteq> None \<or> (\<nexists>c. ld_state (ds_loader ?s) = Committed c)"
            using False True by (simp add: request_state_def)
          ultimately obtain status where "dispatch_with_bpf_and_executor ?ex r ?s = respond r ?s status []"
            using handle_start_refused True by blast
          then show ?thesis using respond_error [OF dwf] by simp
        next
          case False
          then show ?thesis using dispatch_with_answers [OF dwf wf] nreset by simp
        qed
        then show ?thesis using finish world mach assms(4) unfolding answers_def by metis
      next
        case True
        then obtain c where c: "starts r" "ld_pending (fw_loader fw) = None" "ld_state (fw_loader fw) = Committed c"
          by blast
        let ?ld = "fw_loader fw"
        note d = start_request_runs [OF assms(1-3) c, of "pl_mapped pl (fw_flash fw)"]
        have "dispatch_with_bpf_and_executor ?ex r ?s \<noteq> None"
          using assms(3,5) parse Some by (cases "dispatch_with_bpf_and_executor ?ex r ?s") (auto simp: on_i2c_packet_def)
        then obtain res m where e: "execute_loaded_bpf (pl_sonde pl) (pl_time pl) (program_metadata ?ld)
            (pl_backing pl) (pl_context pl, 0) False (pl_mapped pl (fw_flash fw)) (fw_machine fw) = Some (res, m)"
          unfolding d by (auto simp: bind_eq_None_conv)
        have lok: "launch_ok (pl_backing pl) (program_metadata ?ld) (fw_machine fw)"
          using program_launch_ok [OF assms(1,2)] c(3) mach by simp
        have sok: "sonde_ok (pl_sonde pl) stack" using assms(1) by (simp add: platform_ok_def)
        note ec = execution_contained [OF sok context_regions(2) [OF assms(1)] lok e]
        then have ram: "length (mc_ram m) = RAM_BYTES" using mach(1) by (simp add: untouched_def)
        obtain out where "length out = MAX_FRAME" and "on_i2c_packet pl packet truncated fw
            = Some (fw\<lparr>fw_protocol := \<lparr>ps_status_queue = ps_status_queue (fw_protocol fw),
                ps_loader = snd (start_status res ?ld), ps_response = out\<rparr>, fw_machine := m, fw_active := False,
                fw_tx := fw_tx fw @ [reply_frame (fst (start_status res ?ld)) (req_sequence r) []]\<rparr>)"
          using start_packet [OF assms(1-3) _ c e] parse Some by blast
        moreover have "loader_run (pl_storage pl) (snd (start_status res ?ld)) (fw_flash fw)"
          using start_status_run [OF fw_loader_inv(1) [OF assms(1,2)] c(2,3)] run by (simp add: request_state_def)
        ultimately show ?thesis using assms(2,5) ram ec by (auto simp: fw_wf_def)
      qed
    qed
  qed
qed

section \<open>Packets during a timer event\<close>

lemma bad_reset_packet:
  assumes "fw_wf pl fw" and "platform_ok pl stack" and "parse_packet packet truncated = Some (Some r)"
    and "req_command r = CMD_RESET" and "\<not> resets r"
  shows "\<exists>out status. length out = MAX_FRAME \<and> status \<in> {STATUS_BAD_FLAGS, STATUS_BAD_LENGTH}
    \<and> on_i2c_packet pl packet truncated fw
      = Some (fw\<lparr>fw_protocol := (fw_protocol fw)\<lparr>ps_response := out\<rparr>,
                 fw_tx := fw_tx fw @ [reply_frame status (req_sequence r) []]\<rparr>)"
proof -
  let ?s = "request_state pl fw" let ?ex = "start_executor pl (pl_mapped pl (fw_flash fw))"
  let ?st = "if req_flags r \<noteq> 0 then STATUS_BAD_FLAGS else STATUS_BAD_LENGTH"
  have d: "dispatch_with_bpf_and_executor ?ex r ?s = respond r ?s ?st []"
    using assms(4,5) by (auto simp: dispatch_with_bpf_and_executor_def dispatch_def resets_def command_codes)
  have same: "?s\<lparr>ds_loader := fw_loader fw\<rparr> = ?s" by (simp add: request_state_def)
  have "length (ps_response (fw_protocol fw)) = MAX_FRAME" using assms(1) by (simp add: fw_wf_def)
  from packet_responds [OF this assms(3) _ _, of pl "fw_loader fw" ?st "[]"] d assms(4)
  obtain out where "length out = MAX_FRAME" "on_i2c_packet pl packet truncated fw
      = Some (fw\<lparr>fw_protocol := (fw_protocol fw)\<lparr>ps_loader := fw_loader fw, ps_response := out\<rparr>,
                 fw_tx := fw_tx fw @ [reply_frame ?st (req_sequence r) []]\<rparr>)" unfolding same by auto
  then show ?thesis by (intro exI [of _ out] exI [of _ ?st]) simp
qed

definition same_but_io :: "('i, 'f) firmware \<Rightarrow> ('i, 'f) firmware \<Rightarrow> bool" where
  "same_but_io fw fw' \<longleftrightarrow> (\<exists>out tx rp. length out = MAX_FRAME \<and>
     fw' = fw\<lparr>fw_protocol := (fw_protocol fw)\<lparr>ps_response := out\<rparr>, fw_tx := tx, fw_reset_pending := rp\<rparr>)"

lemma same_but_ioD:
  assumes "same_but_io fw fw'"
  shows "fw_machine fw' = fw_machine fw" and "fw_active fw' = fw_active fw" and "fw_flash fw' = fw_flash fw"
    and "fw_loader fw' = fw_loader fw" and "fw_wf pl fw \<Longrightarrow> fw_wf pl fw'"
  using assms by (auto simp: same_but_io_def fw_wf_def)

lemma same_but_ioI:
  assumes "length (ps_response (fw_protocol fw')) = MAX_FRAME"
    and "fw' = fw\<lparr>fw_protocol := (fw_protocol fw)\<lparr>ps_response := ps_response (fw_protocol fw')\<rparr>, fw_tx := fw_tx fw',
      fw_reset_pending := fw_reset_pending fw'\<rparr>"
  shows "same_but_io fw fw'"
  using assms unfolding same_but_io_def by blast

lemma active_packet:
  assumes "fw_wf pl fw" and "platform_ok pl stack" and "fw_active fw"
  shows "\<exists>fw'. on_i2c_packet pl packet truncated fw = Some fw' \<and> same_but_io fw fw'"
proof -
  obtain req where parse: "parse_packet packet truncated = Some req"
    using parse_packet_not_none by blast
  have len: "length (ps_response (fw_protocol fw)) = MAX_FRAME" using assms(1) by (simp add: fw_wf_def)
  show ?thesis
  proof (cases req)
    case None
    then have "on_i2c_packet pl packet truncated fw = Some (fw\<lparr>fw_tx := fw_tx fw @ [[]]\<rparr>)"
      using packet_empty parse by blast
    moreover have "same_but_io fw (fw\<lparr>fw_tx := fw_tx fw @ [[]]\<rparr>)" using len by (intro same_but_ioI) simp_all
    ultimately show ?thesis by blast
  next
    case (Some r)
    consider "req_command r \<noteq> CMD_RESET" | "resets r" | "req_command r = CMD_RESET" "\<not> resets r" by blast
    then show ?thesis
    proof cases
      case 1
      then obtain out where out: "length out = MAX_FRAME" "on_i2c_packet pl packet truncated fw
          = Some (fw\<lparr>fw_protocol := (fw_protocol fw)\<lparr>ps_response := out\<rparr>,
               fw_tx := fw_tx fw @ [reply_frame STATUS_BUSY (req_sequence r) []]\<rparr>)"
        using packet_busy assms(1,3) parse Some by blast
      show ?thesis by (intro exI conjI, rule out(2), rule same_but_ioI) (simp_all add: out(1))
    next
      case 2
      then have "on_i2c_packet pl packet truncated fw = Some (fw\<lparr>fw_reset_pending := True\<rparr>)"
        using packet_reset parse Some by blast
      moreover have "same_but_io fw (fw\<lparr>fw_reset_pending := True\<rparr>)" using len by (intro same_but_ioI) simp_all
      ultimately show ?thesis by blast
    next
      case 3
      then obtain out status where out: "length out = MAX_FRAME" "on_i2c_packet pl packet truncated fw
          = Some (fw\<lparr>fw_protocol := (fw_protocol fw)\<lparr>ps_response := out\<rparr>,
               fw_tx := fw_tx fw @ [reply_frame status (req_sequence r) []]\<rparr>)"
        using bad_reset_packet [OF assms(1,2) _ 3] parse Some by blast
      show ?thesis by (intro exI conjI, rule out(2), rule same_but_ioI) (simp_all add: out(1))
    qed
  qed
qed

section \<open>The invariant\<close>

fun executing :: "main_pc \<Rightarrow> bool" where
  "executing (Check_Generation e) = True"
| "executing (Fetch_Metadata e) = True"
| "executing (Invoke e md) = True"
| "executing (Interpret e p) = True"
| "executing Release = True"
| "executing pc = False"

text \<open>The call an invocation for a timer event makes.\<close>

definition timer_call :: "('i, 'e, 'f) platform \<Rightarrow> ('i, 'f) firmware \<Rightarrow> bpf_call" where
  "timer_call pl fw = invocation (pl_time pl) (program_metadata (fw_loader fw)) (pl_backing pl)
     (pl_context pl, TIMER_CONTEXT_LEN) True (program_code (fw_loader fw) (pl_mapped pl (fw_flash fw)))"

definition interpreting ::
    "('i, 'e, 'f) platform \<Rightarrow> u64 \<times> u64 \<Rightarrow> ('i, 'f) firmware \<Rightarrow> bpf_process \<Rightarrow> bool" where
  "interpreting pl stack fw p \<longleftrightarrow> has_program (ld_state (fw_loader fw))
     \<and> running_ok (readable stack (timer_call pl fw)) (writable stack (timer_call pl fw))
         (active (pl_backing pl) (program_metadata (fw_loader fw))) (p, fw_machine fw)"

definition current_event :: "('i, 'f) firmware \<Rightarrow> timer_event \<Rightarrow> bool" where
  "current_event fw e \<longleftrightarrow> ts_generation (fw_timer fw) = te_generation e"

definition pc_ok ::
    "('i, 'e, 'f) platform \<Rightarrow> u64 \<times> u64 \<Rightarrow> main_pc \<Rightarrow> ('i, 'f) firmware \<Rightarrow> bool" where
  "pc_ok pl stack pc fw \<longleftrightarrow>
     (case pc of
        Fetch_Metadata e \<Rightarrow> current_event fw e
      | Invoke e md \<Rightarrow> current_event fw e \<and> has_program (ld_state (fw_loader fw))
          \<and> md = program_metadata (fw_loader fw)
      | Interpret e p \<Rightarrow> interpreting pl stack fw p
      | _ \<Rightarrow> True)
     \<and> (case pc of Interpret e p \<Rightarrow> True | _ \<Rightarrow> mc_helpers (fw_machine fw) = None)"

definition fw_inv :: "('i, 'e, 'f) platform \<Rightarrow> u64 \<times> u64 \<Rightarrow> main_pc \<times> ('i, 'f) firmware \<Rightarrow> bool" where
  "fw_inv pl stack st \<longleftrightarrow> fw_wf pl (snd st) \<and> fw_active (snd st) = executing (fst st) \<and> pc_ok pl stack (fst st) (snd st)"

lemma packet_inv:
  assumes "platform_ok pl stack" and "fw_inv pl stack (pc, fw)"
    and "on_i2c_packet pl packet truncated fw = Some fw'"
  shows "fw_inv pl stack (pc, fw')"
proof (cases "executing pc")
  case True
  then have "same_but_io fw fw'"
    using active_packet [OF _ assms(1), of fw packet truncated] assms(2,3) by (auto simp: fw_inv_def)
  note same = same_but_ioD [OF this]
  have "timer_call pl fw' = timer_call pl fw" by (simp add: timer_call_def same(3,4))
  then have "pc_ok pl stack pc fw' = pc_ok pl stack pc fw"
    by (cases pc) (simp_all add: pc_ok_def current_event_def interpreting_def same(1,3,4))
  then show ?thesis using assms(2) same(2) same(5) [of pl] by (simp add: fw_inv_def)
next
  case False
  then have "mc_helpers (fw_machine fw) = None" "fw_wf pl fw" "\<not> fw_active fw"
    using assms(2) by (cases pc; simp add: fw_inv_def pc_ok_def)+
  from idle_packet [OF assms(1) this(2,3,1) assms(3)] show ?thesis
    using False by (cases pc) (simp_all add: fw_inv_def pc_ok_def)
qed

section \<open>Startup and the main loop keep the invariant\<close>

lemma startup_inv:
  assumes "platform_ok pl stack" and "length ram = RAM_BYTES"
  shows "\<exists>fw. startup pl ram clock flash = Some (Top, fw) \<and> fw_inv pl stack (Top, fw) \<and> \<not> fw_reset_pending fw
    \<and> fw_timer fw = timer_state_new \<and> pl_mapped pl (fw_flash fw) = pl_mapped pl flash
    \<and> backing_of (pl_backing pl) (mc_ram (fw_machine fw)) = replicate BPF_MAX_MAP_BYTES 0"
proof -
  have nor: "nor_flash (pl_storage pl) (pl_mapped pl)" and base: "base_ok (pl_backing pl)"
    and probe: "run_bpf_size_probe (pl_sonde pl) = Some ()"
    using assms(1) by (simp_all add: platform_ok_def)
  obtain ld flash' where v: "validate_committed (pl_storage pl) loader_new flash = Some (ld, flash')"
    "pl_mapped pl flash' = pl_mapped pl flash"
    using nor_flash.validate_committed_sound [OF nor, of loader_new flash] by auto
  have ram: "length (with_backing (pl_backing pl) ram (replicate BPF_MAX_MAP_BYTES 0)) = RAM_BYTES"
    "backing_of (pl_backing pl) (with_backing (pl_backing pl) ram (replicate BPF_MAX_MAP_BYTES 0)) = replicate BPF_MAX_MAP_BYTES 0"
    using with_backing_props [OF base, of ram "replicate BPF_MAX_MAP_BYTES 0"] assms(2) by simp_all
  have "status_queue_wf status_queue_ready" by (simp add: status_queue_wf_def status_queue_ready_def)
  then show ?thesis
    using v probe ram timer_inv_new loader_run.boot [OF v(1)]
    by (simp add: startup_def protocol_state_new_def fw_inv_def fw_wf_def pc_ok_def Let_def)
qed

definition timer_context_bytes :: "u64 \<Rightarrow> bytes" where
  "timer_context_bytes cookie = [1, 0, 0, 0, 1, 0, 0, 0] @ to_le_bytes 8 cookie @ replicate 16 0"

lemma timer_context_value: "timer_context cookie = Some (timer_context_bytes cookie)"
proof -
  have one: "to_le_bytes 4 (1 :: u32) = [1, 0, 0, 0]"
    by (simp add: le_bytes_eval to_le_bytes_zero numeral_eq_Suc)
  have z: "replicate 32 (0 :: u8) = replicate 4 0 @ replicate 4 0 @ replicate 8 0 @ replicate 16 0"
    by (simp flip: replicate_add)
  show ?thesis
    by (simp add: timer_context_def timer_context_bytes_def TIMER_CONTEXT_LEN_def TIMER_EVENT_KIND_def
        TIMER_CONTEXT_VERSION_def one copy_into_def Let_def)
qed

lemma length_timer_context: "length (timer_context_bytes cookie) = 32"
  by (simp add: timer_context_bytes_def)

lemma write_context:
  assumes "platform_ok pl stack" and "length ram = RAM_BYTES"
  shows "\<exists>ram'. ram_write ram (pl_context pl) (timer_context_bytes cookie) = Some ram'
    \<and> untouched [context_range (pl_context pl, TIMER_CONTEXT_LEN)] ram ram'
    \<and> ram_read ram' (pl_context pl) TIMER_CONTEXT_LEN = Some (timer_context_bytes cookie)"
proof -
  let ?c = "pl_context pl" let ?r = "context_range (?c, TIMER_CONTEXT_LEN)"
  have c: "BPF_RAM_START \<le> ?c" "unat ?c + 32 \<le> 0x20002800"
    using assms(1) by (simp_all add: platform_ok_def TIMER_CONTEXT_LEN_def ram_consts)
  then have "unat (?c + 32) = unat ?c + 32" by (subst unat_add_id) simp_all
  then have "accessible [?r] ?c (length (timer_context_bytes cookie))"
    by (simp add: accessible_def context_range_def TIMER_CONTEXT_LEN_def length_timer_context)
  moreover have "in_ram [?r]"
    using context_regions(1) [OF assms(1)] by (cases stack) (simp add: regions_ok_def in_ram_def)
  ultimately obtain ram' where w: "ram_write ram ?c (timer_context_bytes cookie) = Some ram'" "untouched [?r] ram ram'"
    using accessible_write [of "[?r]" ?c "timer_context_bytes cookie" ram] assms(2) by auto
  let ?i = "ram_index ?c"
  have i: "?i + 32 \<le> 10240" "\<not> ?c < BPF_RAM_START"
    using c by (simp_all add: ram_index_def ram_consts word_le_nat_alt word_less_nat_alt)
  have "ram' = take ?i ram @ timer_context_bytes cookie @ drop (?i + 32) ram"
    using w(1) i assms(2) length_timer_context [of cookie] by (simp add: ram_write_def copy_into_def split: if_splits)
  then have "ram_read ram' ?c TIMER_CONTEXT_LEN = Some (timer_context_bytes cookie)"
    using i assms(2) length_timer_context [of cookie]
    by (simp add: ram_read_def slice_def TIMER_CONTEXT_LEN_def)
  then show ?thesis using w by blast
qed

lemma invoke_step:
  assumes "platform_ok pl stack" and "fw_wf pl fw" and "has_program (ld_state (fw_loader fw))"
  shows "\<exists>ram'. timer_event_step pl (Invoke e (program_metadata (fw_loader fw))) fw
      = Some (Interpret e (so_execute (pl_sonde pl) (timer_call pl fw)),
              fw\<lparr>fw_machine := (fw_machine fw)\<lparr>mc_ram := ram',
                 mc_helpers := Some (active (pl_backing pl) (program_metadata (fw_loader fw)))\<rparr>\<rparr>)
    \<and> untouched [context_range (pl_context pl, TIMER_CONTEXT_LEN)] (mc_ram (fw_machine fw)) ram'
    \<and> ram_read ram' (pl_context pl) TIMER_CONTEXT_LEN = Some (timer_context_bytes (te_cookie e))"
proof -
  let ?m = "fw_machine fw" let ?ld = "fw_loader fw"
  have len: "length (mc_ram ?m) = RAM_BYTES" using assms(2) by (simp add: fw_wf_def)
  obtain ram' where w: "ram_write (mc_ram ?m) (pl_context pl) (timer_context_bytes (te_cookie e)) = Some ram'"
    "untouched [context_range (pl_context pl, TIMER_CONTEXT_LEN)] (mc_ram ?m) ram'"
    "ram_read ram' (pl_context pl) TIMER_CONTEXT_LEN = Some (timer_context_bytes (te_cookie e))"
    using write_context [OF assms(1) len] by blast
  have md: "metadata_ok (program_metadata ?ld)"
    using program_metadata_view(1) [OF fw_loader_inv(1) [OF assms(1,2)] assms(3)] .
  have code: "slice (pl_mapped pl (fw_flash fw)) 0x6010 (0x6010 + unat (pm_bytecode_len (program_metadata ?ld)))
      = Some (program_code ?ld (pl_mapped pl (fw_flash fw)))"
    using committed_code(2) [OF fw_loader_inv(2) [OF assms(1,2)] assms(3)] by (simp add: program_metadata_def)
  show ?thesis
    using w
    by (intro exI [of _ ram'])
       (simp add: timer_event_step_def timer_context_value timer_call_def launch_value [OF md code])
qed

lemma invoke_inv:
  assumes "platform_ok pl stack" and "fw_inv pl stack (Invoke e md, fw)"
  shows "\<exists>st'. timer_event_step pl (Invoke e md) fw = Some st' \<and> fw_inv pl stack st'"
proof -
  have h: "fw_wf pl fw" "fw_active fw" "has_program (ld_state (fw_loader fw))" "md = program_metadata (fw_loader fw)"
    using assms(2) by (simp_all add: fw_inv_def pc_ok_def)
  obtain ram' where s: "timer_event_step pl (Invoke e md) fw
      = Some (Interpret e (so_execute (pl_sonde pl) (timer_call pl fw)),
              fw\<lparr>fw_machine := (fw_machine fw)\<lparr>mc_ram := ram', mc_helpers := Some (active (pl_backing pl) md)\<rparr>\<rparr>)"
    and u: "untouched [context_range (pl_context pl, TIMER_CONTEXT_LEN)] (mc_ram (fw_machine fw)) ram'"
    using invoke_step [OF assms(1) h(1,3), of e] h(4) by auto
  let ?m = "(fw_machine fw)\<lparr>mc_ram := ram'\<rparr>"
  let ?fw' = "fw\<lparr>fw_machine := ?m\<lparr>mc_helpers := Some (active (pl_backing pl) md)\<rparr>\<rparr>"
  have ram: "length ram' = RAM_BYTES" "timer_inv (mc_timer ?m)"
    using h(1) u by (simp_all add: fw_wf_def untouched_def)
  have call: "timer_call pl ?fw' = timer_call pl fw" by (simp add: timer_call_def)
  have run: "running_ok (readable stack (timer_call pl fw)) (writable stack (timer_call pl fw))
      (active (pl_backing pl) md) (so_execute (pl_sonde pl) (timer_call pl fw), ?m\<lparr>mc_helpers := Some (active (pl_backing pl) md)\<rparr>)"
    using assms(1) context_regions(1) [OF assms(1)] program_launch_ok [OF assms(1) h(1,3), of ?m] ram
    unfolding h(4) timer_call_def by (intro launch_running) (simp_all add: platform_ok_def)
  have "interpreting pl stack ?fw' (so_execute (pl_sonde pl) (timer_call pl fw))"
    unfolding interpreting_def call using run h(3,4) by simp
  then have "fw_inv pl stack (Interpret e (so_execute (pl_sonde pl) (timer_call pl fw)), ?fw')"
    using h ram by (simp add: fw_inv_def pc_ok_def fw_wf_def)
  then show ?thesis using s by simp
qed

lemma interpret_inv:
  assumes "platform_ok pl stack" and "fw_inv pl stack (Interpret e p, fw)"
  shows "\<exists>st'. timer_event_step pl (Interpret e p) fw = Some st' \<and> fw_inv pl stack st'
    \<and> untouched (invocation_writes stack (pl_backing pl) (program_metadata (fw_loader fw))
        (pl_context pl, TIMER_CONTEXT_LEN) True) (mc_ram (fw_machine fw)) (mc_ram (fw_machine (snd st')))"
proof (cases "returned p")
  case (Some r)
  then show ?thesis
    using assms(2) by (simp add: timer_event_step_def finish_bpf_def fw_inv_def pc_ok_def interpreting_def
        fw_wf_def running_ok_def)
next
  case None
  let ?c = "timer_call pl fw" let ?md = "program_metadata (fw_loader fw)"
  have i: "interpreting pl stack fw p" "fw_wf pl fw" "fw_active fw"
    using assms(2) by (simp_all add: fw_inv_def pc_ok_def)
  have run: "running_ok (readable stack ?c) (writable stack ?c) (active (pl_backing pl) ?md) (p, fw_machine fw)"
    using i(1) by (simp add: interpreting_def)
  have total: "time_total (pl_time pl)" using assms(1) by (simp add: platform_ok_def)
  obtain p' m' where s: "bpf_step (bpf_helpers (pl_time pl)) (p, fw_machine fw) = Some (p', m')"
    "running_ok (readable stack ?c) (writable stack ?c) (active (pl_backing pl) ?md) (p', m')"
    "untouched (writable stack ?c) (mc_ram (fw_machine fw)) (mc_ram m')"
    using step_result [OF run, of "pl_time pl"] total by (auto split: option.splits)
  let ?fw' = "fw\<lparr>fw_machine := m'\<rparr>"
  have "timer_call pl ?fw' = ?c" by (simp add: timer_call_def)
  moreover have "length (mc_ram m') = RAM_BYTES" "timer_inv (mc_timer m')"
    using s(2) exec_inv_ram [of "active (pl_backing pl) ?md" m'] by (simp_all add: running_ok_def exec_inv_def)
  ultimately have "fw_inv pl stack (Interpret e p', ?fw')"
    using i s(2) by (simp add: fw_inv_def pc_ok_def interpreting_def fw_wf_def)
  moreover have "writable stack ?c = invocation_writes stack (pl_backing pl) ?md (pl_context pl, TIMER_CONTEXT_LEN) True"
    unfolding timer_call_def writable_invocation ..
  ultimately show ?thesis using None s by (simp add: timer_event_step_def)
qed

lemma timer_event_inv:
  assumes "platform_ok pl stack" and "fw_inv pl stack (pc, fw)"
  shows "\<exists>st'. timer_event_step pl pc fw = Some st' \<and> fw_inv pl stack st'"
proof (cases pc)
  case (Claim e)
  then show ?thesis using assms(2)
    by (simp add: timer_event_step_def try_claim_bpf_execution_def fw_inv_def pc_ok_def fw_wf_def)
next
  case (Check_Generation e)
  then show ?thesis using assms(2)
    by (simp add: timer_event_step_def fw_inv_def pc_ok_def current_event_def)
next
  case (Fetch_Metadata e)
  have h: "fw_wf pl fw" using assms(2) by (simp add: fw_inv_def)
  show ?thesis
    using assms(2) event_execution_metadata_value [OF fw_loader_inv(1) [OF assms(1) h]]
    by (cases "ld_state (fw_loader fw)") (auto simp: Fetch_Metadata timer_event_step_def fw_inv_def pc_ok_def)
next
  case (Invoke e md)
  then show ?thesis using invoke_inv [OF assms(1)] assms(2) by blast
next
  case (Interpret e p)
  then show ?thesis using interpret_inv [OF assms(1)] assms(2) by blast
next
  case Release
  then show ?thesis using assms(2)
    by (simp add: timer_event_step_def release_bpf_execution_def fw_inv_def pc_ok_def fw_wf_def)
qed (use assms(2) in \<open>simp_all add: timer_event_step_def\<close>)

lemma main_inv:
  assumes "platform_ok pl stack" and "fw_inv pl stack (pc, fw)"
  shows "\<exists>st'. main_step pl star2 (pc, fw) = Some st' \<and> fw_inv pl stack st'"
proof (cases pc)
  case Top
  have "length (mc_ram (fw_machine fw)) = RAM_BYTES" using assms(2) by (simp add: fw_inv_def fw_wf_def)
  then show ?thesis
    using assms(2) startup_inv [OF assms(1), of "mc_ram (fw_machine fw)" "mc_clock (fw_machine fw)" "fw_flash fw"]
    by (auto simp: Top main_step_def fw_inv_def pc_ok_def)
next
  case Wait_Bus_Idle
  then show ?thesis using assms(2) by (simp add: main_step_def fw_inv_def pc_ok_def)
next
  case Exec_Pending
  have h: "fw_wf pl fw" "mc_helpers (fw_machine fw) = None" "\<not> fw_active fw"
    using assms(2) by (simp_all add: Exec_Pending fw_inv_def pc_ok_def)
  have "nor_flash (pl_storage pl) (pl_mapped pl)" using assms(1) by (simp add: platform_ok_def)
  from nor_flash.execute_pending_inv [OF this fw_loader_inv(1) [OF assms(1) h(1)]]
  obtain ld f where e: "execute_pending (pl_storage pl) (fw_loader fw) (fw_flash fw) = Some (ld, f)"
    by blast
  moreover have "loader_run (pl_storage pl) ld f"
    using loader_run.work [OF _ e] h(1) by (simp add: fw_wf_def)
  ultimately show ?thesis using h by (simp add: Exec_Pending main_step_def fw_inv_def pc_ok_def fw_wf_def)
next
  case Poll_Timer
  then show ?thesis using assms(2)
    by (simp add: main_step_def fw_inv_def pc_ok_def fw_wf_def tick_def set_timer_def timer_inv_poll)
next
  case Take_Ready
  have t: "timer_inv (snd (take_ready_timer (fw_timer fw)))"
    using assms(2) by (intro timer_inv_take) (simp add: fw_inv_def fw_wf_def)
  then show ?thesis using assms(2) unfolding Take_Ready
    by (cases "take_ready_timer (fw_timer fw)")
       (auto simp: main_step_def fw_inv_def pc_ok_def fw_wf_def set_timer_def split: option.split)
next
  case Sleep
  have "time_ok (pl_time pl)" using assms(1) by (simp add: platform_ok_def)
  then obtain w where "wait_for_timer_or_work (pl_time pl) (fw_now fw) (fw_timer fw) = Some w"
    using wait_total by blast
  then show ?thesis using assms(2)
    by (simp add: Sleep main_step_def fw_inv_def pc_ok_def fw_wf_def tick_def)
qed (use timer_event_inv [OF assms] in \<open>simp_all add: main_step_def\<close>)

lemma fw_step_inv:
  assumes "platform_ok pl stack" and "fw_inv pl stack st" and "fw_step pl a st = Some st'"
  shows "fw_inv pl stack st'"
proof (cases st)
  case (Pair pc fw)
  show ?thesis
  proof (cases a)
    case (Main_Step star2)
    then show ?thesis using main_inv [OF assms(1), of pc fw star2] assms(2,3) Pair by (auto simp: fw_step_def)
  next
    case (Packet packet truncated)
    then show ?thesis using packet_inv [OF assms(1)] assms(2,3) Pair by (auto simp: fw_step_def)
  qed
qed

lemma fw_reachable_inv:
  assumes "platform_ok pl stack" and "fw_reachable pl st"
  shows "fw_inv pl stack st"
  using assms(2)
proof (induction rule: fw_reachable.induct)
  case (power_on ram clock flash st)
  then show ?case using startup_inv [OF assms(1) power_on(1), of clock flash] by auto
next
  case (action st a st')
  then show ?case using fw_step_inv [OF assms(1)] by blast
qed

end
