(* ===== verification/Firmware_Liveness.thy ===== *)
theory Firmware_Liveness
  imports Firmware_Invariant
begin

text \<open>
  A due timer is served. Requests that neither load nor start nor reset leave the timer, the clock
  and the loader alone; the main loop then needs eight steps from its top to the invocation, with
  any number of such packets in between.
\<close>

section \<open>Quiet packets\<close>

definition quiet_request :: "request \<Rightarrow> bool" where
  "quiet_request r \<longleftrightarrow> req_command r \<notin> {CMD_LOAD_BPF, CMD_START_BPF, CMD_RESET}"

definition quiet_packet :: "bytes \<Rightarrow> bool \<Rightarrow> bool" where
  "quiet_packet packet truncated \<longleftrightarrow>
     (case parse_packet packet truncated of Some (Some r) \<Rightarrow> quiet_request r | _ \<Rightarrow> True)"

fun quiet_action :: "fw_action \<Rightarrow> bool" where
  "quiet_action (Main_Step star2) = True"
| "quiet_action (Packet packet truncated) = quiet_packet packet truncated"

fun is_main :: "fw_action \<Rightarrow> bool" where
  "is_main (Main_Step star2) = True"
| "is_main (Packet packet truncated) = False"

definition same_course :: "('i, 'f) firmware \<Rightarrow> ('i, 'f) firmware \<Rightarrow> bool" where
  "same_course fw fw' \<longleftrightarrow> fw_timer fw' = fw_timer fw \<and> mc_clock (fw_machine fw') = mc_clock (fw_machine fw)
     \<and> fw_loader fw' = fw_loader fw \<and> fw_flash fw' = fw_flash fw \<and> fw_reset_pending fw' = fw_reset_pending fw"

lemma quiet_loader:
  assumes "quiet_request r" and "dispatch_with_bpf_and_executor execute r s = Some (outcome, s')"
  shows "ds_loader s' = ds_loader s"
proof -
  have read: ?thesis if "handle_read_map r s = Some (outcome, s')"
    using that by (auto simp: handle_read_map_def Let_def dest!: respond_keeps split: if_splits sum.splits)
  have wr: ?thesis if "handle_write_map r s = Some (outcome, s')"
    using that by (clarsimp simp: handle_write_map_def Let_def bind_some_iff split: if_splits)
      (auto dest!: respond_keeps split: sum.split_asm prod.split_asm)
  have query: ?thesis if "handle_query r s = Some (outcome, s')"
    using that by (auto simp: handle_query_def dest!: respond_keeps split: if_splits sum.splits)
  have plain: ?thesis if "dispatch r s = Some (outcome, s')"
    using that by (auto simp: dispatch_def bind_some_iff dest!: respond_keeps split: if_splits)
  show ?thesis
    using assms read wr query plain
    by (auto simp: dispatch_with_bpf_and_executor_def quiet_request_def dest!: respond_keeps split: if_splits)
qed

lemma answered_course:
  assumes "parse_packet packet truncated = Some (Some r)" and "\<not> fw_active fw"
    and "answers r (request_state pl fw)
      (dispatch_with_bpf_and_executor (start_executor pl (pl_mapped pl (fw_flash fw))) r (request_state pl fw))"
    and "\<And>outcome s. dispatch_with_bpf_and_executor (start_executor pl (pl_mapped pl (fw_flash fw))) r (request_state pl fw)
      = Some (outcome, s) \<Longrightarrow> ds_loader s = fw_loader fw"
  shows "\<exists>fw'. on_i2c_packet pl packet truncated fw = Some fw' \<and> same_course fw fw'"
proof -
  let ?s = "request_state pl fw"
  from assms(3) obtain outcome s status payload where
      d: "dispatch_with_bpf_and_executor (start_executor pl (pl_mapped pl (fw_flash fw))) r ?s = Some (outcome, s)"
    and s: "dispatch_wf s" "ds_world s = ds_world ?s" "replies s outcome status (req_sequence r) payload"
    unfolding answers_def by blast
  have "length (ds_output s) = MAX_FRAME" using s(1) by (simp add: dispatch_wf_def)
  then have "on_i2c_packet pl packet truncated fw
      = Some ((after_request pl fw s)\<lparr>fw_tx := fw_tx fw @ [reply_frame status (req_sequence r) payload]\<rparr>)"
    using packet_reply [OF assms(1) _ d s(3)] assms(2) by blast
  moreover have "ds_world s = (fw_machine fw, fw_active fw)" using s(2) by (simp add: request_state_def)
  ultimately show ?thesis using assms(4) [OF d] by (simp add: same_course_def after_request_def)
qed

text \<open>A packet that is not a Reset is answered BUSY during a timer event.\<close>

lemma busy_course:
  assumes "fw_wf pl fw" and "fw_active fw" and "parse_packet packet truncated = Some (Some r)" and "req_command r \<noteq> CMD_RESET"
  shows "\<exists>fw'. on_i2c_packet pl packet truncated fw = Some fw' \<and> same_course fw fw'"
proof -
  obtain out where "on_i2c_packet pl packet truncated fw
      = Some (fw\<lparr>fw_protocol := (fw_protocol fw)\<lparr>ps_response := out\<rparr>,
             fw_tx := fw_tx fw @ [reply_frame STATUS_BUSY (req_sequence r) []]\<rparr>)"
    using packet_busy [OF assms] by blast
  then show ?thesis by (simp add: same_course_def)
qed

lemma empty_course:
  "parse_packet packet truncated = Some None
    \<Longrightarrow> \<exists>fw'. on_i2c_packet pl packet truncated fw = Some fw' \<and> same_course fw fw'"
  by (simp add: packet_empty same_course_def)

lemma quiet_packet_course:
  assumes "platform_ok pl stack" and "fw_wf pl fw" and "quiet_packet packet truncated"
  shows "\<exists>fw'. on_i2c_packet pl packet truncated fw = Some fw' \<and> same_course fw fw'"
proof -
  obtain req where parse: "parse_packet packet truncated = Some req"
    using parse_packet_not_none by blast
  show ?thesis
  proof (cases req)
    case None
    then show ?thesis using empty_course parse by blast
  next
    case (Some r)
    have wf: "wf_request r" using parse_packet_wf parse Some by blast
    have q: "quiet_request r" using assms(3) parse Some by (simp add: quiet_packet_def)
    then have nr: "\<not> resets r" "\<not> starts r" "req_command r \<noteq> CMD_RESET"
      by (auto simp: quiet_request_def resets_def starts_def)
    show ?thesis
    proof (cases "fw_active fw")
      case True
      then show ?thesis using busy_course [OF assms(2) True _ nr(3)] parse Some by blast
    next
      case False
      let ?s = "request_state pl fw" let ?ex = "start_executor pl (pl_mapped pl (fw_flash fw))"
      have "answers r ?s (dispatch_with_bpf_and_executor ?ex r ?s)"
        using dispatch_with_answers [OF request_state_wf [OF assms(1,2)] wf nr(2)] nr(1) by simp
      moreover have "ds_loader s = fw_loader fw" if "dispatch_with_bpf_and_executor ?ex r ?s = Some (outcome, s)" for outcome s
        using quiet_loader [OF q that] by (simp add: request_state_def)
      ultimately show ?thesis using answered_course [OF parse [unfolded Some] False] by blast
    qed
  qed
qed

section \<open>The way from the top of the loop to the invocation\<close>

fun steps_to_go :: "main_pc \<Rightarrow> nat" where
  "steps_to_go Top = 8"
| "steps_to_go Exec_Pending = 7"
| "steps_to_go Poll_Timer = 6"
| "steps_to_go Take_Ready = 5"
| "steps_to_go (Claim e) = 4"
| "steps_to_go (Check_Generation e) = 3"
| "steps_to_go (Fetch_Metadata e) = 2"
| "steps_to_go (Invoke e md) = 1"
| "steps_to_go pc = 0"

definition due_alarm :: "u64 \<Rightarrow> 'i::linorder alarm \<Rightarrow> 'i stream \<Rightarrow> bool" where
  "due_alarm cookie a clock \<longleftrightarrow> (\<exists>d. a = Armed d cookie \<and> (\<forall>t\<in>sset clock. d \<le> t))"

text \<open>On the way to the event with the given cookie; at the end its program runs.\<close>

definition on_the_way ::
    "('i::linorder, 'e, 'f) platform \<Rightarrow> u64 \<Rightarrow> main_pc \<times> ('i, 'f) firmware \<Rightarrow> bool" where
  "on_the_way pl cookie st = (case st of (pc, fw) \<Rightarrow>
     (case pc of
        Top \<Rightarrow> due_alarm cookie (alarm_of (fw_timer fw)) (mc_clock (fw_machine fw))
      | Exec_Pending \<Rightarrow> due_alarm cookie (alarm_of (fw_timer fw)) (mc_clock (fw_machine fw))
      | Poll_Timer \<Rightarrow> due_alarm cookie (alarm_of (fw_timer fw)) (mc_clock (fw_machine fw))
      | Take_Ready \<Rightarrow> alarm_of (fw_timer fw) = Due cookie
      | Claim e \<Rightarrow> te_cookie e = cookie \<and> current_event fw e
      | Check_Generation e \<Rightarrow> te_cookie e = cookie \<and> current_event fw e
      | Fetch_Metadata e \<Rightarrow> te_cookie e = cookie
      | Invoke e md \<Rightarrow> te_cookie e = cookie
      | Interpret e p \<Rightarrow> te_cookie e = cookie \<and> p = so_execute (pl_sonde pl) (timer_call pl fw)
      | _ \<Rightarrow> False)
     \<and> \<not> fw_reset_pending fw \<and> ld_pending (fw_loader fw) = None \<and> has_program (ld_state (fw_loader fw)))"

lemma on_the_way_course:
  assumes "on_the_way pl cookie (pc, fw)" and "same_course fw fw'"
  shows "on_the_way pl cookie (pc, fw')"
proof -
  have "timer_call pl fw' = timer_call pl fw" using assms(2) by (simp add: timer_call_def same_course_def)
  then show ?thesis using assms
    by (cases pc) (simp_all add: on_the_way_def same_course_def current_event_def)
qed

lemma on_the_way_step:
  assumes "platform_ok pl stack" and "fw_inv pl stack (pc, fw)" and "on_the_way pl cookie (pc, fw)"
    and "0 < steps_to_go pc"
  shows "\<exists>st'. main_step pl star2 (pc, fw) = Some st' \<and> on_the_way pl cookie st'
    \<and> steps_to_go (fst st') + 1 = steps_to_go pc"
proof -
  have wf: "fw_wf pl fw" using assms(2) by (simp add: fw_inv_def)
  have t: "timer_inv (fw_timer fw)" using wf by (simp add: fw_wf_def)
  show ?thesis
  proof (cases pc)
    case Top
    then show ?thesis using assms(3) by (simp add: main_step_def on_the_way_def has_pending_def)
  next
    case Exec_Pending
    have "execute_pending (pl_storage pl) (fw_loader fw) (fw_flash fw) = Some (fw_loader fw, fw_flash fw)"
      using assms(3) by (simp add: on_the_way_def execute_pending_def)
    then show ?thesis using assms(3) Exec_Pending by (simp add: main_step_def on_the_way_def)
  next
    case Poll_Timer
    obtain d where d: "alarm_of (fw_timer fw) = Armed d cookie" "d \<le> fw_now fw"
      using assms(3) shd_sset [of "mc_clock (fw_machine fw)"] by (auto simp: Poll_Timer on_the_way_def due_alarm_def)
    have "alarm_of (poll_timer (fw_now fw) (fw_timer fw)) = Due cookie"
      using alarm_of_simps(1) [OF t, of "fw_now fw"] d by simp
    then show ?thesis using assms(3)
      by (simp add: Poll_Timer main_step_def on_the_way_def tick_def set_timer_def)
  next
    case Take_Ready
    obtain ev t' where tk: "take_ready_timer (fw_timer fw) = (ev, t')" by (cases "take_ready_timer (fw_timer fw)")
    have "alarm_of (fw_timer fw) = Due cookie" using assms(3) by (simp add: Take_Ready on_the_way_def)
    then have "map_option te_cookie ev = Some cookie" using alarm_of_simps(2) [OF t tk] by simp
    then obtain e where e: "ev = Some e" "te_cookie e = cookie" by auto
    moreover have "ts_generation t' = te_generation e"
      using tk e(1) t by (auto simp: take_ready_timer_def timer_inv_def)
    ultimately show ?thesis using assms(3) tk
      by (simp add: Take_Ready main_step_def on_the_way_def set_timer_def current_event_def)
  next
    case (Claim e)
    then show ?thesis using assms(2,3)
      by (simp add: main_step_def timer_event_step_def try_claim_bpf_execution_def on_the_way_def fw_inv_def current_event_def)
  next
    case (Check_Generation e)
    then show ?thesis using assms(3)
      by (simp add: main_step_def timer_event_step_def on_the_way_def current_event_def)
  next
    case (Fetch_Metadata e)
    have "event_execution_metadata (fw_loader fw) = Some (Inr (program_metadata (fw_loader fw)))"
      using assms(3) event_execution_metadata_value [OF fw_loader_inv(1) [OF assms(1) wf]]
      by (cases "ld_state (fw_loader fw)") (simp_all add: on_the_way_def)
    then show ?thesis using assms(3) by (simp add: Fetch_Metadata main_step_def timer_event_step_def on_the_way_def)
  next
    case (Invoke e md)
    have h: "has_program (ld_state (fw_loader fw))" "md = program_metadata (fw_loader fw)"
      using assms(2) by (simp_all add: Invoke fw_inv_def pc_ok_def)
    obtain ram' where "timer_event_step pl (Invoke e md) fw
        = Some (Interpret e (so_execute (pl_sonde pl) (timer_call pl fw)),
                fw\<lparr>fw_machine := (fw_machine fw)\<lparr>mc_ram := ram', mc_helpers := Some (active (pl_backing pl) md)\<rparr>\<rparr>)"
      using invoke_step [OF assms(1) wf h(1), of e] h(2) by auto
    then show ?thesis using assms(3)
      by (simp add: Invoke main_step_def on_the_way_def timer_call_def)
  qed (use assms(4) in simp_all)
qed

lemma on_the_way_run:
  assumes "platform_ok pl stack" and "fw_inv pl stack st" and "on_the_way pl cookie st"
    and "list_all quiet_action acts" and "length (filter is_main acts) \<le> steps_to_go (fst st)"
  shows "\<exists>st'. fw_run pl acts st = Some st' \<and> on_the_way pl cookie st' \<and> fw_inv pl stack st'
    \<and> steps_to_go (fst st') + length (filter is_main acts) = steps_to_go (fst st)"
  using assms(2-5)
proof (induction acts arbitrary: st)
  case Nil
  then show ?case by simp
next
  case (Cons a acts)
  obtain pc fw where st: "st = (pc, fw)" by (cases st)
  have wf: "fw_wf pl fw" using Cons.prems(1) st by (simp add: fw_inv_def)
  obtain st1 where s: "fw_step pl a st = Some st1" "on_the_way pl cookie st1"
    "length (filter is_main acts) \<le> steps_to_go (fst st1)"
    "steps_to_go (fst st1) + length (filter is_main [a]) = steps_to_go (fst st)"
  proof (cases a)
    case (Main_Step star2)
    have "0 < steps_to_go pc" "length (filter is_main acts) + 1 \<le> steps_to_go pc"
      using Cons.prems(4) st Main_Step by simp_all
    with on_the_way_step [OF assms(1) Cons.prems(1,2) [unfolded st], of star2]
    obtain st' where "main_step pl star2 (pc, fw) = Some st'" "on_the_way pl cookie st'"
      "steps_to_go (fst st') + 1 = steps_to_go pc" by blast
    with \<open>length (filter is_main acts) + 1 \<le> steps_to_go pc\<close> that show ?thesis
      by (simp add: fw_step_def Main_Step st)
  next
    case (Packet packet truncated)
    then have "quiet_packet packet truncated" using Cons.prems(3) by simp
    then obtain fw' where "on_i2c_packet pl packet truncated fw = Some fw'" "same_course fw fw'"
      using quiet_packet_course [OF assms(1) wf] by blast
    then show ?thesis
      using that [of "(pc, fw')"] on_the_way_course [of pl cookie pc fw fw'] Cons.prems(2,4) st Packet
      by (simp add: fw_step_def)
  qed
  have "fw_inv pl stack st1" using fw_step_inv [OF assms(1) Cons.prems(1) s(1)] .
  moreover have "list_all quiet_action acts" using Cons.prems(3) by simp
  ultimately obtain st' where "fw_run pl acts st1 = Some st'" "on_the_way pl cookie st'" "fw_inv pl stack st'"
    "steps_to_go (fst st') + length (filter is_main acts) = steps_to_go (fst st1)"
    using Cons.IH [OF _ s(2) _ s(3)] by blast
  then show ?case using s(1,4) by (cases a) auto
qed

section \<open>The way to a pending load operation\<close>

text \<open>While an operation is pending the loader refuses Load and Start with BUSY, so no packet but a
  Reset gets in its way.\<close>

definition not_reset_packet :: "bytes \<Rightarrow> bool \<Rightarrow> bool" where
  "not_reset_packet packet truncated \<longleftrightarrow>
     (case parse_packet packet truncated of Some (Some r) \<Rightarrow> req_command r \<noteq> CMD_RESET | _ \<Rightarrow> True)"

lemma pending_packet_course:
  assumes "platform_ok pl stack" and "fw_wf pl fw" and "ld_pending (fw_loader fw) \<noteq> None" and "not_reset_packet packet truncated"
  shows "\<exists>fw'. on_i2c_packet pl packet truncated fw = Some fw' \<and> same_course fw fw'"
proof -
  let ?s = "request_state pl fw" let ?ex = "start_executor pl (pl_mapped pl (fw_flash fw))"
  obtain req where parse: "parse_packet packet truncated = Some req"
    using parse_packet_not_none by blast
  show ?thesis
  proof (cases req)
    case None
    then show ?thesis using empty_course parse by blast
  next
    case (Some r)
    have wf: "wf_request r" using parse_packet_wf parse Some by blast
    have nr: "req_command r \<noteq> CMD_RESET" using assms(4) parse Some by (simp add: not_reset_packet_def)
    have dwf: "dispatch_wf ?s" using request_state_wf [OF assms(1,2)] .
    have ld: "ds_loader ?s = fw_loader fw" by (simp add: request_state_def)
    show ?thesis
    proof (cases "fw_active fw")
      case True
      then show ?thesis using busy_course [OF assms(2) True _ nr] parse Some by blast
    next
      case False
      have "answers r ?s (dispatch_with_bpf_and_executor ?ex r ?s)"
      proof (cases "starts r")
        case True
        have "loader_inv (ds_loader ?s)" using dwf by (simp add: dispatch_wf_def)
        then obtain status where "dispatch_with_bpf_and_executor ?ex r ?s = respond r ?s status []"
          using handle_start_refused [OF _ True] assms(3) ld by fastforce
        then show ?thesis using respond_error [OF dwf] by simp
      next
        case False
        then show ?thesis using dispatch_with_answers [OF dwf wf False, of ?ex] nr by (simp add: resets_def)
      qed
      moreover have "ds_loader s = fw_loader fw" if "dispatch_with_bpf_and_executor ?ex r ?s = Some (outcome, s)" for outcome s
        using dispatch_loader_step [OF that] assms(3) by (auto simp: ld accepts_load_def execution_metadata_def)
      ultimately show ?thesis using answered_course [OF parse [unfolded Some] False] by blast
    qed
  qed
qed

text \<open>While the program of a timer event runs, nothing is pending: its metadata was given out when
  nothing was, and the bus is answered BUSY since.\<close>

fun runs_program :: "main_pc \<Rightarrow> bool" where
  "runs_program (Invoke e md) = True"
| "runs_program (Interpret e p) = True"
| "runs_program pc = False"

lemma fetch_running:
  assumes "timer_event_step pl (Fetch_Metadata e) fw = Some (pc', fw')" and "runs_program pc'"
  shows "fw' = fw \<and> ld_pending (fw_loader fw) = None"
proof -
  obtain res where res: "event_execution_metadata (fw_loader fw) = Some res"
    using assms(1) by (auto simp: timer_event_step_def bind_some_iff)
  then obtain md where "res = Inr md" "fw' = fw" using assms by (cases res) (auto simp: timer_event_step_def)
  then show ?thesis using res by (auto simp: event_execution_metadata_def split: if_splits)
qed

lemma main_step_running:
  assumes "main_step pl star2 (pc, fw) = Some (pc', fw')" and "runs_program pc'"
  shows "if runs_program pc then fw_loader fw' = fw_loader fw else ld_pending (fw_loader fw') = None"
proof (cases pc)
  case (Fetch_Metadata e)
  then show ?thesis using assms fetch_running [of pl e fw pc' fw'] by (simp add: main_step_def)
qed (use assms in \<open>auto simp: main_step_def timer_event_step_def startup_def bind_some_iff
  split: if_split_asm option.split_asm prod.split_asm bool.split_asm\<close>)

lemma running_not_pending:
  assumes "platform_ok pl stack" and "fw_reachable pl st"
  shows "runs_program (fst st) \<Longrightarrow> ld_pending (fw_loader (snd st)) = None"
  using assms(2)
proof (induction rule: fw_reachable.induct)
  case (power_on ram clock flash st)
  then show ?case by (auto simp: startup_def bind_some_iff)
next
  case (action st a st')
  obtain pc fw pc' fw' where st: "st = (pc, fw)" "st' = (pc', fw')" by (cases st, cases st')
  have inv: "fw_inv pl stack (pc, fw)" using fw_reachable_inv [OF assms(1) action(1)] st by simp
  show ?case
  proof (cases a)
    case (Main_Step star2)
    then have "main_step pl star2 (pc, fw) = Some (pc', fw')" using action(2) st by (simp add: fw_step_def)
    from main_step_running [OF this] action st show ?thesis by (auto split: if_splits)
  next
    case (Packet packet truncated)
    then have p: "on_i2c_packet pl packet truncated fw = Some fw'" "pc' = pc"
      using action(2) st by (auto simp: fw_step_def)
    then have "executing pc" using action(4) st by (cases pc) simp_all
    then obtain fw1 where "on_i2c_packet pl packet truncated fw = Some fw1" "same_but_io fw fw1"
      using active_packet [OF _ assms(1), of fw packet truncated] inv by (auto simp: fw_inv_def)
    then show ?thesis using same_but_ioD(4) [of fw fw1] p action st by simp
  qed
qed

text \<open>The steps of the main loop until the operation is carried out, at most.\<close>

fun steps_to_work :: "main_pc \<Rightarrow> nat" where
  "steps_to_work Poll_Timer = 10"
| "steps_to_work Take_Ready = 9"
| "steps_to_work (Claim e) = 8"
| "steps_to_work (Check_Generation e) = 7"
| "steps_to_work (Fetch_Metadata e) = 6"
| "steps_to_work Release = 5"
| "steps_to_work Sleep = 4"
| "steps_to_work Top = 3"
| "steps_to_work Wait_Bus_Idle = 2"
| "steps_to_work pc = 1"

lemma steps_to_work_bound: "steps_to_work pc \<le> 10"
  by (cases pc) simp_all

definition awaits_work :: "('i, 'f) firmware \<Rightarrow> main_pc \<times> ('i, 'f) firmware \<Rightarrow> bool" where
  "awaits_work fw st \<longleftrightarrow> \<not> runs_program (fst st) \<and> fw_loader (snd st) = fw_loader fw \<and> fw_flash (snd st) = fw_flash fw
     \<and> \<not> fw_reset_pending (snd st)"

lemma main_step_towards_work:
  assumes "platform_ok pl stack" and "fw_inv pl stack (pc, fw1)" and "awaits_work fw (pc, fw1)"
    and "ld_pending (fw_loader fw) \<noteq> None" and "pc \<noteq> Exec_Pending" and "wait_for_i2c_bus_idle star2"
  shows "\<exists>st'. main_step pl star2 (pc, fw1) = Some st' \<and> awaits_work fw st' \<and> steps_to_work (fst st') < steps_to_work pc"
proof -
  obtain pc' fw' where s: "main_step pl star2 (pc, fw1) = Some (pc', fw')"
    using main_inv [OF assms(1,2), of star2] by (metis surj_pair)
  have "\<not> fw_active fw1" if "pc = Claim e" for e using assms(2) that by (simp add: fw_inv_def)
  then have "awaits_work fw (pc', fw') \<and> steps_to_work pc' < steps_to_work pc"
    using s assms(3-6)
    by (cases pc)
      (auto simp: awaits_work_def main_step_def timer_event_step_def bind_some_iff event_execution_metadata_def has_pending_def
        try_claim_bpf_execution_def tick_def set_timer_def
        split: if_split_asm option.split_asm prod.split_asm)
  then show ?thesis using s by simp
qed

text \<open>Actions that let the work happen: the bus is idle when the loop waits for it, and no Reset
  arrives.\<close>

fun lets_work :: "fw_action \<Rightarrow> bool" where
  "lets_work (Main_Step star2) = wait_for_i2c_bus_idle star2"
| "lets_work (Packet packet truncated) = not_reset_packet packet truncated"

lemma steps_to_work_positive: "0 < steps_to_work pc"
  by (cases pc) simp_all

lemma work_done:
  assumes "platform_ok pl stack" and "ld_pending (fw_loader fw) \<noteq> None"
  shows "fw_inv pl stack st \<Longrightarrow> awaits_work fw st \<Longrightarrow> list_all lets_work acts
    \<Longrightarrow> steps_to_work (fst st) \<le> length (filter is_main acts)
    \<Longrightarrow> \<exists>as bs fw1. acts = as @ bs \<and> fw_run pl as st = Some (Poll_Timer, fw1)
      \<and> execute_pending (pl_storage pl) (fw_loader fw) (fw_flash fw) = Some (fw_loader fw1, fw_flash fw1)"
proof (induction acts arbitrary: st)
  case Nil
  then show ?case using steps_to_work_positive [of "fst st"] by simp
next
  case (Cons a acts)
  obtain pc fw1 where st: "st = (pc, fw1)" by (cases st)
  have wf: "fw_wf pl fw1" using Cons.prems(1) st by (simp add: fw_inv_def)
  have same: "fw_loader fw1 = fw_loader fw" "fw_flash fw1 = fw_flash fw" using Cons.prems(2) st by (simp_all add: awaits_work_def)
  have go: ?case if s: "fw_step pl a st = Some st'" "awaits_work fw st'"
      "steps_to_work (fst st') \<le> length (filter is_main acts)" for st'
  proof -
    have "fw_inv pl stack st'" using fw_step_inv [OF assms(1) Cons.prems(1) s(1)] .
    from Cons.IH [OF this s(2) _ s(3)] Cons.prems(3) obtain as bs fw2 where "acts = as @ bs"
      "fw_run pl as st' = Some (Poll_Timer, fw2)"
      "execute_pending (pl_storage pl) (fw_loader fw) (fw_flash fw) = Some (fw_loader fw2, fw_flash fw2)" by auto
    then show ?thesis using s(1) by (intro exI [of _ "a # as"] exI [of _ bs] exI [of _ fw2]) simp
  qed
  show ?case
  proof (cases a)
    case (Packet packet truncated)
    then have "not_reset_packet packet truncated" using Cons.prems(3) by simp
    then obtain fw' where p: "on_i2c_packet pl packet truncated fw1 = Some fw'" "same_course fw1 fw'"
      using pending_packet_course [OF assms(1) wf] assms(2) same by auto
    then have "awaits_work fw (pc, fw')" using Cons.prems(2) st by (simp add: awaits_work_def same_course_def)
    then show ?thesis using go [of "(pc, fw')"] p(1) Cons.prems(4) st Packet by (simp add: fw_step_def)
  next
    case (Main_Step star2)
    show ?thesis
    proof (cases "pc = Exec_Pending")
      case True
      obtain st' where m: "main_step pl star2 (pc, fw1) = Some st'"
        using main_inv [OF assms(1) Cons.prems(1) [unfolded st], of star2] by blast
      then obtain ld f where e: "execute_pending (pl_storage pl) (fw_loader fw) (fw_flash fw) = Some (ld, f)"
        "st' = (Poll_Timer, fw1\<lparr>fw_protocol := (fw_protocol fw1)\<lparr>ps_loader := ld\<rparr>, fw_flash := f\<rparr>)"
        using True same by (auto simp: main_step_def bind_some_iff)
      then show ?thesis using m st Main_Step
        by (intro exI [of _ "[a]"] exI [of _ acts] exI [of _ "snd st'"]) (simp add: fw_step_def)
    next
      case False
      have "wait_for_i2c_bus_idle star2" using Cons.prems(3) Main_Step by simp
      from main_step_towards_work [OF assms(1) Cons.prems(1,2) [unfolded st] assms(2) False this]
      obtain st' where "main_step pl star2 (pc, fw1) = Some st'" "awaits_work fw st'" "steps_to_work (fst st') < steps_to_work pc"
        by blast
      then show ?thesis using go [of st'] Cons.prems(4) st Main_Step by (simp add: fw_step_def)
    qed
  qed
qed

end
