(* ===== verification/Firmware_Properties.thy ===== *)
theory Firmware_Properties
  imports Firmware_Liveness
begin

text \<open>
  The properties of the whole firmware, over every state that can be reached from power-on with
  packets arriving between any two steps, and a platform on which their witnesses run: the flash
  double holding a committed image, and an interpreter whose only program schedules a timer.
\<close>

section \<open>A platform\<close>

definition timer_sonde :: sonde where
  "timer_sonde = \<lparr>so_execute = \<lambda>c. if 12 \<in> set (map fst (bc_helpers c))
       then Call_Helper 12 0 77 0 0 0 (\<lambda>_. Return (Some 0)) else Return None,
     so_execute_no_maps = \<lambda>_ _ _ _ _. Some 42\<rparr>"

definition fake_hal :: "(unit, fake_flash) hal_flash" where
  "fake_hal = \<lparr>hf_read = \<lambda>f off n. (case fake_read f off n of (Some bs, f) \<Rightarrow> (Inr bs, f) | (None, f) \<Rightarrow> (Inl (), f)),
     hf_write = \<lambda>f off bs. (case fake_write f off bs of (ok, f) \<Rightarrow> (if ok then Inr () else Inl (), f)),
     hf_erase = \<lambda>f a b. (case fake_erase f a b of (ok, f) \<Rightarrow> (if ok then Inr () else Inl (), f))\<rparr>"

definition sample_platform :: "(nat, unit, fake_flash) platform" where
  "sample_platform = \<lparr>pl_sonde = timer_sonde, pl_time = ms_api, pl_flash = fake_hal, pl_mapped = ff_bytes,
     pl_backing = 0x20000100, pl_context = 0x20001000\<rparr>"

lemma fake_hal_storage: "flash_storage fake_hal = fake_api"
  by (auto simp: flash_storage_def fake_hal_def fake_api_def fun_eq_iff split: prod.split option.split)

lemma sample_platform_simps [simp]:
  "pl_sonde sample_platform = timer_sonde" "pl_time sample_platform = ms_api"
  "flash_storage (pl_flash sample_platform) = fake_api" "pl_mapped sample_platform = ff_bytes"
  "pl_backing sample_platform = 0x20000100" "pl_context sample_platform = 0x20001000"
  by (simp_all add: sample_platform_def fake_hal_storage)

lemma sample_platform_ok: "platform_ok sample_platform sample_stack"
proof -
  have "sonde_ok timer_sonde sample_stack"
    by (auto simp: sonde_ok_def timer_sonde_def intro!: confined.intros)
  moreover have "run_bpf_size_probe timer_sonde = Some ()"
    by (simp add: run_bpf_size_probe_def timer_sonde_def)
  moreover have "in_ram [sample_stack]"
    by (simp add: sample_stack_def BPF_RAM_START_def BPF_RAM_END_def)
  moreover have "base_ok 0x20000100" "BPF_RAM_START \<le> 0x20001000"
    "unat (0x20001000 :: u64) + TIMER_CONTEXT_LEN \<le> unat BPF_RAM_END"
    "disjoint_ranges 0x20001000 TIMER_CONTEXT_LEN 0x20000100 BPF_MAX_MAP_BYTES"
    by (simp_all add: base_ok_def disjoint_ranges_def TIMER_CONTEXT_LEN_def BPF_RAM_START_def BPF_RAM_END_def)
  ultimately show ?thesis
    using fake.nor_flash_axioms time_ok_ms_api sample_launch_ok(3) by (simp add: platform_ok_def)
qed

lemma fw_reachable_run:
  "fw_reachable pl st \<Longrightarrow> fw_run pl acts st = Some st' \<Longrightarrow> fw_reachable pl st'"
  by (induction acts arbitrary: st) (auto simp: bind_some_iff dest: fw_reachable.action)

text \<open>Power-on with a committed image, then a Start: the program arms the timer.\<close>

definition start_frame :: bytes where
  "start_frame = encode_request (bare_request CMD_START_BPF 1)"

lemma powered_state:
  "\<exists>fw. startup sample_platform sample_ram (sconst 0) sample_flash = Some (Top, fw)
     \<and> ld_state (fw_loader fw) = Committed sample_crc \<and> ld_pending (fw_loader fw) = None
     \<and> mc_clock (fw_machine fw) = sconst 0 \<and> \<not> fw_reset_pending fw \<and> \<not> fw_active fw
     \<and> \<not> ff_fail_write (fw_flash fw)"
proof -
  obtain ld f where v: "validate_committed fake_api loader_new sample_flash = Some (ld, f)" "\<not> ff_fail_write f"
    and b: "boots_to loader_new (ff_bytes sample_flash) 8 1 sample_crc ld"
    using sample_boots by blast
  have "ld_state ld = Committed sample_crc" "ld_pending ld = None"
    using fake.boots_to_inv [OF sample_committed b] by simp_all
  then show ?thesis
    using v by (simp add: startup_def protocol_state_new_def run_bpf_size_probe_def timer_sonde_def)
qed

lemma powered_inv:
  assumes "startup sample_platform sample_ram (sconst 0) sample_flash = Some st"
  shows "fw_reachable sample_platform st" and "fw_inv sample_platform sample_stack st"
proof -
  show "fw_reachable sample_platform st"
    using fw_reachable.power_on [OF _ assms] by (simp add: sample_ram_def)
  then show "fw_inv sample_platform sample_stack st" by (rule fw_reachable_inv [OF sample_platform_ok])
qed

lemma timer_program_runs:
  assumes "metadata_ok md" and "slice flash 0x6010 (0x6010 + unat (pm_bytecode_len md)) = Some c"
    and "mc_clock m = sconst 0" and "timer_inv (mc_timer m)"
  shows "\<exists>m'. execute_loaded_bpf timer_sonde ms_api md base ctx ro flash m = Some (Inr 0, m')
    \<and> alarm_of (mc_timer m') = Armed 0 77 \<and> mc_clock m' = sconst 0"
proof -
  have ids: "12 \<in> set (map fst (bc_helpers (invocation ms_api md base ctx ro c)))"
    using registered_ids [of ms_api] by (simp add: invocation_def helper_ids_def)
  obtain t where t: "bpf_schedule_timer ms_api 0 0 77 (mc_timer m) = Some (0, t)"
    by (simp add: bpf_schedule_timer_def next_timer_generation_def ms_api_def Let_def)
  have "alarm_of t = Armed 0 77"
    using alarm_of_schedule [OF t] by (simp add: ms_api_def)
  moreover have "call_helper (bpf_helpers ms_api) 12 = schedule_func ms_api"
    using call_helper_cases [of 12 ms_api] by (simp add: helper_ids_def)
  ultimately show ?thesis
    using t assms(3) ids
    by (simp add: execute_loaded_bpf_def launch_value [OF assms(1,2)] timer_sonde_def run_bpf.simps
        bpf_step_def schedule_func_def finish_bpf_def siterate.simps)
qed

lemma idle_execution:
  "\<exists>fw m. fw_reachable sample_platform (Top, fw) \<and> \<not> fw_reset_pending fw \<and> \<not> fw_active fw
     \<and> ld_pending (fw_loader fw) = None \<and> ld_state (fw_loader fw) = Committed sample_crc
     \<and> execute_loaded_bpf (pl_sonde sample_platform) (pl_time sample_platform) (program_metadata (fw_loader fw))
         (pl_backing sample_platform) (pl_context sample_platform, 0) False (pl_mapped sample_platform (fw_flash fw))
         (fw_machine fw) = Some (Inr 0, m)
     \<and> alarm_of (mc_timer m) = Armed 0 77 \<and> mc_clock m = sconst 0"
proof -
  obtain fw where s: "startup sample_platform sample_ram (sconst 0) sample_flash = Some (Top, fw)"
    and ld: "ld_pending (fw_loader fw) = None" "ld_state (fw_loader fw) = Committed sample_crc"
    and fw: "mc_clock (fw_machine fw) = sconst 0" "\<not> fw_reset_pending fw" "\<not> fw_active fw"
    using powered_state by blast
  note inv = powered_inv [OF s]
  have wf: "fw_wf sample_platform fw" using inv(2) by (simp add: fw_inv_def)
  have prog: "has_program (ld_state (fw_loader fw))" using ld by simp
  have md: "metadata_ok (program_metadata (fw_loader fw))"
    using program_metadata_view(1) [OF fw_loader_inv(1) [OF sample_platform_ok wf] prog] .
  have code: "slice (ff_bytes (fw_flash fw)) 0x6010 (0x6010 + unat (pm_bytecode_len (program_metadata (fw_loader fw))))
      = Some (program_code (fw_loader fw) (ff_bytes (fw_flash fw)))"
    using committed_code(2) [OF fw_loader_inv(2) [OF sample_platform_ok wf] prog] by (simp add: program_metadata_def)
  have "timer_inv (fw_timer fw)" using wf by (simp add: fw_wf_def)
  from timer_program_runs [OF md code fw(1) this, of "0x20000100" "(0x20001000, 0)" False]
  show ?thesis using inv(1) ld fw(2,3) by (intro exI [of _ fw]) auto
qed

lemma armed_state:
  "\<exists>fw. fw_reachable sample_platform (Top, fw) \<and> \<not> fw_reset_pending fw \<and> \<not> fw_active fw
     \<and> ld_pending (fw_loader fw) = None \<and> ld_state (fw_loader fw) = Running sample_crc
     \<and> alarm_of (fw_timer fw) = Armed 0 77 \<and> mc_clock (fw_machine fw) = sconst 0"
proof -
  obtain fw m where inv: "fw_reachable sample_platform (Top, fw)" and fw: "\<not> fw_reset_pending fw" "\<not> fw_active fw"
    and ld: "ld_pending (fw_loader fw) = None" "ld_state (fw_loader fw) = Committed sample_crc"
    and e: "execute_loaded_bpf (pl_sonde sample_platform) (pl_time sample_platform) (program_metadata (fw_loader fw))
         (pl_backing sample_platform) (pl_context sample_platform, 0) False (pl_mapped sample_platform (fw_flash fw))
         (fw_machine fw) = Some (Inr 0, m)"
    and m: "alarm_of (mc_timer m) = Armed 0 77" "mc_clock m = sconst 0"
    using idle_execution by blast
  have wf: "fw_wf sample_platform fw"
    using fw_reachable_inv [OF sample_platform_ok inv] by (simp add: fw_inv_def)
  have parse: "parse_packet start_frame False = Some (Some (bare_request CMD_START_BPF 1))"
    unfolding start_frame_def by (rule parse_packet_single [OF bare_request_wf(1)])
  have st: "starts (bare_request CMD_START_BPF 1)" by (simp add: starts_def bare_request_wf)
  obtain out where p: "on_i2c_packet sample_platform start_frame False fw
      = Some (fw\<lparr>fw_protocol := \<lparr>ps_status_queue = ps_status_queue (fw_protocol fw),
          ps_loader = snd (start_status (Inr 0) (fw_loader fw)), ps_response = out\<rparr>, fw_machine := m, fw_active := False,
          fw_tx := fw_tx fw @ [reply_frame (fst (start_status (Inr 0) (fw_loader fw))) 1 []]\<rparr>)"
    using start_packet [OF sample_platform_ok wf fw(2) parse st ld e] bare_request_wf(5) by auto
  have "snd (start_status (Inr 0) (fw_loader fw)) = (fw_loader fw)\<lparr>ld_state := Running sample_crc\<rparr>"
    using mark_running_committed(1) [OF ld(2,1) fw_loader_inv(1) [OF sample_platform_ok wf]]
    by (simp add: start_status_def)
  moreover have "fw_reachable sample_platform (Top, the (on_i2c_packet sample_platform start_frame False fw))"
    using fw_reachable.action [OF inv, of "Packet start_frame False"] p by (simp add: fw_step_def)
  ultimately show ?thesis using p ld fw m by auto
qed

text \<open>The main loop alone, after the given number of its steps.\<close>

definition main_steps :: "nat \<Rightarrow> fw_action list" where
  "main_steps n = replicate n (Main_Step (sconst 0))"

lemma main_steps_simps [simp]:
  "list_all quiet_action (main_steps n)" "length (filter is_main (main_steps n)) = n"
  by (induction n) (simp_all add: main_steps_def)

lemma served_state:
  assumes "n \<le> 8"
  shows "\<exists>st fw pc. fw_reachable sample_platform st \<and> fw_run sample_platform (main_steps n) st = Some (pc, fw)
    \<and> fw_reachable sample_platform (pc, fw) \<and> on_the_way sample_platform 77 (pc, fw) \<and> steps_to_go pc = 8 - n"
proof -
  obtain fw where fw: "fw_reachable sample_platform (Top, fw)" "\<not> fw_reset_pending fw"
    "ld_pending (fw_loader fw) = None" "ld_state (fw_loader fw) = Running sample_crc"
    "alarm_of (fw_timer fw) = Armed 0 77" "mc_clock (fw_machine fw) = sconst 0"
    using armed_state by blast
  have otw: "on_the_way sample_platform 77 (Top, fw)"
    using fw by (auto simp: on_the_way_def due_alarm_def)
  have "length (filter is_main (main_steps n)) \<le> steps_to_go (fst (Top, fw))" using assms by simp
  from on_the_way_run [OF sample_platform_ok fw_reachable_inv [OF sample_platform_ok fw(1)] otw _ this]
  obtain pc' fw' where r: "fw_run sample_platform (main_steps n) (Top, fw) = Some (pc', fw')"
    "on_the_way sample_platform 77 (pc', fw')" "steps_to_go pc' + n = 8"
    by (auto simp: main_steps_simps)
  then have "steps_to_go pc' = 8 - n" by simp
  then show ?thesis using fw(1) r fw_reachable_run [OF fw(1) r(1)] by blast
qed

text \<open>The context is not part of the map backing store.\<close>

lemma context_keeps_backing:
  assumes "platform_ok pl stack" and "untouched [context_range (pl_context pl, TIMER_CONTEXT_LEN)] ram ram'"
    and "length ram = RAM_BYTES"
  shows "backing_of (pl_backing pl) ram' = backing_of (pl_backing pl) ram"
proof -
  let ?b = "pl_backing pl" let ?c = "pl_context pl"
  have base: "base_ok ?b" and c: "unat ?c + 32 \<le> 0x20002800"
    and d: "unat ?c + 32 \<le> unat ?b \<or> unat ?b + 1024 \<le> unat ?c"
    using assms(1) by (simp_all add: platform_ok_def TIMER_CONTEXT_LEN_def ram_consts disjoint_ranges_def)
  have u32: "unat (?c + 32) = unat ?c + 32" using c by (subst unat_add_id) simp_all
  have i: "unat ?b = 0x20000000 + ram_index ?b"
    using base by (simp add: base_ok_def ram_index_def word_le_nat_alt ram_consts)
  have len: "length ram' = length ram" using assms(2) by (simp add: untouched_def)
  have "ram' ! (ram_index ?b + k) = ram ! (ram_index ?b + k)" if "k < 1024" for k
    using assms(2) d that i u32 by (auto simp: untouched_def context_range_def TIMER_CONTEXT_LEN_def)
  then show ?thesis
    using base_index [OF base] assms(3) len by (intro nth_equalityI) (simp_all add: backing_of_def)
qed

lemma startup_loader:
  assumes "platform_ok pl stack" and "startup pl ram clock flash = Some (pc, fw)"
  shows "\<not> is_running (ld_state (fw_loader fw)) \<and> ps_status_queue (fw_protocol fw) = status_queue_ready"
proof -
  have nor: "nor_flash (pl_storage pl) (pl_mapped pl)" using assms(1) by (simp add: platform_ok_def)
  from nor_flash.validate_committed_sound [OF nor, of loader_new flash]
  obtain ld f where v: "validate_committed (pl_storage pl) loader_new flash = Some (ld, f)"
    and "ld = no_program loader_new Empty \<or> ld = no_program loader_new (Failed STATUS_FLASH_ERROR)
       \<or> (\<exists>b m c img. committed_image (pl_mapped pl flash) b m c img \<and> boots_to loader_new (pl_mapped pl flash) b m c ld)"
    by (elim exE conjE) (rule that)
  then have "\<not> is_running (ld_state ld)" by (auto simp: no_program_def boots_to_def)
  moreover have "fw_loader fw = ld" "ps_status_queue (fw_protocol fw) = status_queue_ready"
    using assms(2) v by (auto simp: startup_def protocol_state_new_def bind_some_iff)
  ultimately show ?thesis by simp
qed

section \<open>Properties\<close>

text \<open>C7: One program at a time: in every reachable state the execution flag is set exactly while the
  main loop is inside a timer event past the claim, and the helpers are active exactly while its
  program is interpreted, with the metadata of the committed program. So a taken event always gets
  the claim, and a packet that arrives during the event is handled at once and changes nothing but
  the response buffer, the queued packets and the reset request.\<close>

theorem one_program_at_a_time:
  assumes "platform_ok pl stack" and "fw_reachable pl (pc, fw)"
  shows "fw_active fw = executing pc
    \<and> (case mc_helpers (fw_machine fw) of
         None \<Rightarrow> (\<nexists>e p. pc = Interpret e p)
       | Some h \<Rightarrow> (\<exists>e p. pc = Interpret e p) \<and> has_program (ld_state (fw_loader fw))
           \<and> h = active (pl_backing pl) (program_metadata (fw_loader fw)))
    \<and> (case pc of Claim e \<Rightarrow> main_step pl star2 (pc, fw) = Some (Check_Generation e, fw\<lparr>fw_active := True\<rparr>) | _ \<Rightarrow> True)
    \<and> (if executing pc then \<exists>fw'. on_i2c_packet pl packet truncated fw = Some fw' \<and> same_but_io fw fw' else True)"
proof -
  have inv: "fw_inv pl stack (pc, fw)" using fw_reachable_inv [OF assms] .
  have "\<exists>fw'. on_i2c_packet pl packet truncated fw = Some fw' \<and> same_but_io fw fw'" if "executing pc"
    using active_packet [OF _ assms(1), of fw packet truncated] inv that by (simp add: fw_inv_def)
  then show ?thesis
    using inv
    by (cases pc) (auto simp: fw_inv_def pc_ok_def interpreting_def running_ok_def exec_inv_def main_step_def
        timer_event_step_def try_claim_bpf_execution_def)
qed

theorem one_program_at_a_time_witness:
  "\<exists>st fw e p. fw_run sample_platform (main_steps 8) st = Some (Interpret e p, fw) \<and> fw_active fw
     \<and> mc_helpers (fw_machine fw) \<noteq> None"
proof -
  obtain st fw pc where r: "fw_run sample_platform (main_steps 8) st = Some (pc, fw)"
    "fw_reachable sample_platform (pc, fw)" "on_the_way sample_platform 77 (pc, fw)" "steps_to_go pc = 0"
    using served_state [of 8] by auto
  then obtain e p where pc: "pc = Interpret e p" by (cases pc) (auto simp: on_the_way_def)
  have "fw_active fw \<and> mc_helpers (fw_machine fw) \<noteq> None"
    using one_program_at_a_time [OF sample_platform_ok r(2), of "sconst 0" "[]" True] pc
    by (cases "mc_helpers (fw_machine fw)") auto
  then show ?thesis using r(1) pc by blast
qed

text \<open>C11: While a timer event executes, the bus is answered BUSY: every well-formed request other than
  Reset gets exactly one response with BUSY and its sequence number, is not dispatched, and leaves the
  program, the maps, the timer and the loader alone; a Reset only records the request.\<close>

theorem busy_while_executing:
  assumes "platform_ok pl stack" and "fw_reachable pl (pc, fw)" and "executing pc"
    and "parse_packet packet truncated = Some (Some r)"
  shows "\<exists>fw'. on_i2c_packet pl packet truncated fw = Some fw'
    \<and> fw_machine fw' = fw_machine fw \<and> fw_loader fw' = fw_loader fw \<and> fw_flash fw' = fw_flash fw
    \<and> (if req_command r \<noteq> CMD_RESET
       then fw_tx fw' = fw_tx fw @ [reply_frame STATUS_BUSY (req_sequence r) []]
         \<and> fw_reset_pending fw' = fw_reset_pending fw
       else if resets r then fw_tx fw' = fw_tx fw \<and> fw_reset_pending fw'
       else fw_reset_pending fw' = fw_reset_pending fw)"
proof -
  have inv: "fw_wf pl fw" "fw_active fw" using fw_reachable_inv [OF assms(1,2)] assms(3) by (simp_all add: fw_inv_def)
  consider "req_command r \<noteq> CMD_RESET" | "resets r" | "req_command r = CMD_RESET" "\<not> resets r" by blast
  then show ?thesis
  proof cases
    case 1
    from packet_busy [OF inv assms(4) 1] obtain out where
      "on_i2c_packet pl packet truncated fw = Some (fw\<lparr>fw_protocol := (fw_protocol fw)\<lparr>ps_response := out\<rparr>,
         fw_tx := fw_tx fw @ [reply_frame STATUS_BUSY (req_sequence r) []]\<rparr>)" by blast
    then show ?thesis using 1 by simp
  next
    case 2
    then show ?thesis using packet_reset [OF assms(4), of pl fw] by (simp add: resets_def)
  next
    case 3
    from bad_reset_packet [OF inv(1) assms(1,4) 3] obtain out status where
      "on_i2c_packet pl packet truncated fw = Some (fw\<lparr>fw_protocol := (fw_protocol fw)\<lparr>ps_response := out\<rparr>,
         fw_tx := fw_tx fw @ [reply_frame status (req_sequence r) []]\<rparr>)" by blast
    then show ?thesis using 3 by simp
  qed
qed

theorem busy_while_executing_witness:
  "\<exists>st pc fw fw'. fw_run sample_platform (main_steps 8) st = Some (pc, fw)
     \<and> on_i2c_packet sample_platform start_frame False fw = Some fw'
     \<and> fw_tx fw' = fw_tx fw @ [reply_frame STATUS_BUSY 1 []]"
proof -
  obtain st fw pc where r: "fw_run sample_platform (main_steps 8) st = Some (pc, fw)"
    "fw_reachable sample_platform (pc, fw)" "on_the_way sample_platform 77 (pc, fw)" "steps_to_go pc = 0"
    using served_state [of 8] by auto
  then have "executing pc" by (cases pc) (auto simp: on_the_way_def)
  moreover have "parse_packet start_frame False = Some (Some (bare_request CMD_START_BPF 1))"
    unfolding start_frame_def by (rule parse_packet_single [OF bare_request_wf(1)])
  moreover have "CMD_START_BPF \<noteq> CMD_RESET" by (simp add: command_codes)
  ultimately show ?thesis
    using busy_while_executing [OF sample_platform_ok r(2)] r(1) bare_request_wf(4,5) by metis
qed

text \<open>C6: A timer event runs the committed program: when the main loop gets to the invocation, the
  event is still current and the next step hands the interpreter the bytecode of the image that is
  committed on the flash, the ranges of its maps, and a read-only context of 32 bytes: event kind 1,
  version 1, the cookie that was scheduled, zeros. The map contents are as they were.\<close>

theorem timer_event_runs_committed_program:
  assumes "platform_ok pl stack" and "fw_reachable pl (Invoke e md, fw)"
  shows "current_event fw e \<and> (\<exists>crc img c fw'. ld_state (fw_loader fw) \<in> {Committed crc, Running crc}
    \<and> committed_image (pl_mapped pl (fw_flash fw)) (ld_bytecode_len (fw_loader fw)) (ld_map_count (fw_loader fw)) crc img
    \<and> main_step pl star2 (Invoke e md, fw) = Some (Interpret e (so_execute (pl_sonde pl) c), fw')
    \<and> bc_program c = take (unat (ld_bytecode_len (fw_loader fw))) img
    \<and> map_ranges c = helper_ranges (active (pl_backing pl) (program_metadata (fw_loader fw)))
    \<and> bc_context c = (pl_context pl, 32) \<and> bc_read_only c
    \<and> ram_read (mc_ram (fw_machine fw')) (pl_context pl) 32
        = Some ([1, 0, 0, 0, 1, 0, 0, 0] @ to_le_bytes 8 (te_cookie e) @ replicate 16 0)
    \<and> backing_of (pl_backing pl) (mc_ram (fw_machine fw')) = backing_of (pl_backing pl) (mc_ram (fw_machine fw)))"
proof -
  have inv: "fw_inv pl stack (Invoke e md, fw)" using fw_reachable_inv [OF assms] .
  then have wf: "fw_wf pl fw" and ev: "current_event fw e" and prog: "has_program (ld_state (fw_loader fw))"
    and md: "md = program_metadata (fw_loader fw)"
    by (simp_all add: fw_inv_def pc_ok_def)
  let ?c = "timer_call pl fw"
  obtain crc img where img: "ld_state (fw_loader fw) \<in> {Committed crc, Running crc}"
    "committed_image (pl_mapped pl (fw_flash fw)) (ld_bytecode_len (fw_loader fw)) (ld_map_count (fw_loader fw)) crc img"
    "program_code (fw_loader fw) (pl_mapped pl (fw_flash fw)) = take (unat (ld_bytecode_len (fw_loader fw))) img"
    using committed_code(1) [OF fw_loader_inv(2) [OF assms(1) wf] prog] by blast
  obtain ram' where s: "timer_event_step pl (Invoke e md) fw = Some (Interpret e (so_execute (pl_sonde pl) ?c),
      fw\<lparr>fw_machine := (fw_machine fw)\<lparr>mc_ram := ram', mc_helpers := Some (active (pl_backing pl) md)\<rparr>\<rparr>)"
    and u: "untouched [context_range (pl_context pl, TIMER_CONTEXT_LEN)] (mc_ram (fw_machine fw)) ram'"
    and ctx: "ram_read ram' (pl_context pl) TIMER_CONTEXT_LEN = Some (timer_context_bytes (te_cookie e))"
    using invoke_step [OF assms(1) wf prog, of e] md by auto
  have b: "backing_of (pl_backing pl) ram' = backing_of (pl_backing pl) (mc_ram (fw_machine fw))"
    using context_keeps_backing [OF assms(1) u] wf by (simp add: fw_wf_def)
  let ?fw' = "fw\<lparr>fw_machine := (fw_machine fw)\<lparr>mc_ram := ram', mc_helpers := Some (active (pl_backing pl) md)\<rparr>\<rparr>"
  have call: "bc_program ?c = take (unat (ld_bytecode_len (fw_loader fw))) img"
    "map_ranges ?c = helper_ranges (active (pl_backing pl) (program_metadata (fw_loader fw)))"
    "bc_context ?c = (pl_context pl, 32)" "bc_read_only ?c"
    using img(3) by (simp_all add: timer_call_def map_ranges_invocation)
       (simp_all add: invocation_def TIMER_CONTEXT_LEN_def)
  have m: "main_step pl star2 (Invoke e md, fw) = Some (Interpret e (so_execute (pl_sonde pl) ?c), ?fw')"
    using s by (simp add: main_step_def)
  have "ram_read (mc_ram (fw_machine ?fw')) (pl_context pl) 32
      = Some ([1, 0, 0, 0, 1, 0, 0, 0] @ to_le_bytes 8 (te_cookie e) @ replicate 16 0)"
    using ctx by (simp add: TIMER_CONTEXT_LEN_def timer_context_bytes_def)
  moreover have "backing_of (pl_backing pl) (mc_ram (fw_machine ?fw'))
      = backing_of (pl_backing pl) (mc_ram (fw_machine fw))" using b by simp
  ultimately show ?thesis using ev img(1,2) m call by blast
qed

theorem timer_event_runs_committed_program_witness:
  "\<exists>st e md fw c fw'. fw_run sample_platform (main_steps 7) st = Some (Invoke e md, fw)
     \<and> main_step sample_platform (sconst 0) (Invoke e md, fw) = Some (Interpret e (so_execute timer_sonde c), fw')
     \<and> ram_read (mc_ram (fw_machine fw')) 0x20001000 32
         = Some ([1, 0, 0, 0, 1, 0, 0, 0] @ to_le_bytes 8 (77 :: u64) @ replicate 16 0)"
proof -
  obtain st fw pc where r: "fw_run sample_platform (main_steps 7) st = Some (pc, fw)"
    "fw_reachable sample_platform (pc, fw)" "on_the_way sample_platform 77 (pc, fw)" "steps_to_go pc = 1"
    using served_state [of 7] by auto
  then obtain e md where pc: "pc = Invoke e md" by (cases pc) auto
  then have "te_cookie e = 77" using r(3) by (simp add: on_the_way_def)
  then show ?thesis
    using timer_event_runs_committed_program [OF sample_platform_ok r(2) [unfolded pc], of "sconst 0"] r(1) pc
    by (metis sample_platform_simps(1,6))
qed

text \<open>C9: Start runs the committed program: between timer events, a Start on a committed image runs
  the interpreter on exactly the bytecode committed on the flash, with an empty context. If it
  returns, the response is OK and the program Running for the value 0, and BAD_COMMAND with the program
  still only Committed for another value or an error.\<close>

theorem start_runs_committed_image:
  assumes "platform_ok pl stack" and "fw_reachable pl (pc, fw)" and "\<not> executing pc"
    and "parse_packet packet truncated = Some (Some r)" and "starts r"
    and "ld_pending (fw_loader fw) = None" and "ld_state (fw_loader fw) = Committed crc"
    and "execute_loaded_bpf (pl_sonde pl) (pl_time pl) (program_metadata (fw_loader fw)) (pl_backing pl)
      (pl_context pl, 0) False (pl_mapped pl (fw_flash fw)) (fw_machine fw) = Some (res, m)"
  shows "\<exists>img c fw'.
      committed_image (pl_mapped pl (fw_flash fw)) (ld_bytecode_len (fw_loader fw)) (ld_map_count (fw_loader fw)) crc img
    \<and> launch_bpf (pl_sonde pl) (pl_time pl) (program_metadata (fw_loader fw)) (pl_backing pl) (pl_context pl, 0) False
        (pl_mapped pl (fw_flash fw)) (fw_machine fw)
      = Some (so_execute (pl_sonde pl) c,
          (fw_machine fw)\<lparr>mc_helpers := Some (active (pl_backing pl) (program_metadata (fw_loader fw)))\<rparr>)
    \<and> bc_program c = take (unat (ld_bytecode_len (fw_loader fw))) img
    \<and> on_i2c_packet pl packet truncated fw = Some fw' \<and> fw_machine fw' = m
    \<and> fw_tx fw' = fw_tx fw @ [reply_frame (if res = Inr 0 then STATUS_OK else STATUS_BAD_COMMAND) (req_sequence r) []]
    \<and> ld_state (fw_loader fw') = (if res = Inr 0 then Running crc else Committed crc)"
proof -
  have inv: "fw_inv pl stack (pc, fw)" using fw_reachable_inv [OF assms(1,2)] .
  then have wf: "fw_wf pl fw" and idle: "\<not> fw_active fw" using assms(3) by (simp_all add: fw_inv_def)
  let ?ld = "fw_loader fw" let ?flash = "pl_mapped pl (fw_flash fw)"
  have prog: "has_program (ld_state ?ld)" using assms(7) by simp
  note dev = fw_loader_inv [OF assms(1) wf]
  obtain img where img: "committed_image ?flash (ld_bytecode_len ?ld) (ld_map_count ?ld) crc img"
    "program_code ?ld ?flash = take (unat (ld_bytecode_len ?ld)) img"
    using committed_code(1) [OF dev(2) prog] assms(7) by auto
  let ?c = "invocation (pl_time pl) (program_metadata ?ld) (pl_backing pl) (pl_context pl, 0) False (program_code ?ld ?flash)"
  have code: "slice ?flash 0x6010 (0x6010 + unat (pm_bytecode_len (program_metadata ?ld))) = Some (program_code ?ld ?flash)"
    using committed_code(2) [OF dev(2) prog] by (simp add: program_metadata_def)
  note launch = launch_value [OF program_metadata_view(1) [OF dev(1) prog] code,
      of "pl_sonde pl" "pl_time pl" "pl_backing pl" "(pl_context pl, 0)" False "fw_machine fw"]
  obtain out where p: "on_i2c_packet pl packet truncated fw
      = Some (fw\<lparr>fw_protocol := \<lparr>ps_status_queue = ps_status_queue (fw_protocol fw),
          ps_loader = snd (start_status res ?ld), ps_response = out\<rparr>, fw_machine := m, fw_active := False,
          fw_tx := fw_tx fw @ [reply_frame (fst (start_status res ?ld)) (req_sequence r) []]\<rparr>)"
    using start_packet [OF assms(1) wf idle assms(4-8)] by blast
  have bad: "status = STATUS_BAD_COMMAND" if "res = Inl status" for status
    using assms(8) that by (auto simp: execute_loaded_bpf_def finish_bpf_def bind_some_iff split: option.splits)
  have st: "fst (start_status res ?ld) = (if res = Inr 0 then STATUS_OK else STATUS_BAD_COMMAND)
      \<and> ld_state (snd (start_status res ?ld)) = (if res = Inr 0 then Running crc else Committed crc)"
    using mark_running_committed(1) [OF assms(7,6) dev(1)] assms(7) bad
    by (auto simp: start_status_def split: sum.splits)
  have "bc_program ?c = take (unat (ld_bytecode_len ?ld)) img" using img(2) by (simp add: invocation_def)
  then show ?thesis using img(1) launch p st by (intro exI [of _ img] exI [of _ ?c]) simp
qed

theorem start_runs_committed_image_witness:
  "\<exists>fw fw'. fw_reachable sample_platform (Top, fw) \<and> on_i2c_packet sample_platform start_frame False fw = Some fw'
     \<and> fw_tx fw' = fw_tx fw @ [reply_frame STATUS_OK 1 []] \<and> ld_state (fw_loader fw') = Running sample_crc"
proof -
  obtain fw m where fw: "fw_reachable sample_platform (Top, fw)" "ld_pending (fw_loader fw) = None"
    "ld_state (fw_loader fw) = Committed sample_crc"
    and e: "execute_loaded_bpf (pl_sonde sample_platform) (pl_time sample_platform) (program_metadata (fw_loader fw))
      (pl_backing sample_platform) (pl_context sample_platform, 0) False (pl_mapped sample_platform (fw_flash fw))
      (fw_machine fw) = Some (Inr 0, m)"
    using idle_execution by blast
  have parse: "parse_packet start_frame False = Some (Some (bare_request CMD_START_BPF 1))"
    unfolding start_frame_def by (rule parse_packet_single [OF bare_request_wf(1)])
  have st: "starts (bare_request CMD_START_BPF 1)" by (simp add: starts_def bare_request_wf)
  have "\<not> executing Top" by simp
  from start_runs_committed_image [OF sample_platform_ok fw(1) this parse st fw(2,3) e]
  obtain fw' where "on_i2c_packet sample_platform start_frame False fw = Some fw'"
    "fw_tx fw' = fw_tx fw @ [reply_frame (if (Inr 0 :: u8 + u64) = Inr 0 then STATUS_OK else STATUS_BAD_COMMAND)
      (req_sequence (bare_request CMD_START_BPF 1)) []]"
    "ld_state (fw_loader fw') = (if (Inr 0 :: u8 + u64) = Inr 0 then Running sample_crc else Committed sample_crc)"
    by (elim exE conjE) (rule that)
  then show ?thesis using fw(1) by (simp add: bare_request_wf(5)) blast
qed

text \<open>C12: The firmware does not get stuck: every reachable state has buffers of their fixed sizes,
  consistent timer and loader states, and the main loop can take its next step, whatever the bus
  status register reads; the only calls that may not return are invocations made by Start.\<close>

theorem main_loop_never_panics:
  assumes "platform_ok pl stack" and "fw_reachable pl (pc, fw)"
  shows "length (ps_response (fw_protocol fw)) = MAX_FRAME \<and> length (mc_ram (fw_machine fw)) = RAM_BYTES
    \<and> status_queue_wf (ps_status_queue (fw_protocol fw)) \<and> timer_inv (fw_timer fw)
    \<and> loader_inv (fw_loader fw) \<and> device_inv (fw_loader fw) (pl_mapped pl (fw_flash fw))
    \<and> (\<exists>st'. main_step pl star2 (pc, fw) = Some st')"
proof -
  have inv: "fw_inv pl stack (pc, fw)" using fw_reachable_inv [OF assms] .
  then have wf: "fw_wf pl fw" by (simp add: fw_inv_def)
  show ?thesis
    using wf fw_loader_inv [OF assms(1) wf] main_inv [OF assms(1) inv, of star2] unfolding fw_wf_def by blast
qed

theorem main_loop_never_panics_witness:
  "\<exists>fw st'. fw_reachable sample_platform (Top, fw) \<and> main_step sample_platform (sconst 0) (Top, fw) = Some st'
     \<and> timer_inv (fw_timer fw)"
proof -
  obtain fw where "fw_reachable sample_platform (Top, fw)" using armed_state by blast
  then show ?thesis using main_loop_never_panics [OF sample_platform_ok, of Top fw "sconst 0"] by blast
qed

text \<open>C34: What a program can change during a timer event, step by step, also if it never ends: only
  bytes of the interpreter's stack and of its own maps; the context is read-only, and the loader, the
  flash, the status queue, the response buffer and the queued packets stay as they are.\<close>

theorem timer_program_is_contained:
  assumes "platform_ok pl stack" and "fw_reachable pl (Interpret e p, fw)"
    and "main_step pl star2 (Interpret e p, fw) = Some (pc', fw')"
  shows "untouched (stack # helper_ranges (active (pl_backing pl) (program_metadata (fw_loader fw))))
      (mc_ram (fw_machine fw)) (mc_ram (fw_machine fw'))
    \<and> fw' = fw\<lparr>fw_machine := fw_machine fw'\<rparr>"
proof -
  have inv: "fw_inv pl stack (Interpret e p, fw)" using fw_reachable_inv [OF assms(1,2)] .
  have s: "timer_event_step pl (Interpret e p) fw = Some (pc', fw')" using assms(3) by (simp add: main_step_def)
  then have "fw' = fw\<lparr>fw_machine := fw_machine fw'\<rparr>"
    by (auto simp: timer_event_step_def bind_some_iff split: option.splits)
  then show ?thesis
    using interpret_inv [OF assms(1) inv] s by (auto simp: invocation_writes_def)
qed

theorem timer_program_is_contained_witness:
  "\<exists>st e p fw pc' fw'. fw_run sample_platform (main_steps 8) st = Some (Interpret e p, fw)
     \<and> main_step sample_platform (sconst 0) (Interpret e p, fw) = Some (pc', fw')
     \<and> fw' = fw\<lparr>fw_machine := fw_machine fw'\<rparr>"
proof -
  obtain st fw pc where r: "fw_run sample_platform (main_steps 8) st = Some (pc, fw)"
    "fw_reachable sample_platform (pc, fw)" "on_the_way sample_platform 77 (pc, fw)" "steps_to_go pc = 0"
    using served_state [of 8] by auto
  then obtain e p where pc: "pc = Interpret e p" by (cases pc) (auto simp: on_the_way_def)
  obtain pc' fw' where s: "main_step sample_platform (sconst 0) (Interpret e p, fw) = Some (pc', fw')"
    using main_inv [OF sample_platform_ok fw_reachable_inv [OF sample_platform_ok r(2)], of "sconst 0"] pc by auto
  then show ?thesis
    using timer_program_is_contained [OF sample_platform_ok r(2) [unfolded pc] s] r(1) pc by blast
qed

text \<open>C8: A due timer is served: from the top of the main loop, with a committed program, no load
  operation or reset pending, and an armed timer whose deadline no further reading of the clock is
  before, the program is being interpreted for the event with the scheduled cookie after exactly eight
  steps of the main loop, whatever packets other than Load, Start and Reset arrive in between.\<close>

theorem due_timer_is_served:
  assumes "platform_ok pl stack" and "fw_reachable pl (Top, fw)"
    and "\<not> fw_reset_pending fw" and "ld_pending (fw_loader fw) = None" and "has_program (ld_state (fw_loader fw))"
    and "alarm_of (fw_timer fw) = Armed d cookie" and "\<forall>t\<in>sset (mc_clock (fw_machine fw)). d \<le> t"
    and "list_all quiet_action acts" and "length (filter is_main acts) = 8"
  shows "\<exists>e fw'. fw_run pl acts (Top, fw) = Some (Interpret e (so_execute (pl_sonde pl) (timer_call pl fw')), fw')
    \<and> te_cookie e = cookie"
proof -
  have "on_the_way pl cookie (Top, fw)"
    using assms(3-7) by (auto simp: on_the_way_def due_alarm_def)
  from on_the_way_run [OF assms(1) fw_reachable_inv [OF assms(1,2)] this assms(8)] assms(9)
  obtain pc' fw' where r: "fw_run pl acts (Top, fw) = Some (pc', fw')" "on_the_way pl cookie (pc', fw')"
    "steps_to_go pc' = 0" by auto
  then show ?thesis by (cases pc') (auto simp: on_the_way_def)
qed

theorem due_timer_is_served_witness:
  "\<exists>fw e fw' p. fw_reachable sample_platform (Top, fw)
     \<and> fw_run sample_platform (main_steps 8) (Top, fw) = Some (Interpret e p, fw') \<and> te_cookie e = 77"
proof -
  obtain fw where fw: "fw_reachable sample_platform (Top, fw)" "\<not> fw_reset_pending fw"
    "ld_pending (fw_loader fw) = None" "ld_state (fw_loader fw) = Running sample_crc"
    "alarm_of (fw_timer fw) = Armed 0 77" "mc_clock (fw_machine fw) = sconst 0"
    using armed_state by blast
  have "has_program (ld_state (fw_loader fw))" "\<forall>t\<in>sset (mc_clock (fw_machine fw)). 0 \<le> t"
    using fw(4) by simp_all
  from due_timer_is_served [OF sample_platform_ok fw(1-3) this(1) fw(5) this(2) main_steps_simps] fw(1)
  show ?thesis by blast
qed

text \<open>C35: A reset starts over with the same flash: when the main loop comes to its top with a reset
  pending, the next step restarts the firmware. Afterwards the timer is disarmed, with nothing armed
  or ready, the map backing store is zero, no load operation is pending, and the flash and with it
  the committed image are as before.\<close>

theorem reset_starts_over:
  assumes "platform_ok pl stack" and "fw_reachable pl (Top, fw)" and "fw_reset_pending fw"
  shows "\<exists>fw'. main_step pl star2 (Top, fw) = Some (Top, fw') \<and> \<not> fw_reset_pending fw' \<and> \<not> fw_active fw'
    \<and> alarm_of (fw_timer fw') = Disarmed
    \<and> backing_of (pl_backing pl) (mc_ram (fw_machine fw')) = replicate BPF_MAX_MAP_BYTES 0
    \<and> ps_status_queue (fw_protocol fw') = status_queue_ready
    \<and> \<not> is_running (ld_state (fw_loader fw'))
    \<and> pl_mapped pl (fw_flash fw') = pl_mapped pl (fw_flash fw)"
proof -
  have "length (mc_ram (fw_machine fw)) = RAM_BYTES"
    using fw_reachable_inv [OF assms(1,2)] by (simp add: fw_inv_def fw_wf_def)
  from startup_inv [OF assms(1) this, of "mc_clock (fw_machine fw)" "fw_flash fw"]
  obtain fw' where s: "startup pl (mc_ram (fw_machine fw)) (mc_clock (fw_machine fw)) (fw_flash fw) = Some (Top, fw')"
    and f: "fw_inv pl stack (Top, fw')" "\<not> fw_reset_pending fw'" "fw_timer fw' = timer_state_new"
      "pl_mapped pl (fw_flash fw') = pl_mapped pl (fw_flash fw)"
      "backing_of (pl_backing pl) (mc_ram (fw_machine fw')) = replicate BPF_MAX_MAP_BYTES 0"
    by blast
  have nr: "\<not> is_running (ld_state (fw_loader fw'))" "ps_status_queue (fw_protocol fw') = status_queue_ready"
    using s startup_loader [OF assms(1), of "mc_ram (fw_machine fw)"] by auto
  have "alarm_of (fw_timer fw') = Disarmed" unfolding f(3) by (simp add: alarm_of_def timer_state_new_def)
  then show ?thesis using s f nr assms(3) by (simp add: main_step_def fw_inv_def)
qed

theorem reset_starts_over_witness:
  "\<exists>fw fw'. fw_reachable sample_platform (Top, fw) \<and> alarm_of (fw_timer fw) = Armed 0 77
     \<and> main_step sample_platform (sconst 0) (Top, fw) = Some (Top, fw') \<and> alarm_of (fw_timer fw') = Disarmed"
proof -
  obtain fw where fw: "fw_reachable sample_platform (Top, fw)" "alarm_of (fw_timer fw) = Armed 0 77"
    using armed_state by blast
  let ?r = "bare_request CMD_RESET 2"
  have p: "parse_packet (encode_request ?r) False = Some (Some ?r)"
    by (rule parse_packet_single [OF bare_request_wf(1)])
  have "resets ?r" by (simp add: resets_def bare_request_wf)
  from packet_reset [OF p this, of sample_platform fw]
  have "fw_step sample_platform (Packet (encode_request ?r) False) (Top, fw) = Some (Top, fw\<lparr>fw_reset_pending := True\<rparr>)"
    by (simp add: fw_step_def)
  then have "fw_reachable sample_platform (Top, fw\<lparr>fw_reset_pending := True\<rparr>)"
    using fw_reachable.action [OF fw(1)] by blast
  moreover from reset_starts_over [OF sample_platform_ok this, of "sconst 0"]
  obtain fw' where "main_step sample_platform (sconst 0) (Top, fw\<lparr>fw_reset_pending := True\<rparr>) = Some (Top, fw')"
    "alarm_of (fw_timer fw') = Disarmed" by auto
  ultimately show ?thesis using fw(2)
    by (intro exI [of _ "fw\<lparr>fw_reset_pending := True\<rparr>"] exI [of _ fw']) simp
qed

end
