(* ===== verification/Device_Refinement.thy ===== *)
theory Device_Refinement
  imports Device Firmware_Properties
begin

text \<open>
  The firmware as a whole implements the device of \<open>Device\<close>: packets are exchanges of the device,
  and every step of the main loop is an internal step of it: queued work that is done or fails, a
  timer event that begins, runs the program and ends, a restart, or nothing that the host could see.
  Flash failures, timer programs and the times at which things happen are choices of the device.
\<close>

section \<open>Internal steps\<close>

fun job_step :: "session \<Rightarrow> job \<Rightarrow> session" where
  "job_step s (Install b m c) = Transfer b m c []"
| "job_step (Transfer b m c received) (Append chunk) = Transfer b m c (received @ chunk)"
| "job_step (Transfer b m c received) Complete =
     (if crc32_iso_hdlc received \<noteq> c then Rejected STATUS_BAD_CRC
      else if image_maps received b m = None then Rejected STATUS_BAD_STATE
      else Programmed b m c received)"
| "job_step s _ = s"

definition map_sizes :: "u16 \<Rightarrow> u8 \<Rightarrow> bytes \<Rightarrow> nat list" where
  "map_sizes b m img = map (\<lambda>l. unat (ml_len l)) (the (image_maps img b m))"

fun shaped :: "session \<Rightarrow> bytes list \<Rightarrow> bool" where
  "shaped (Programmed b m c img) maps \<longleftrightarrow> map length maps = map_sizes b m img"
| "shaped _ maps \<longleftrightarrow> maps = []"

definition all_zero :: "bytes list \<Rightarrow> bool" where
  "all_zero maps \<longleftrightarrow> list_all (list_all ((=) 0)) maps"

text \<open>A device that has just been powered on or reset.\<close>

definition powered_on :: "device \<Rightarrow> bool" where
  "powered_on d \<longleftrightarrow> dv_message d = [0x72, 0x65, 0x61, 0x64, 0x79] \<and> \<not> dv_started d \<and> dv_job d = None
     \<and> (programmed (dv_session d) \<or> dv_session d \<in> {Idle, Rejected STATUS_FLASH_ERROR})
     \<and> shaped (dv_session d) (dv_maps d) \<and> all_zero (dv_maps d) \<and> \<not> dv_executing d \<and> \<not> dv_reset d"

text \<open>What a reset can find: a program stays what it was, and a transfer leaves none.\<close>

fun survives :: "session \<Rightarrow> session \<Rightarrow> bool" where
  "survives (Programmed b m c img) s \<longleftrightarrow> programmed s \<longrightarrow> s = Programmed b m c img"
| "survives (Transfer b m c received) s \<longleftrightarrow> \<not> programmed s"
| "survives _ s \<longleftrightarrow> True"

inductive dev_internal :: "device \<Rightarrow> device \<Rightarrow> bool" where
  nothing: "dev_internal d d"
| work_done: "dv_job d = Some job \<Longrightarrow> shaped (job_step (dv_session d) job) maps
    \<Longrightarrow> dev_internal d (d\<lparr>dv_session := job_step (dv_session d) job, dv_job := None, dv_maps := maps\<rparr>)"
| work_failed: "dv_job d = Some job \<Longrightarrow> status = STATUS_FLASH_ERROR \<or> status = STATUS_BAD_STATE \<and> job = Complete
    \<Longrightarrow> dev_internal d (d\<lparr>dv_session := Rejected status, dv_job := None, dv_maps := []\<rparr>)"
| event_begins: "\<not> dv_executing d \<Longrightarrow> dev_internal d (d\<lparr>dv_executing := True\<rparr>)"
| event_runs: "dv_executing d \<Longrightarrow> programmed (dv_session d) \<Longrightarrow> map length maps = map length (dv_maps d)
    \<Longrightarrow> dev_internal d (d\<lparr>dv_maps := maps\<rparr>)"
| event_ends: "dv_executing d \<Longrightarrow> dev_internal d (d\<lparr>dv_executing := False\<rparr>)"
| restart: "dv_reset d \<Longrightarrow> \<not> dv_executing d \<Longrightarrow> powered_on d' \<Longrightarrow> survives (dv_session d) (dv_session d')
    \<Longrightarrow> dev_internal d d'"

section \<open>Exchanges\<close>

text \<open>A packet of the master, and the frames queued for it in return.\<close>

definition answer_of :: "request \<Rightarrow> answer \<Rightarrow> bytes" where
  "answer_of r ans = reply_frame (fst ans) (req_sequence r) (fst (snd ans))"

inductive dev_exchange :: "device \<Rightarrow> bytes \<Rightarrow> bool \<Rightarrow> bytes list \<Rightarrow> device \<Rightarrow> bool" where
  noise: "parse_packet p t = Some None \<Longrightarrow> dev_exchange d p t [[]] d"
| reset: "parse_packet p t = Some (Some r) \<Longrightarrow> resets r \<Longrightarrow> dev_exchange d p t [] (d\<lparr>dv_reset := True\<rparr>)"
| busy: "parse_packet p t = Some (Some r) \<Longrightarrow> dv_executing d \<Longrightarrow> req_command r \<noteq> CMD_RESET
    \<Longrightarrow> dev_exchange d p t [reply_frame STATUS_BUSY (req_sequence r) []] d"
| answer: "parse_packet p t = Some (Some r) \<Longrightarrow> \<not> (dv_executing d \<and> req_command r \<noteq> CMD_RESET)
    \<Longrightarrow> \<not> resets r \<Longrightarrow> \<not> (starts r \<and> runnable d)
    \<Longrightarrow> dev_exchange d p t [answer_of r (device_answer d r)] (snd (snd (device_answer d r)))"
| start: "parse_packet p t = Some (Some r) \<Longrightarrow> \<not> dv_executing d \<Longrightarrow> starts r \<Longrightarrow> runnable d
    \<Longrightarrow> map length maps = map length (dv_maps d)
    \<Longrightarrow> dev_exchange d p t [reply_frame (if ok then STATUS_OK else STATUS_BAD_COMMAND) (req_sequence r) []]
          (d\<lparr>dv_maps := maps, dv_started := ok\<rparr>)"

type_synonym exchange = "bytes \<times> bool \<times> bytes list"

inductive dev_trace :: "device \<Rightarrow> exchange list \<Rightarrow> device \<Rightarrow> bool" where
  stop: "dev_trace d [] d"
| internal: "dev_internal d d1 \<Longrightarrow> dev_trace d1 xs d2 \<Longrightarrow> dev_trace d xs d2"
| exchanged: "dev_exchange d p t frames d1 \<Longrightarrow> dev_trace d1 xs d2 \<Longrightarrow> dev_trace d ((p, t, frames) # xs) d2"

text \<open>The exchanges of a run of the firmware: each packet with the frames its handler queued.\<close>

fun fw_exchanges ::
    "('i::linorder, 'e, 'f) platform \<Rightarrow> fw_action list \<Rightarrow> main_pc \<times> ('i, 'f) firmware \<Rightarrow> exchange list" where
  "fw_exchanges pl [] st = []"
| "fw_exchanges pl (a # as) st =
     (case fw_step pl a st of
        None \<Rightarrow> []
      | Some st' \<Rightarrow>
          (case a of
             Packet p t \<Rightarrow> [(p, t, drop (length (fw_tx (snd st))) (fw_tx (snd st')))]
           | Main_Step star2 \<Rightarrow> []) @ fw_exchanges pl as st')"

section \<open>The device of a firmware state\<close>

definition fw_reflects :: "('i, 'e, 'f) platform \<Rightarrow> device \<Rightarrow> ('i, 'f) firmware \<Rightarrow> bool" where
  "fw_reflects pl d fw \<longleftrightarrow> reflects d (pl_mapped pl (fw_flash fw)) (request_state pl fw)
     \<and> dv_executing d = fw_active fw \<and> dv_reset d = fw_reset_pending fw"

lemma session_rel_update:
  assumes "ld_state ld' = ld_state ld" "ld_bytecode_len ld' = ld_bytecode_len ld" "ld_map_count ld' = ld_map_count ld"
    and "ld_expected_crc ld' = ld_expected_crc ld" "ld_next_offset ld' = ld_next_offset ld"
    and "ld_image_len ld' = ld_image_len ld" "ld_crc ld' = ld_crc ld" "ld_map_layouts ld' = ld_map_layouts ld"
    and "ld_committed_map_count ld' = ld_committed_map_count ld"
  shows "session_rel ld' flash s = session_rel ld flash s"
  using assms by (cases s) (simp_all add: receiving_def on_device_def)

lemma committed_image_maps:
  assumes "committed_image flash b m c img"
  shows "placement flash b m = map_option (\<lambda>ls. (stored_layouts m ls, m)) (image_maps img b m)"
    and "image_maps img b m \<noteq> None"
proof -
  from assms have sl: "slice flash 0x6010 (0x6010 + length img) = Some img"
    and len: "length img = unat b + 16 * unat m" and pl: "placement flash b m \<noteq> None"
    unfolding committed_image_def by blast+
  show "placement flash b m = map_option (\<lambda>ls. (stored_layouts m ls, m)) (image_maps img b m)"
    by (rule placement_image [OF sl len])
  with pl show "image_maps img b m \<noteq> None" by auto
qed

text \<open>The maps of a committed program have the sizes its image declares.\<close>

lemma program_maps:
  assumes "loader_inv ld" and "session_rel ld flash (Programmed b m c img)" and "length backing = 1024"
  shows "map length (host_view ld backing) = map_sizes b m img"
proof -
  have prog: "has_program (ld_state ld)" and od: "on_device ld flash c img"
    and bm: "ld_bytecode_len ld = b" "ld_map_count ld = m" using assms(2) by auto
  have ci: "committed_image flash b m c img" and pl: "placement flash b m = Some (ld_map_layouts ld, ld_committed_map_count ld)"
    using od bm by (simp_all add: on_device_def)
  have "map_option (\<lambda>ls. (stored_layouts m ls, m)) (image_maps img b m)
      = Some (ld_map_layouts ld, ld_committed_map_count ld)" using committed_image_maps(1) [OF ci] pl by simp
  then obtain ls where ls: "image_maps img b m = Some ls"
    and lay: "ld_map_layouts ld = stored_layouts m ls" "ld_committed_map_count ld = m" by auto
  have n: "length ls = unat m" using layouts_spec_placed ls by (fastforce simp: image_maps_def)
  have ok: "layouts_ok (ld_map_layouts ld) (unat m)"
    using has_program_layouts(1) [OF assms(1) prog] lay(2) by simp
  show ?thesis
  proof (rule nth_equalityI)
    show "length (map length (host_view ld backing)) = length (map_sizes b m img)"
      by (simp add: host_view_def map_sizes_def ls n lay(2))
    fix i assume "i < length (map length (host_view ld backing))"
    then have i: "i < unat m" by (simp add: host_view_def lay(2))
    then show "map length (host_view ld backing) ! i = map_sizes b m img ! i"
      using length_map_bytes [OF ok i assms(3)] n
      by (simp add: host_view_def map_sizes_def ls lay maps_view_nth stored_layouts_def nth_append)
  qed
qed

lemma reflects_shaped:
  assumes "reflects d flash s" and "dispatch_wf s"
  shows "shaped (dv_session d) (dv_maps d)"
proof (cases "dv_session d")
  case (Programmed b m c img)
  then have "session_rel (ds_loader s) flash (Programmed b m c img)" "has_program (ld_state (ds_loader s))"
    using assms(1) reflects_maps(1) [OF assms(1)] by (auto simp: reflects_def)
  then show ?thesis
    using program_maps [of "ds_loader s" flash b m c img "ds_backing s"] assms reflects_maps(2) [OF assms(1)] Programmed
    by (simp add: dispatch_wf_def)
qed (use assms(1) reflects_maps(1) [OF assms(1)] in \<open>auto simp: reflects_def\<close>)

section \<open>Deferred work\<close>

lemma loader_begin_fields:
  assumes "image_bounds b m" and "loader_begin api ld f b m c = (ld', f')" and "ld_state ld' = Receiving"
  shows "ld_bytecode_len ld' = b" "ld_map_count ld' = m" "ld_expected_crc ld' = c"
  using assms by (auto simp: loader_begin_def image_len_eq Let_def split: prod.splits bool.splits)

lemma finalize_cases:
  assumes "loader_finalize api ld f = Some (ld', f')"
  shows "ld_bytecode_len ld' = ld_bytecode_len ld \<and> ld_map_count ld' = ld_map_count ld
    \<and> (ld_state ld' = Failed STATUS_BAD_CRC \<and> crc32_finish (ld_crc ld) \<noteq> ld_expected_crc ld
      \<or> ld_state ld' = Failed STATUS_BAD_STATE \<or> ld_state ld' = Failed STATUS_FLASH_ERROR
      \<or> ld_state ld' = Committed (ld_expected_crc ld))"
proof (cases "crc32_finish (ld_crc ld) = ld_expected_crc ld")
  case False
  then show ?thesis using assms by (auto simp: loader_finalize_def)
next
  case True
  then obtain layouts g where ml: "map_layouts api f (ld_bytecode_len ld) (ld_map_count ld) = Some (layouts, g)"
    using assms by (auto simp: loader_finalize_def bind_some_iff)
  obtain ok g' where wr: "fl_write api g (BPF_FLASH_OFFSET + 12) [0, 0] = (ok, g')" by (metis surj_pair)
  show ?thesis using assms True ml wr by (cases layouts; cases ok) (auto simp: loader_finalize_def)
qed

definition work_result :: "session \<Rightarrow> job \<Rightarrow> session \<Rightarrow> bool" where
  "work_result s job s' \<longleftrightarrow> s' = job_step s job \<or> s' = Rejected STATUS_FLASH_ERROR
     \<or> s' = Rejected STATUS_BAD_STATE \<and> job = Complete"

context nor_flash
begin

lemma begin_work:
  assumes "image_bounds b m" and "ld_pending ld = None" and "loader_begin api ld f b m c = (ld', f')"
  shows "\<exists>s'. session_rel ld' (contents f') s' \<and> work_result s (Install b m c) s'"
proof -
  have "ld_state ld' = Receiving \<or> ld_state ld' = Failed STATUS_FLASH_ERROR"
    using loader_begin_inv [OF assms(1,2), of api f c] assms(3) by auto
  then show ?thesis
  proof
    assume r: "ld_state ld' = Receiving"
    then have "session_rel ld' (contents f') (Transfer b m c [])"
      using begin_device [OF assms(1,3) r] loader_begin_fields [OF assms(1,3) r] by simp
    then show ?thesis unfolding work_result_def by (intro exI [of _ "Transfer b m c []"]) simp
  next
    assume "ld_state ld' = Failed STATUS_FLASH_ERROR"
    then show ?thesis by (intro exI [of _ "Rejected STATUS_FLASH_ERROR"]) (simp add: work_result_def)
  qed
qed

lemma finalize_work:
  assumes "loader_inv ld" and "session_rel ld (contents f) s" and "ld_state ld = Receiving"
    and "ld_next_offset ld = ld_image_len ld" and "loader_finalize api ld f = Some (ld', f')"
  shows "\<exists>s'. session_rel ld' (contents f') s' \<and> work_result s Complete s'"
proof -
  from assms(2,3) obtain received where s: "s = Transfer (ld_bytecode_len ld) (ld_map_count ld) (ld_expected_crc ld) received"
    and rec: "receiving ld (contents f) received" by (cases s) auto
  let ?b = "ld_bytecode_len ld" let ?m = "ld_map_count ld" let ?c = "ld_expected_crc ld"
  have tr: "transfer_ok ld" using assms(1,3) by (simp add: loader_inv_def)
  have crc: "crc32_finish (ld_crc ld) = crc32_iso_hdlc received"
    using rec by (simp add: receiving_def crc32_iso_hdlc_def)
  show ?thesis
  proof (cases "ld_state ld' = Committed ?c")
    case True
    have od: "on_device ld' (contents f') ?c received" by (rule finalize_device [OF rec tr assms(4,5) True])
    have f: "ld_bytecode_len ld' = ?b" "ld_map_count ld' = ?m"
      using finalize_cases [OF assms(5)] by simp_all
    then have ci: "committed_image (contents f') ?b ?m ?c received" using od by (simp add: on_device_def)
    then have "crc32_iso_hdlc received = ?c" "image_maps received ?b ?m \<noteq> None"
      using committed_image_maps(2) by (simp add: committed_image_def, blast)
    then have "job_step s Complete = Programmed ?b ?m ?c received" by (simp add: s)
    moreover have "session_rel ld' (contents f') (Programmed ?b ?m ?c received)" using True od f by simp
    ultimately show ?thesis unfolding work_result_def by metis
  next
    case False
    then consider "ld_state ld' = Failed STATUS_BAD_CRC" "crc32_iso_hdlc received \<noteq> ?c"
      | "ld_state ld' = Failed STATUS_BAD_STATE" | "ld_state ld' = Failed STATUS_FLASH_ERROR"
      using finalize_cases [OF assms(5)] crc by auto
    then show ?thesis
    proof cases
      case 1
      then have "session_rel ld' (contents f') (job_step s Complete)" by (simp add: s)
      then show ?thesis unfolding work_result_def by blast
    next
      case 2
      then have "session_rel ld' (contents f') (Rejected STATUS_BAD_STATE)" by simp
      then show ?thesis unfolding work_result_def by blast
    next
      case 3
      then have "session_rel ld' (contents f') (Rejected STATUS_FLASH_ERROR)" by simp
      then show ?thesis unfolding work_result_def by blast
    qed
  qed
qed

lemma data_work:
  assumes "loader_inv ld" and "session_rel ld (contents f) s" and "ld_pending ld = Some (Data off bs len)"
    and "execute_pending api ld f = Some (ld', f')"
  shows "\<exists>s'. session_rel ld' (contents f') s' \<and> work_result s (Append (take (unat len) bs)) s'"
proof -
  have d: "length bs = 12" "unat len \<le> 12" and st: "ld_state ld = Receiving"
    and off: "off = ld_next_offset ld" "unat off + unat len \<le> unat (ld_image_len ld)" and tr: "transfer_ok ld"
    using assms(1,3) by (auto simp: loader_inv_def)
  from assms(2) st obtain received where s: "s = Transfer (ld_bytecode_len ld) (ld_map_count ld) (ld_expected_crc ld) received"
    and rec: "receiving ld (contents f) received" by (cases s) auto
  have sl: "slice bs 0 (unat len) = Some (take (unat len) bs)" using d by (simp add: slice_def)
  obtain ok g where wr: "fl_write api f (image_address (unat off)) (take (unat len) bs) = (ok, g)"
    by (cases "fl_write api f (image_address (unat off)) (take (unat len) bs)")
  show ?thesis
  proof (cases ok)
    case False
    then have "session_rel ld' (contents f') (Rejected STATUS_FLASH_ERROR)"
      using assms(3,4) sl wr by (auto simp: execute_pending_def)
    then show ?thesis unfolding work_result_def by blast
  next
    case True
    then have ld': "ld' = ld\<lparr>ld_pending := None, ld_crc := crc32_update (ld_crc ld) (take (unat len) bs),
        ld_next_offset := ld_next_offset ld + ucast len\<rparr>" and g: "g = f'"
      using assms(3,4) sl wr by (auto simp: execute_pending_def)
    have "unat (ld_next_offset ld + ucast len) = unat (ld_next_offset ld) + unat len"
      using data_step_inv [OF assms(1,3)] by blast
    then have "receiving ld' (contents f') (received @ take (unat len) bs)"
      using wr True off d unfolding g by (intro data_device [OF rec tr]) (simp_all add: ld')
    then have "session_rel ld' (contents f') (job_step s (Append (take (unat len) bs)))"
      using st by (simp add: s ld')
    then show ?thesis unfolding work_result_def by blast
  qed
qed

lemma pending_work:
  assumes "loader_inv ld" and "session_rel ld (contents f) s" and "ld_pending ld = Some op"
    and "execute_pending api ld f = Some (ld', f')"
  shows "\<exists>s'. session_rel ld' (contents f') s' \<and> work_result s (job_of op) s'"
proof (cases op)
  case (Begin b m c)
  then have "image_bounds b m" "loader_begin api (ld\<lparr>ld_pending := None\<rparr>) f b m c = (ld', f')"
    using assms by (simp_all add: loader_inv_def execute_pending_def)
  then show ?thesis using begin_work [of b m "ld\<lparr>ld_pending := None\<rparr>" f c ld' f' s] Begin by simp
next
  case (Data off bs len)
  then show ?thesis using data_work [OF assms(1,2) _ assms(4)] assms(3) by simp
next
  case Finalize
  let ?ld = "ld\<lparr>ld_pending := None\<rparr>"
  have st: "ld_state ld = Receiving" "ld_next_offset ld = ld_image_len ld"
    using assms(1,3) Finalize by (simp_all add: loader_inv_def)
  then have "loader_inv ?ld" using assms(1) by (auto simp: loader_inv_def transfer_ok_def)
  moreover have "session_rel ?ld (contents f) s" using assms(2) by (subst session_rel_update [of _ ld]) simp_all
  moreover have "loader_finalize api ?ld f = Some (ld', f')" using assms(3,4) Finalize by (simp add: execute_pending_def)
  ultimately show ?thesis using finalize_work [of ?ld f s ld' f'] st Finalize by simp
qed

end

section \<open>The main loop\<close>

lemma fw_reflects_same:
  assumes "fw_reflects pl d fw" and "fw_loader fw' = fw_loader fw"
    and "ps_status_queue (fw_protocol fw') = ps_status_queue (fw_protocol fw)" and "fw_flash fw' = fw_flash fw"
    and "backing_of (pl_backing pl) (mc_ram (fw_machine fw')) = backing_of (pl_backing pl) (mc_ram (fw_machine fw))"
    and "fw_active fw' = fw_active fw" and "fw_reset_pending fw' = fw_reset_pending fw"
  shows "fw_reflects pl d fw'"
  using assms by (simp add: fw_reflects_def reflects_def request_state_def)

lemma fw_work:
  assumes "platform_ok pl stack" and "fw_wf pl fw" and "fw_reflects pl d fw"
    and "execute_pending (pl_storage pl) (fw_loader fw) (fw_flash fw) = Some (ld, f)"
    and "fw' = fw\<lparr>fw_protocol := (fw_protocol fw)\<lparr>ps_loader := ld\<rparr>, fw_flash := f\<rparr>"
  shows "\<exists>d'. dev_internal d d' \<and> fw_reflects pl d' fw'"
proof (cases "ld_pending (fw_loader fw)")
  case None
  then have "ld = fw_loader fw" "f = fw_flash fw" using assms(4) by (simp_all add: execute_pending_def)
  then have "fw_reflects pl d fw'" using assms(3,5) by (intro fw_reflects_same [OF assms(3)]) simp_all
  then show ?thesis using dev_internal.nothing by blast
next
  case (Some op)
  have nor: "nor_flash (pl_storage pl) (pl_mapped pl)" using assms(1) by (simp add: platform_ok_def)
  note inv = fw_loader_inv(1) [OF assms(1,2)]
  have r: "reflects d (pl_mapped pl (fw_flash fw)) (request_state pl fw)" using assms(3) by (simp add: fw_reflects_def)
  then have rel: "session_rel (fw_loader fw) (pl_mapped pl (fw_flash fw)) (dv_session d)"
    "dv_job d = Some (job_of op)" "dv_started d = is_running (ld_state (fw_loader fw))"
    using Some by (simp_all add: reflects_def request_state_def)
  from nor_flash.pending_work [OF nor inv rel(1) Some assms(4)] obtain s'
    where s': "session_rel ld (pl_mapped pl f) s'" "work_result (dv_session d) (job_of op) s'" by blast
  have nr: "\<not> is_running (ld_state (fw_loader fw))" using inv Some by (cases "ld_state (fw_loader fw)") (auto simp: loader_inv_def)
  have ld: "ld_pending ld = None" "\<not> is_running (ld_state ld)"
    using nor_flash.execute_pending_inv [OF nor inv, of "fw_flash fw"] assms(4) execute_pending_not_running [OF assms(4) nr]
    by auto
  define maps where "maps = (if has_program (ld_state ld) then host_view ld (backing_of (pl_backing pl) (mc_ram (fw_machine fw))) else [])"
  let ?d = "d\<lparr>dv_session := s', dv_job := None, dv_maps := maps\<rparr>"
  have ref: "reflects ?d (pl_mapped pl (fw_flash fw')) (request_state pl fw')"
    using r s'(1) ld rel(3) nr by (simp add: reflects_def request_state_def assms(5) maps_def)
  have "loader_run (pl_storage pl) ld f" using loader_run.work [OF _ assms(4)] assms(2) by (simp add: fw_wf_def)
  then have "fw_wf pl fw'" using assms(2) by (simp add: fw_wf_def assms(5))
  from reflects_shaped [OF ref request_state_wf [OF assms(1) this]] have sh: "shaped s' maps" by simp
  have "dev_internal d ?d"
  proof (cases "s' = job_step (dv_session d) (job_of op)")
    case True
    then show ?thesis using dev_internal.work_done [OF rel(2)] sh by simp
  next
    case False
    then obtain status where st: "s' = Rejected status"
      "status = STATUS_FLASH_ERROR \<or> status = STATUS_BAD_STATE \<and> job_of op = Complete"
      using s'(2) by (auto simp: work_result_def)
    then show ?thesis using dev_internal.work_failed [OF rel(2) st(2)] sh by simp
  qed
  moreover have "fw_reflects pl ?d fw'" using ref assms(3) by (simp add: fw_reflects_def assms(5))
  ultimately show ?thesis by blast
qed

lemma zero_maps: "all_zero (maps_view ls n (replicate k 0))"
  by (simp add: all_zero_def maps_view_def map_bytes_def list_all_iff)

lemma startup_device:
  assumes "platform_ok pl stack" and "length ram = RAM_BYTES" and "startup pl ram clock flash = Some (pc, fw)"
  shows "\<exists>d. powered_on d \<and> fw_reflects pl d fw \<and> (\<forall>ld s. session_rel ld (pl_mapped pl flash) s \<longrightarrow> survives s (dv_session d))"
proof -
  have nor: "nor_flash (pl_storage pl) (pl_mapped pl)" using assms(1) by (simp add: platform_ok_def)
  obtain fw0 where "startup pl ram clock flash = Some (Top, fw0)" "fw_inv pl stack (Top, fw0)" "\<not> fw_reset_pending fw0"
    "pl_mapped pl (fw_flash fw0) = pl_mapped pl flash"
    "backing_of (pl_backing pl) (mc_ram (fw_machine fw0)) = replicate BPF_MAX_MAP_BYTES 0"
    using startup_inv [OF assms(1,2), of clock flash] by (elim exE conjE) (rule that)
  then have fw: "fw_wf pl fw" "\<not> fw_active fw" "\<not> fw_reset_pending fw" "pl_mapped pl (fw_flash fw) = pl_mapped pl flash"
    "backing_of (pl_backing pl) (mc_ram (fw_machine fw)) = replicate BPF_MAX_MAP_BYTES 0"
    using assms(3) by (simp_all add: fw_inv_def)
  note q = startup_loader [OF assms(1,3)]
  let ?cs = "pl_mapped pl flash" let ?ld = "fw_loader fw"
  from nor_flash.validate_committed_sound [OF nor, of loader_new flash] obtain ld f where
    v: "validate_committed (pl_storage pl) loader_new flash = Some (ld, f)"
    and ld: "ld = no_program loader_new Empty \<or> ld = no_program loader_new (Failed STATUS_FLASH_ERROR)
       \<or> (\<exists>b m c img. committed_image ?cs b m c img \<and> boots_to loader_new ?cs b m c ld)"
    by (elim exE conjE) (rule that)
  have eq: "?ld = ld" using assms(3) v by (auto simp: startup_def protocol_state_new_def bind_some_iff)
  have pend: "ld_pending ld = None" using ld by (auto simp: no_program_def boots_to_def clear_map_layouts_def loader_new_def)
  obtain s where s: "session_rel ld ?cs s" "programmed s \<or> s \<in> {Idle, Rejected STATUS_FLASH_ERROR}"
    "\<And>b m c img. s = Programmed b m c img \<Longrightarrow> committed_image ?cs b m c img"
  proof -
    from ld consider "ld_state ld = Empty" | "ld_state ld = Failed STATUS_FLASH_ERROR"
      | b m c img where "committed_image ?cs b m c img" "boots_to loader_new ?cs b m c ld"
      by (auto simp: no_program_def)
    then show ?thesis
    proof cases
      case 1
      then show ?thesis using that [of Idle] by simp
    next
      case 2
      then show ?thesis using that [of "Rejected STATUS_FLASH_ERROR"] by simp
    next
      case (3 b m c img)
      then have "session_rel ld ?cs (Programmed b m c img)" by (auto simp: boots_to_def on_device_def)
      then show ?thesis using that [of "Programmed b m c img"] 3(1) by simp
    qed
  qed
  define maps where "maps = (if has_program (ld_state ld) then host_view ld (replicate BPF_MAX_MAP_BYTES 0) else [])"
  let ?d = "\<lparr>dv_message = [0x72, 0x65, 0x61, 0x64, 0x79], dv_session = s, dv_started = False, dv_job = None,
    dv_maps = maps, dv_executing = False, dv_reset = False\<rparr>"
  have ref: "reflects ?d (pl_mapped pl (fw_flash fw)) (request_state pl fw)"
    using s(1) pend q fw(4,5)
    by (simp add: reflects_def request_state_def eq maps_def message_of_def status_queue_ready_def)
  then have "fw_reflects pl ?d fw" using fw(2,3) by (simp add: fw_reflects_def)
  moreover have "powered_on ?d"
    using reflects_shaped [OF ref request_state_wf [OF assms(1) fw(1)]] s(2) zero_maps
    by (simp add: powered_on_def maps_def host_view_def) (simp add: all_zero_def)
  moreover have "survives s0 s" if "session_rel ld0 ?cs s0" for ld0 s0
  proof (cases s0)
    case (Programmed b m c img)
    then have "committed_image ?cs b m c img" using that by (auto simp: on_device_def)
    then show ?thesis using s(3) committed_image_unique Programmed by (cases s) auto
  next
    case (Transfer b m c received)
    then show ?thesis using that s(3) receiving_not_committed by (cases s) auto
  qed simp_all
  ultimately show ?thesis by (intro exI [of _ ?d]) simp
qed

text \<open>A program changes the contents of the maps, not their sizes.\<close>

lemma program_internal:
  assumes "platform_ok pl stack" and "fw_wf pl fw" and "fw_reflects pl d fw" and "has_program (ld_state (fw_loader fw))"
    and "fw_active fw" and "fw' = fw\<lparr>fw_machine := m\<rparr>" and "length (mc_ram m) = RAM_BYTES"
  shows "\<exists>d'. dev_internal d d' \<and> fw_reflects pl d' fw'"
proof -
  have base: "base_ok (pl_backing pl)" using assms(1) by (simp add: platform_ok_def)
  have r: "reflects d (pl_mapped pl (fw_flash fw)) (request_state pl fw)" "dv_executing d"
    using assms(3,5) by (simp_all add: fw_reflects_def)
  then have prog: "programmed (dv_session d)"
    using reflects_maps(1) [OF r(1)] assms(4) by (simp add: request_state_def)
  let ?maps = "host_view (fw_loader fw) (backing_of (pl_backing pl) (mc_ram m))"
  let ?d = "d\<lparr>dv_maps := ?maps\<rparr>"
  have ref: "fw_reflects pl ?d fw'"
    using assms(3,4) by (simp add: fw_reflects_def reflects_def request_state_def assms(6))
  have wf: "dispatch_wf (request_state pl fw)" by (rule request_state_wf [OF assms(1,2)])
  then have "dispatch_wf (request_state pl fw')"
    using length_backing_of [OF base, of "mc_ram m"] assms(7) by (simp add: dispatch_wf_def request_state_def assms(6))
  then have "shaped (dv_session d) ?maps" "shaped (dv_session d) (dv_maps d)"
    using reflects_shaped [of ?d "pl_mapped pl (fw_flash fw')" "request_state pl fw'"] reflects_shaped [OF r(1) wf] ref
    by (simp_all add: fw_reflects_def)
  then have "map length ?maps = map length (dv_maps d)" using prog by (cases "dv_session d") simp_all
  then show ?thesis using dev_internal.event_runs [OF r(2) prog] ref by blast
qed

lemma fw_active_flag:
  assumes "fw_reflects pl d fw" and "fw' = fw\<lparr>fw_active := b\<rparr>"
  shows "fw_reflects pl (d\<lparr>dv_executing := b\<rparr>) fw'"
  using assms by (simp add: fw_reflects_def reflects_def request_state_def)

lemma timer_step_internal:
  assumes "platform_ok pl stack" and "fw_inv pl stack (pc, fw)" and "fw_reflects pl d fw"
    and "timer_event_step pl pc fw = Some (pc', fw')"
  shows "\<exists>d'. dev_internal d d' \<and> fw_reflects pl d' fw'"
proof -
  have wf: "fw_wf pl fw" and act: "fw_active fw = executing pc" and pc: "pc_ok pl stack pc fw"
    using assms(2) by (simp_all add: fw_inv_def)
  have ex: "dv_executing d = executing pc" using assms(3) act by (simp add: fw_reflects_def)
  obtain st' where "timer_event_step pl pc fw = Some st'" "fw_inv pl stack st'"
    using timer_event_inv [OF assms(1,2)] by blast
  then have wf': "fw_wf pl fw'" using assms(4) by (auto simp: fw_inv_def)
  then have ram': "length (mc_ram (fw_machine fw')) = RAM_BYTES" by (simp add: fw_wf_def)
  have same: ?thesis if "fw' = fw" using that assms(3) dev_internal.nothing by blast
  have machine: ?thesis if "fw' = fw\<lparr>fw_machine := fw_machine fw'\<rparr>" "executing pc" "has_program (ld_state (fw_loader fw))"
    using program_internal [OF assms(1) wf assms(3) that(3) _ that(1) ram'] that(2) act by simp
  show ?thesis
  proof (cases pc)
    case (Claim e)
    then have "fw' = fw\<lparr>fw_active := True\<rparr>"
      using assms(4) act by (simp add: timer_event_step_def try_claim_bpf_execution_def)
    then show ?thesis
      using fw_active_flag [OF assms(3)] dev_internal.event_begins [of d] ex Claim by auto
  next
    case (Invoke e md)
    then have "has_program (ld_state (fw_loader fw))" using pc by (simp add: pc_ok_def)
    moreover have "fw' = fw\<lparr>fw_machine := fw_machine fw'\<rparr>"
      using assms(4) Invoke by (auto simp: timer_event_step_def bind_some_iff)
    ultimately show ?thesis using machine Invoke by simp
  next
    case (Interpret e p)
    then have "has_program (ld_state (fw_loader fw))" using pc by (simp add: pc_ok_def interpreting_def)
    moreover have "fw' = fw\<lparr>fw_machine := fw_machine fw'\<rparr>"
      using assms(4) Interpret by (auto simp: timer_event_step_def bind_some_iff split: option.splits)
    ultimately show ?thesis using machine Interpret by simp
  next
    case Release
    then have "fw' = fw\<lparr>fw_active := False\<rparr>"
      using assms(4) by (simp add: timer_event_step_def release_bpf_execution_def)
    then show ?thesis
      using fw_active_flag [OF assms(3)] dev_internal.event_ends [of d] ex Release by auto
  qed (use same assms(4) in \<open>auto simp: timer_event_step_def bind_some_iff\<close>)
qed

lemma main_step_internal:
  assumes "platform_ok pl stack" and "fw_inv pl stack (pc, fw)" and "fw_reflects pl d fw"
    and "main_step pl star2 (pc, fw) = Some (pc', fw')"
  shows "\<exists>d'. dev_internal d d' \<and> fw_reflects pl d' fw'"
proof -
  have wf: "fw_wf pl fw" and act: "fw_active fw = executing pc" using assms(2) by (simp_all add: fw_inv_def)
  have same: ?thesis if "fw_loader fw' = fw_loader fw" "ps_status_queue (fw_protocol fw') = ps_status_queue (fw_protocol fw)"
    "fw_flash fw' = fw_flash fw" "mc_ram (fw_machine fw') = mc_ram (fw_machine fw)"
    "fw_active fw' = fw_active fw" "fw_reset_pending fw' = fw_reset_pending fw"
  proof -
    have "fw_reflects pl d fw'" by (rule fw_reflects_same [OF assms(3)]) (simp_all add: that)
    then show ?thesis using dev_internal.nothing by blast
  qed
  show ?thesis
  proof (cases pc)
    case Top
    show ?thesis
    proof (cases "fw_reset_pending fw")
      case False
      then show ?thesis using same assms(4) Top by (simp add: main_step_def)
    next
      case True
      then have st: "startup pl (mc_ram (fw_machine fw)) (mc_clock (fw_machine fw)) (fw_flash fw) = Some (pc', fw')"
        using assms(4) Top by (simp add: main_step_def)
      have "length (mc_ram (fw_machine fw)) = RAM_BYTES" using wf by (simp add: fw_wf_def)
      from startup_device [OF assms(1) this st] obtain d' where d': "powered_on d'" "fw_reflects pl d' fw'"
        "\<forall>ld s. session_rel ld (pl_mapped pl (fw_flash fw)) s \<longrightarrow> survives s (dv_session d')" by blast
      have "dv_reset d" "\<not> dv_executing d" using assms(3) True act Top by (simp_all add: fw_reflects_def)
      moreover have "session_rel (fw_loader fw) (pl_mapped pl (fw_flash fw)) (dv_session d)"
        using assms(3) by (simp add: fw_reflects_def reflects_def request_state_def)
      ultimately show ?thesis using d' dev_internal.restart by blast
    qed
  next
    case Exec_Pending
    then obtain ld f where "execute_pending (pl_storage pl) (fw_loader fw) (fw_flash fw) = Some (ld, f)"
      "fw' = fw\<lparr>fw_protocol := (fw_protocol fw)\<lparr>ps_loader := ld\<rparr>, fw_flash := f\<rparr>"
      using assms(4) by (auto simp: main_step_def bind_some_iff)
    then show ?thesis using fw_work [OF assms(1) wf assms(3)] by blast
  next
    case Wait_Bus_Idle
    then show ?thesis using same assms(4) by (simp add: main_step_def)
  next
    case Poll_Timer
    then show ?thesis using same assms(4) by (auto simp: main_step_def tick_def set_timer_def)
  next
    case Take_Ready
    then show ?thesis using same assms(4)
      by (auto simp: main_step_def set_timer_def split: prod.splits option.splits)
  next
    case Sleep
    then show ?thesis using same assms(4) by (auto simp: main_step_def tick_def bind_some_iff)
  qed (use timer_step_internal [OF assms(1-3)] assms(4) in \<open>simp_all add: main_step_def\<close>)
qed

section \<open>Packets\<close>

definition same_flags :: "device \<Rightarrow> answer \<Rightarrow> bool" where
  "same_flags d ans \<longleftrightarrow> dv_executing (snd (snd ans)) = dv_executing d \<and> dv_reset (snd (snd ans)) = dv_reset d"

lemma same_flags_answers:
  "same_flags d (load_answer d body)" "same_flags d (read_answer d body)" "same_flags d (write_answer d body)"
  "same_flags d (refused_answer d body)" "same_flags d (query_answer d body)" "same_flags d (status_answer d body)"
proof -
  show "same_flags d (load_answer d body)"
    by (cases "load_job (dv_session d) body") (simp_all add: load_answer_def same_flags_def)
  show "same_flags d (query_answer d body)"
    by (cases "dv_session d") (simp_all add: query_answer_def same_flags_def)
qed (simp_all add: same_flags_def read_answer_def write_answer_def refused_answer_def status_answer_def Let_def)

lemma device_answer_flags:
  "dv_executing (snd (snd (device_answer d r))) = dv_executing d"
  "dv_reset (snd (snd (device_answer d r))) = dv_reset d"
proof -
  have "same_flags d (device_answer d r)"
    using same_flags_answers [of d] by (simp add: device_answer_def Let_def) (simp add: same_flags_def)
  then show "dv_executing (snd (snd (device_answer d r))) = dv_executing d"
    "dv_reset (snd (snd (device_answer d r))) = dv_reset d" by (simp_all add: same_flags_def)
qed

lemma answered_packet:
  assumes "platform_ok pl stack" and "fw_wf pl fw" and "fw_reflects pl d fw"
    and "parse_packet p t = Some (Some r)" and "\<not> (fw_active fw \<and> req_command r \<noteq> CMD_RESET)"
    and "\<not> resets r" and "\<not> (starts r \<and> runnable d)"
  shows "\<exists>fw'. on_i2c_packet pl p t fw = Some fw' \<and> fw_tx fw' = fw_tx fw @ [answer_of r (device_answer d r)]
    \<and> fw_reflects pl (snd (snd (device_answer d r))) fw'"
proof -
  let ?s = "request_state pl fw" let ?a = "device_answer d r" let ?cs = "pl_mapped pl (fw_flash fw)"
  have base: "base_ok (pl_backing pl)" and len: "length (mc_ram (fw_machine fw)) = RAM_BYTES"
    using assms(1,2) by (simp_all add: platform_ok_def fw_wf_def)
  have "reflects d ?cs ?s" using assms(3) by (simp add: fw_reflects_def)
  from dispatch_refines_device [OF request_state_wf [OF assms(1,2)] parse_packet_wf [OF assms(4)] this assms(6,7)]
  obtain outcome s' where d: "dispatch_with_bpf_and_executor (start_executor pl ?cs) r ?s = Some (outcome, s')"
    and s': "dispatch_wf s'" "ds_world s' = ds_world ?s" "reflects (snd (snd ?a)) ?cs s'"
    and rep: "replies s' outcome (fst ?a) (req_sequence r) (fst (snd ?a))"
    unfolding gives_def by blast
  let ?fw' = "(after_request pl fw s')\<lparr>fw_tx := fw_tx fw @ [answer_of r ?a]\<rparr>"
  have out: "length (ds_output s') = MAX_FRAME" "length (ds_backing s') = 1024"
    using s'(1) by (simp_all add: dispatch_wf_def)
  have "on_i2c_packet pl p t fw = Some ?fw'"
    using packet_reply [OF assms(4,5) d rep out(1)] by (simp add: answer_of_def)
  moreover have w: "ds_world s' = (fw_machine fw, fw_active fw)" using s'(2) by (simp add: request_state_def)
  have "fw_reflects pl (snd (snd ?a)) ?fw'"
    using s'(3) assms(3) with_backing_props(2) [OF base _ out(2), of "mc_ram (fw_machine fw)"] len
    by (simp add: fw_reflects_def reflects_def request_state_def after_request_def w device_answer_flags)
  ultimately show ?thesis by simp
qed

lemma runnable_loader:
  assumes "reflects d flash s" and "runnable d"
  shows "ld_pending (ds_loader s) = None" and "\<exists>c. ld_state (ds_loader s) = Committed c"
  using assms reflects_maps(1) [OF assms(1)]
  by (cases "ld_state (ds_loader s)"; simp add: reflects_def runnable_def)+

lemma started_packet:
  assumes "platform_ok pl stack" and "fw_wf pl fw" and "fw_reflects pl d fw" and "\<not> fw_active fw"
    and "parse_packet p t = Some (Some r)" and "starts r" and "runnable d"
    and "on_i2c_packet pl p t fw = Some fw'"
  shows "\<exists>maps ok. map length maps = map length (dv_maps d)
    \<and> fw_tx fw' = fw_tx fw @ [reply_frame (if ok then STATUS_OK else STATUS_BAD_COMMAND) (req_sequence r) []]
    \<and> fw_reflects pl (d\<lparr>dv_maps := maps, dv_started := ok\<rparr>) fw'"
proof -
  let ?ld = "fw_loader fw" let ?cs = "pl_mapped pl (fw_flash fw)" let ?s = "request_state pl fw"
  have r: "reflects d ?cs ?s" using assms(3) by (simp add: fw_reflects_def)
  obtain c where c: "ld_pending ?ld = None" "ld_state ?ld = Committed c"
    using runnable_loader [OF r assms(7)] by (auto simp: request_state_def)
  note inv = fw_loader_inv(1) [OF assms(1,2)]
  have "dispatch_with_bpf_and_executor (start_executor pl ?cs) r ?s \<noteq> None"
    using assms(4,5,8)
    by (cases "dispatch_with_bpf_and_executor (start_executor pl ?cs) r ?s") (auto simp: on_i2c_packet_def)
  then obtain res m where e: "execute_loaded_bpf (pl_sonde pl) (pl_time pl) (program_metadata ?ld)
      (pl_backing pl) (pl_context pl, 0) False ?cs (fw_machine fw) = Some (res, m)"
    unfolding start_request_runs [OF assms(1,2,4,6) c, of ?cs] by (auto simp: bind_eq_None_conv)
  obtain out where fw': "fw' = fw\<lparr>fw_protocol := \<lparr>ps_status_queue = ps_status_queue (fw_protocol fw),
        ps_loader = snd (start_status res ?ld), ps_response = out\<rparr>, fw_machine := m, fw_active := False,
        fw_tx := fw_tx fw @ [reply_frame (fst (start_status res ?ld)) (req_sequence r) []]\<rparr>"
    using start_packet [OF assms(1,2,4,5,6) c e] assms(8) by auto
  have mach: "length (mc_ram (fw_machine fw)) = RAM_BYTES" "timer_inv (mc_timer (fw_machine fw))"
    and sok: "sonde_ok (pl_sonde pl) stack" and base: "base_ok (pl_backing pl)"
    using assms(1,2) by (simp_all add: fw_wf_def platform_ok_def)
  have "launch_ok (pl_backing pl) (program_metadata ?ld) (fw_machine fw)"
    using program_launch_ok [OF assms(1,2)] c(2) mach by simp
  note ec = execution_contained [OF sok context_regions(2) [OF assms(1)] this e]
  then have ram: "length (mc_ram m) = RAM_BYTES" using mach(1) by (simp add: untouched_def)
  define ok where "ok \<longleftrightarrow> res = Inr 0"
  have st: "fst (start_status res ?ld) = (if ok then STATUS_OK else STATUS_BAD_COMMAND)"
    "snd (start_status res ?ld) = (if ok then ?ld\<lparr>ld_state := Running c\<rparr> else ?ld)"
    using mark_running_committed(1) [OF c(2,1) inv] ec by (auto simp: start_status_def ok_def split: sum.splits)
  let ?maps = "host_view ?ld (backing_of (pl_backing pl) (mc_ram m))" let ?d = "d\<lparr>dv_maps := ?maps, dv_started := ok\<rparr>"
  have rel: "session_rel ?ld ?cs (dv_session d)" using r by (simp add: reflects_def request_state_def)
  then have "session_rel (?ld\<lparr>ld_state := Running c\<rparr>) ?cs (dv_session d)"
    using c(2) by (cases "dv_session d") (auto simp: on_device_def)
  then have ref: "fw_reflects pl ?d fw'"
    using assms(3,4) st c rel
    by (simp add: fw_reflects_def reflects_def request_state_def fw' host_view_def)
  have "session_rel ?ld ?cs (dv_session d) \<Longrightarrow> shaped (dv_session d) ?maps"
    using program_maps [OF inv, of ?cs] length_backing_of [OF base, of "mc_ram m"] ram assms(7)
    by (cases "dv_session d") (auto simp: runnable_def)
  moreover have "shaped (dv_session d) (dv_maps d)" by (rule reflects_shaped [OF r request_state_wf [OF assms(1,2)]])
  ultimately have "map length ?maps = map length (dv_maps d)"
    using rel assms(7) by (cases "dv_session d") (simp_all add: runnable_def)
  moreover have "fw_tx fw' = fw_tx fw @ [reply_frame (if ok then STATUS_OK else STATUS_BAD_COMMAND) (req_sequence r) []]"
    by (simp add: fw' st(1))
  ultimately show ?thesis using ref by blast
qed

lemma packet_exchange:
  assumes "platform_ok pl stack" and "fw_wf pl fw" and "fw_reflects pl d fw"
    and "on_i2c_packet pl p t fw = Some fw'"
  shows "\<exists>frames d'. fw_tx fw' = fw_tx fw @ frames \<and> dev_exchange d p t frames d' \<and> fw_reflects pl d' fw'"
proof -
  have ex: "dv_executing d = fw_active fw" using assms(3) by (simp add: fw_reflects_def)
  obtain req where parse: "parse_packet p t = Some req" using parse_packet_not_none by blast
  show ?thesis
  proof (cases req)
    case None
    then have "fw' = fw\<lparr>fw_tx := fw_tx fw @ [[]]\<rparr>" using packet_empty [of p t pl fw] parse assms(4) by simp
    moreover have "fw_reflects pl d (fw\<lparr>fw_tx := fw_tx fw @ [[]]\<rparr>)" by (rule fw_reflects_same [OF assms(3)]) simp_all
    ultimately show ?thesis using dev_exchange.noise [of p t d] parse None by auto
  next
    case (Some r)
    have "starts r \<Longrightarrow> req_command r \<noteq> CMD_RESET" by (simp add: starts_def command_codes)
    then consider "resets r" | "fw_active fw" "req_command r \<noteq> CMD_RESET" | "\<not> fw_active fw" "starts r" "runnable d"
      | "\<not> (fw_active fw \<and> req_command r \<noteq> CMD_RESET)" "\<not> resets r" "\<not> (starts r \<and> runnable d)"
      by blast
    then show ?thesis
    proof cases
      case 1
      then have "fw' = fw\<lparr>fw_reset_pending := True\<rparr>" using packet_reset [of p t r pl fw] parse Some assms(4) by simp
      then have "fw_tx fw' = fw_tx fw @ []" "fw_reflects pl (d\<lparr>dv_reset := True\<rparr>) fw'"
        using assms(3) by (simp_all add: fw_reflects_def reflects_def request_state_def)
      moreover have "dev_exchange d p t [] (d\<lparr>dv_reset := True\<rparr>)"
        using dev_exchange.reset parse Some 1 by blast
      ultimately show ?thesis by blast
    next
      case 2
      then obtain out where "fw' = fw\<lparr>fw_protocol := (fw_protocol fw)\<lparr>ps_response := out\<rparr>,
          fw_tx := fw_tx fw @ [reply_frame STATUS_BUSY (req_sequence r) []]\<rparr>"
        using packet_busy [OF assms(2) _ parse [unfolded Some]] assms(4) by auto
      then have "fw_tx fw' = fw_tx fw @ [reply_frame STATUS_BUSY (req_sequence r) []]" "fw_reflects pl d fw'"
        using fw_reflects_same [OF assms(3), of fw'] by simp_all
      moreover have "dev_exchange d p t [reply_frame STATUS_BUSY (req_sequence r) []] d"
        using dev_exchange.busy parse Some 2 ex by blast
      ultimately show ?thesis by blast
    next
      case 3
      from started_packet [OF assms(1-3) 3(1) parse [unfolded Some] 3(2,3) assms(4)] obtain maps ok
        where s: "map length maps = map length (dv_maps d)"
          "fw_tx fw' = fw_tx fw @ [reply_frame (if ok then STATUS_OK else STATUS_BAD_COMMAND) (req_sequence r) []]"
          "fw_reflects pl (d\<lparr>dv_maps := maps, dv_started := ok\<rparr>) fw'" by (elim exE conjE) (rule that)
      have "\<not> dv_executing d" using ex 3(1) by simp
      from dev_exchange.start [OF parse [unfolded Some] this 3(2,3) s(1), of ok] s(2,3) show ?thesis by blast
    next
      case 4
      from answered_packet [OF assms(1-3) parse [unfolded Some] 4] assms(4)
      have a: "fw_tx fw' = fw_tx fw @ [answer_of r (device_answer d r)]"
        "fw_reflects pl (snd (snd (device_answer d r))) fw'" by auto
      have "dev_exchange d p t [answer_of r (device_answer d r)] (snd (snd (device_answer d r)))"
        using 4 ex by (intro dev_exchange.answer [OF parse [unfolded Some]]) simp_all
      then show ?thesis using a by blast
    qed
  qed
qed

section \<open>Runs\<close>

lemma run_trace:
  assumes "platform_ok pl stack" and "fw_inv pl stack st" and "fw_reflects pl d (snd st)"
    and "fw_run pl as st = Some st'"
  shows "\<exists>d'. dev_trace d (fw_exchanges pl as st) d' \<and> fw_reflects pl d' (snd st')"
  using assms(2-)
proof (induction as arbitrary: st d)
  case Nil
  then show ?case using dev_trace.stop by auto
next
  case (Cons a as)
  obtain pc fw where st: "st = (pc, fw)" by (cases st)
  obtain st1 where s1: "fw_step pl a st = Some st1" and run: "fw_run pl as st1 = Some st'"
    using Cons.prems(3) by (auto simp: bind_some_iff)
  have inv1: "fw_inv pl stack st1" by (rule fw_step_inv [OF assms(1) Cons.prems(1) s1])
  show ?case
  proof (cases a)
    case (Main_Step star2)
    then have "main_step pl star2 (pc, fw) = Some (fst st1, snd st1)" using s1 by (simp add: fw_step_def st)
    then obtain d1 where d1: "dev_internal d d1" "fw_reflects pl d1 (snd st1)"
      using main_step_internal [OF assms(1)] Cons.prems(1,2) unfolding st by fastforce
    obtain d' where "dev_trace d1 (fw_exchanges pl as st1) d'" "fw_reflects pl d' (snd st')"
      using Cons.IH [OF inv1 d1(2) run] by blast
    then show ?thesis using dev_trace.internal [OF d1(1)] s1 Main_Step by auto
  next
    case (Packet p t)
    then obtain fw1 where fw1: "on_i2c_packet pl p t fw = Some fw1" "st1 = (pc, fw1)"
      using s1 by (auto simp: fw_step_def st)
    have wf: "fw_wf pl fw" "fw_reflects pl d fw" using Cons.prems(1,2) by (simp_all add: st fw_inv_def)
    obtain frames d1 where d1: "fw_tx fw1 = fw_tx fw @ frames" "dev_exchange d p t frames d1" "fw_reflects pl d1 (snd st1)"
      using packet_exchange [OF assms(1) wf fw1(1)] fw1(2) by auto
    obtain d' where "dev_trace d1 (fw_exchanges pl as st1) d'" "fw_reflects pl d' (snd st')"
      using Cons.IH [OF inv1 d1(3) run] by blast
    then show ?thesis using dev_trace.exchanged [OF d1(2)] s1 Packet d1(1) fw1(2) by (auto simp: st)
  qed
qed

section \<open>Property\<close>

text \<open>C1: The firmware implements the device: for every run from power-on, with packets at any time,
  any flash failures and any programs, the packets and the frames queued in return are a trace of the
  abstract device from a powered-on state, which at the end has the session, the queued job, the status
  message and the map contents of the firmware.\<close>

theorem firmware_implements_device:
  assumes "platform_ok pl stack" and "length ram = RAM_BYTES"
    and "startup pl ram clock flash = Some st" and "fw_run pl as st = Some st'"
  shows "\<exists>d d'. powered_on d \<and> fw_reflects pl d (snd st) \<and> dev_trace d (fw_exchanges pl as st) d'
    \<and> fw_reflects pl d' (snd st')"
proof -
  have s: "startup pl ram clock flash = Some (fst st, snd st)" using assms(3) by simp
  obtain d where d: "powered_on d" "fw_reflects pl d (snd st)"
    using startup_device [OF assms(1,2) s] by blast
  have "fw_inv pl stack st"
    using startup_inv [OF assms(1,2), of clock flash] assms(3) by auto
  from run_trace [OF assms(1) this d(2) assms(4)] d show ?thesis by blast
qed

theorem firmware_implements_device_witness:
  "\<exists>st st' d d'. startup sample_platform sample_ram (sconst 0) sample_flash = Some st
     \<and> fw_run sample_platform [Packet (encode_request (bare_request CMD_QUERY_BPF_CRC 9)) False] st = Some st'
     \<and> powered_on d \<and> dev_trace d [(encode_request (bare_request CMD_QUERY_BPF_CRC 9), False,
         [reply_frame STATUS_OK 9 (to_le_bytes 4 sample_crc)])] d'"
proof -
  let ?r = "bare_request CMD_QUERY_BPF_CRC 9" let ?p = "encode_request (bare_request CMD_QUERY_BPF_CRC 9)"
  obtain fw where s: "startup sample_platform sample_ram (sconst 0) sample_flash = Some (Top, fw)"
    and ld: "ld_state (fw_loader fw) = Committed sample_crc" "ld_pending (fw_loader fw) = None" "\<not> fw_active fw"
    using powered_state by blast
  have ram: "length sample_ram = RAM_BYTES" by (simp add: sample_ram_def)
  obtain d where d: "fw_reflects sample_platform d fw"
    using startup_device [OF sample_platform_ok ram s] by blast
  then have "session_rel (fw_loader fw) (pl_mapped sample_platform (fw_flash fw)) (dv_session d)" "dv_job d = None"
    using ld(2) by (simp_all add: fw_reflects_def reflects_def request_state_def)
  then have "device_answer d ?r = (STATUS_OK, to_le_bytes 4 sample_crc, d)"
    using ld(1) request_fields(3) [OF bare_request_wf(1), of CMD_QUERY_BPF_CRC 9]
    by (cases "dv_session d") (simp_all add: device_answer_def query_answer_def bare_request_wf command_codes)
  then have frame: "answer_of ?r (device_answer d ?r) = reply_frame STATUS_OK 9 (to_le_bytes 4 sample_crc)"
    by (simp add: answer_of_def bare_request_wf)
  have "fw_wf sample_platform fw" using powered_inv(2) [OF s] by (simp add: fw_inv_def)
  moreover have "parse_packet ?p False = Some (Some ?r)" by (rule parse_packet_single [OF bare_request_wf(1)])
  moreover have "\<not> resets ?r" "\<not> (starts ?r \<and> runnable d)"
    by (simp_all add: resets_def starts_def bare_request_wf command_codes)
  ultimately obtain fw' where fw': "on_i2c_packet sample_platform ?p False fw = Some fw'"
    "fw_tx fw' = fw_tx fw @ [answer_of ?r (device_answer d ?r)]"
    using answered_packet [OF sample_platform_ok _ d, of ?p False ?r] ld(3) by blast
  have run: "fw_run sample_platform [Packet ?p False] (Top, fw) = Some (Top, fw')"
    using fw'(1) by (simp add: fw_step_def)
  have "fw_exchanges sample_platform [Packet ?p False] (Top, fw)
      = [(?p, False, [reply_frame STATUS_OK 9 (to_le_bytes 4 sample_crc)])]"
    using fw' frame by (simp add: fw_step_def)
  with firmware_implements_device [OF sample_platform_ok ram s run] s run show ?thesis by metis
qed

end
