(* ===== verification/I2c_Bridge.thy ===== *)
theory I2c_Bridge
  imports Wire_Protocol
begin

text \<open>
  The test harness's USB to I2C bridge, \<^verbatim>\<open>firmware/i2c-bridge/src/main.rs\<close>: the
  request handler and the session loop that feeds the bytes of CDC packets to the frame parser and
  answers every request before it looks at the next byte.

  The I2C master, the CDC endpoint and the clock are the generated HAL and embassy-usb, parameters
  of the model: a record of the three operations the code awaits, over a state of the outside world.
  An I2C operation is raced against a watcher of the host's DTR line, so it either finishes or the
  line is lost first. What the session loop sees of the CDC endpoint is a list of polls, one for
  each turn of the loop.
\<close>

section \<open>The outside world\<close>

datatype 'a race = Finished 'a | Dtr_Lost

text \<open>\<open>io_write\<close> and \<open>io_read\<close> tell whether the transfer succeeded; a read also gives
  what it left in the buffer of the given length. \<open>io_send\<close> is \<open>write_packet\<close>.\<close>

record 'w bridge_io =
  io_write :: "u8 \<Rightarrow> bytes \<Rightarrow> 'w \<Rightarrow> bool race \<times> 'w"
  io_read :: "u8 \<Rightarrow> nat \<Rightarrow> 'w \<Rightarrow> (bool \<times> bytes) race \<times> 'w"
  io_send :: "bytes \<Rightarrow> 'w \<Rightarrow> bool \<times> 'w"

datatype 'a session = Going 'a | Mcu_Reset

text \<open>\<open>Received\<close> carries the next USB packet of the host. \<open>read_packet\<close> puts it
  into the buffer it is given; a packet longer than the buffer fails with \<open>BufferOverflow\<close>, as
  embassy-usb documents.\<close>

datatype cdc_poll = Dtr_Low | Timed_Out | Read_Failed | Received bytes

section \<open>The request handler\<close>

definition encode_or_5 :: "u8 \<Rightarrow> u8 \<Rightarrow> bytes \<Rightarrow> bytes \<Rightarrow> (nat \<times> bytes) may_panic" where
  "encode_or_5 status sq payload output = do {
     (res, output) \<leftarrow> encode_response status sq 0 payload output;
     Some (case res of Inr n \<Rightarrow> n | Inl _ \<Rightarrow> 5, output)
   }"

text \<open>The result is the length of the response, with the read buffer and the output buffer.\<close>

definition handle_request ::
    "'w bridge_io \<Rightarrow> request \<Rightarrow> bytes \<Rightarrow> bytes \<Rightarrow> 'w \<Rightarrow> ((nat \<times> bytes \<times> bytes) session \<times> 'w) may_panic" where
  "handle_request io request read_buffer output w =
     (case validate_i2c_request request of
        Inl status \<Rightarrow> do {
          (n, output) \<leftarrow> encode_or_5 status (req_sequence request) [] output;
          Some (Going (n, read_buffer, output), w)
        }
      | Inr _ \<Rightarrow> do {
          let len = unat (req_payload_len request);
          address \<leftarrow> get_at (req_payload request) 0;
          count \<leftarrow> get_at (req_payload request) 1;
          if req_command request = CMD_I2C_WRITE then do {
            bs \<leftarrow> slice (req_payload request) 1 len;
            (case io_write io address bs w of
               (Dtr_Lost, w) \<Rightarrow> Some (Mcu_Reset, w)
             | (Finished ok, w) \<Rightarrow> do {
                 (n, output) \<leftarrow> encode_or_5 (if ok then STATUS_OK else STATUS_BAD_COMMAND)
                                  (req_sequence request) [] output;
                 Some (Going (n, read_buffer, output), w)
               })
          }
          else if req_command request = CMD_I2C_READ \<and> len = 2 \<and> unat count \<le> length read_buffer then
            (case io_read io address (unat count) w of
               (Dtr_Lost, w) \<Rightarrow> Some (Mcu_Reset, w)
             | (Finished (ok, got), w) \<Rightarrow> do {
                 read_buffer \<leftarrow> copy_into read_buffer 0 got;
                 payload \<leftarrow> (if ok then slice read_buffer 0 (unat count) else Some []);
                 (n, output) \<leftarrow> encode_or_5 (if ok then STATUS_OK else STATUS_BAD_COMMAND)
                                  (req_sequence request) payload output;
                 Some (Going (n, read_buffer, output), w)
               })
          else if req_command request = CMD_I2C_READ then do {
            (n, output) \<leftarrow> encode_or_5 STATUS_BAD_LENGTH (req_sequence request) [] output;
            Some (Going (n, read_buffer, output), w)
          }
          else None
        })"

section \<open>The session loop\<close>

record bridge =
  br_parser :: parser
  br_input :: bytes
  br_output :: bytes
  br_read :: bytes

definition bridge_new :: bridge where
  "bridge_new = \<lparr>br_parser = parser_new, br_input = replicate MAX_FRAME 0,
     br_output = replicate MAX_FRAME 0, br_read = replicate 16 0\<rparr>"

text \<open>\<open>for byte in input[..received]\<close>\<close>

fun serve_bytes ::
    "'w bridge_io \<Rightarrow> bytes \<Rightarrow> bridge \<Rightarrow> 'w \<Rightarrow> (bridge session \<times> 'w) may_panic" where
  "serve_bytes io [] b w = Some (Going b, w)"
| "serve_bytes io (byte # bs) b w = do {
     (res, p) \<leftarrow> push (br_parser b) byte;
     (case res of
        Inr (Some request) \<Rightarrow> do {
          (out, w) \<leftarrow> handle_request io request (br_read b) (br_output b) w;
          (case out of
             Mcu_Reset \<Rightarrow> Some (Mcu_Reset, w)
           | Going (n, read_buffer, output) \<Rightarrow> do {
               frame \<leftarrow> slice output 0 n;
               (case io_send io frame w of
                  (False, w) \<Rightarrow> Some (Mcu_Reset, w)
                | (True, w) \<Rightarrow>
                    serve_bytes io bs (b\<lparr>br_parser := p, br_read := read_buffer, br_output := output\<rparr>) w)
             })
        }
      | Inr None \<Rightarrow> serve_bytes io bs (b\<lparr>br_parser := p\<rparr>) w
      | Inl _ \<Rightarrow> serve_bytes io bs (b\<lparr>br_parser := parser_reset p\<rparr>) w)
   }"

text \<open>\<open>while cdc.dtr()\<close>, and the reset after it. The list of polls may stop before the
  session does.\<close>

fun dtr_session ::
    "'w bridge_io \<Rightarrow> cdc_poll list \<Rightarrow> bridge \<Rightarrow> 'w \<Rightarrow> (bridge session \<times> 'w) may_panic" where
  "dtr_session io [] b w = Some (Going b, w)"
| "dtr_session io (Dtr_Low # polls) b w = Some (Mcu_Reset, w)"
| "dtr_session io (Timed_Out # polls) b w = dtr_session io polls b w"
| "dtr_session io (Read_Failed # polls) b w = Some (Mcu_Reset, w)"
| "dtr_session io (Received packet # polls) b w =
     (if length packet > length (br_input b) then Some (Mcu_Reset, w)
      else do {
        input \<leftarrow> copy_into (br_input b) 0 packet;
        bs \<leftarrow> slice input 0 (length packet);
        (out, w) \<leftarrow> serve_bytes io bs (b\<lparr>br_input := input\<rparr>) w;
        (case out of Mcu_Reset \<Rightarrow> Some (Mcu_Reset, w) | Going b \<Rightarrow> dtr_session io polls b w)
      })"

definition READY :: bytes where "READY = [0x52, 0x45, 0x41, 0x44, 0x59, 0x0d, 0x0a]"

text \<open>One turn of the outer loop, once the host is connected and has raised DTR.\<close>

definition connection ::
    "'w bridge_io \<Rightarrow> cdc_poll list \<Rightarrow> bridge \<Rightarrow> 'w \<Rightarrow> (bridge session \<times> 'w) may_panic" where
  "connection io polls b w =
     (case io_send io READY w of
        (False, w) \<Rightarrow> Some (Mcu_Reset, w)
      | (True, w) \<Rightarrow> dtr_session io polls (b\<lparr>br_parser := parser_reset (br_parser b)\<rparr>) w)"

text \<open>A read leaves a buffer of the length it was given.\<close>

definition io_ok :: "'w bridge_io \<Rightarrow> bool" where
  "io_ok io \<longleftrightarrow> (\<forall>a n w ok got w'. io_read io a n w = (Finished (ok, got), w') \<longrightarrow> length got = n)"

definition bridge_wf :: "bridge \<Rightarrow> bool" where
  "bridge_wf b \<longleftrightarrow> parser_wf (br_parser b) \<and> length (br_input b) = MAX_FRAME
     \<and> length (br_output b) = MAX_FRAME \<and> length (br_read b) = 16"

section \<open>What the bridge promises\<close>

text \<open>The answer to a request: status and payload.\<close>

definition bridge_reply :: "'w bridge_io \<Rightarrow> request \<Rightarrow> 'w \<Rightarrow> (u8 \<times> bytes) race \<times> 'w" where
  "bridge_reply io r w =
     (if req_flags r \<noteq> 0 then (Finished (STATUS_BAD_FLAGS, []), w)
      else if req_command r \<notin> {CMD_I2C_WRITE, CMD_I2C_READ} then (Finished (STATUS_BAD_COMMAND, []), w)
      else if request_body r = [] then (Finished (STATUS_BAD_LENGTH, []), w)
      else let address = hd (request_body r); rest = tl (request_body r) in
        if unat address \<ge> 128 then (Finished (STATUS_BAD_COMMAND, []), w)
        else if req_command r = CMD_I2C_WRITE then
          (case io_write io address rest w of
             (Dtr_Lost, w) \<Rightarrow> (Dtr_Lost, w)
           | (Finished ok, w) \<Rightarrow> (Finished (if ok then STATUS_OK else STATUS_BAD_COMMAND, []), w))
        else if length rest \<noteq> 1 \<or> unat (hd rest) > 16 then (Finished (STATUS_BAD_LENGTH, []), w)
        else
          (case io_read io address (unat (hd rest)) w of
             (Dtr_Lost, w) \<Rightarrow> (Dtr_Lost, w)
           | (Finished (ok, got), w) \<Rightarrow>
               (Finished (if ok then (STATUS_OK, got) else (STATUS_BAD_COMMAND, [])), w)))"

text \<open>Answering requests one after the other, until an answer cannot be given or sent.\<close>

definition reply_and_send :: "'w bridge_io \<Rightarrow> request \<Rightarrow> 'w \<Rightarrow> bool \<times> 'w" where
  "reply_and_send io r w =
     (case bridge_reply io r w of
        (Dtr_Lost, w) \<Rightarrow> (False, w)
      | (Finished (status, payload), w) \<Rightarrow> io_send io (reply_frame status (req_sequence r) payload) w)"

fun serve_requests :: "'w bridge_io \<Rightarrow> request list \<Rightarrow> 'w \<Rightarrow> bool \<times> 'w" where
  "serve_requests io [] w = (True, w)"
| "serve_requests io (r # rs) w =
     (case reply_and_send io r w of
        (False, w) \<Rightarrow> (False, w)
      | (True, w) \<Rightarrow> serve_requests io rs w)"

section \<open>The handler gives the promised answer\<close>

definition answered ::
    "((u8 \<times> bytes) race \<times> 'w) \<Rightarrow> u8 \<Rightarrow> ((nat \<times> bytes \<times> bytes) session \<times> 'w) may_panic \<Rightarrow> bool" where
  "answered reply sq res \<longleftrightarrow>
     (case reply of
        (Dtr_Lost, w) \<Rightarrow> res = Some (Mcu_Reset, w)
      | (Finished (status, payload), w) \<Rightarrow> length payload \<le> MAX_PAYLOAD \<and> (\<exists>rb out.
          res = Some (Going (HEADER_LEN + length payload, rb, out), w) \<and> length rb = 16 \<and> length out = MAX_FRAME
          \<and> slice out 0 (HEADER_LEN + length payload) = Some (reply_frame status sq payload)))"

lemma encode_reply:
  assumes "length out = MAX_FRAME" and "length payload \<le> MAX_PAYLOAD"
  shows "\<exists>out'. encode_or_5 status sq payload out = Some (5 + length payload, out') \<and> length out' = MAX_FRAME
    \<and> slice out' 0 (5 + length payload) = Some (reply_frame status sq payload)"
  using encode_response_ok [OF assms, of status sq 0] assms
  by (simp add: encode_or_5_def slice_def take_five reply_frame_def)

lemma answered_encode:
  assumes "length out = MAX_FRAME" and "length payload \<le> MAX_PAYLOAD" and "length rb = 16"
  shows "answered (Finished (status, payload), w) sq
    (encode_or_5 status sq payload out \<bind> (\<lambda>(n, out). Some (Going (n, rb, out), w)))"
  using encode_reply [OF assms(1,2), of status sq] assms(2,3) by (auto simp: answered_def)

lemma request_body_shape:
  assumes "wf_request r"
  shows "request_body r = [] \<longleftrightarrow> req_payload_len r = 0"
    and "req_payload_len r \<noteq> 0 \<Longrightarrow> hd (request_body r) = req_payload r ! 0"
    and "req_payload_len r \<noteq> 0 \<Longrightarrow> slice (req_payload r) 1 (unat (req_payload_len r)) = Some (tl (request_body r))"
    and "length (request_body r) = unat (req_payload_len r)"
    and "unat (req_payload_len r) = 2 \<Longrightarrow> tl (request_body r) = [req_payload r ! 1]"
proof -
  let ?n = "unat (req_payload_len r)"
  have l: "length (req_payload r) = 16" "?n \<le> 16" using assms by (simp_all add: wf_request_def)
  have n0: "?n = 0 \<longleftrightarrow> req_payload_len r = 0" by (simp add: unat_eq_0)
  then show "request_body r = [] \<longleftrightarrow> req_payload_len r = 0" using l by (auto simp: request_body_def)
  show "length (request_body r) = ?n" using l by (simp add: request_body_def)
  obtain a xs where ax: "req_payload r = a # xs" using l(1) by (cases "req_payload r") auto
  then obtain b ys where "xs = b # ys" using l(1) by (cases xs) auto
  with ax have aby: "req_payload r = a # b # ys" by simp
  show "hd (request_body r) = req_payload r ! 0" if "req_payload_len r \<noteq> 0"
    using that n0 aby by (cases ?n) (simp_all add: request_body_def)
  show "slice (req_payload r) 1 ?n = Some (tl (request_body r))" if "req_payload_len r \<noteq> 0"
    using that l n0 aby by (cases ?n) (simp_all add: slice_def request_body_def)
  show "tl (request_body r) = [req_payload r ! 1]" if "?n = 2"
    unfolding request_body_def that aby by simp
qed

lemma handle_request_answers:
  assumes "wf_request r" and "io_ok io" and "length rb = 16" and "length out = MAX_FRAME"
  shows "answered (bridge_reply io r w) (req_sequence r) (handle_request io r rb out w)"
proof -
  let ?n = "unat (req_payload_len r)" let ?a = "req_payload r ! 0" let ?c = "req_payload r ! 1"
  have l: "length (req_payload r) = 16" "?n \<le> 16" using assms(1) by (simp_all add: wf_request_def)
  have n0: "?n = 0 \<longleftrightarrow> req_payload_len r = 0" by (simp add: unat_eq_0)
  note shape = request_body_shape [OF assms(1)]
  have enc: "answered (Finished (st, pl), w') (req_sequence r)
      (encode_or_5 st (req_sequence r) pl out \<bind> (\<lambda>(n, out). Some (Going (n, rb', out), w')))"
    if "length pl \<le> MAX_PAYLOAD" "length rb' = 16" for st pl rb' w'
    using answered_encode [OF assms(4) that] .
  show ?thesis
  proof (cases "validate_i2c_request r")
    case (Inl status)
    then have "bridge_reply io r w = (Finished (status, []), w)"
      using shape n0 l
      by (auto simp: validate_i2c_request_def bridge_reply_def Let_def and_high_bit_clear not_le command_codes
          split: if_splits)
    then show ?thesis using enc [of "[]" rb status w] assms(3) Inl by (simp add: handle_request_def)
  next
    case (Inr u)
    then have v: "req_flags r = 0" "req_payload_len r \<noteq> 0" "unat ?a < 128"
      "req_command r = CMD_I2C_WRITE \<or> req_command r = CMD_I2C_READ \<and> ?n = 2 \<and> unat ?c \<le> 16"
      by (auto simp: validate_i2c_request_def Let_def and_high_bit_clear split: if_splits)
    have get: "get_at (req_payload r) 0 = Some ?a" "get_at (req_payload r) 1 = Some ?c"
      using l by (simp_all add: get_at_def)
    show ?thesis
    proof (cases "req_command r = CMD_I2C_WRITE")
      case True
      have b: "bridge_reply io r w = (case io_write io ?a (tl (request_body r)) w of
          (Dtr_Lost, w) \<Rightarrow> (Dtr_Lost, w)
        | (Finished ok, w) \<Rightarrow> (Finished (if ok then STATUS_OK else STATUS_BAD_COMMAND, []), w))"
        using True v shape(1,2) by (simp add: bridge_reply_def Let_def)
      obtain res w' where io: "io_write io ?a (tl (request_body r)) w = (res, w')"
        by (cases "io_write io ?a (tl (request_body r)) w")
      show ?thesis
        using enc [of "[]" rb _ w'] assms(3) Inr True get shape(3) v(2) io
        by (cases res) (simp_all add: b handle_request_def answered_def [of "(Dtr_Lost, w')"])
    next
      case False
      then have rd: "req_command r = CMD_I2C_READ" "?n = 2" "unat ?c \<le> 16" using v by auto
      have t: "tl (request_body r) = [?c]" using shape(5) rd(2) .
      have b: "bridge_reply io r w = (case io_read io ?a (unat ?c) w of
          (Dtr_Lost, w) \<Rightarrow> (Dtr_Lost, w)
        | (Finished (ok, got), w) \<Rightarrow> (Finished (if ok then (STATUS_OK, got) else (STATUS_BAD_COMMAND, [])), w))"
        using False v shape(1,2) rd(3) by (simp add: bridge_reply_def Let_def t)
      obtain res w' where io: "io_read io ?a (unat ?c) w = (res, w')"
        by (cases "io_read io ?a (unat ?c) w")
      show ?thesis
      proof (cases res)
        case Dtr_Lost
        then show ?thesis using Inr False get rd io assms(3)
          by (simp add: b handle_request_def answered_def)
      next
        case (Finished x)
        obtain ok got where x: "x = (ok, got)" by (cases x)
        have len: "length got = unat ?c" using assms(2) io Finished x unfolding io_ok_def by blast
        then obtain rb' where cp: "copy_into rb 0 got = Some rb'" "length rb' = 16" "slice rb' 0 (unat ?c) = Some got"
          using rd(3) assms(3) by (auto simp: copy_into_def slice_def)
        have "length got \<le> MAX_PAYLOAD" using len rd(3) by simp
        then show ?thesis
          using enc [of got rb' STATUS_OK w'] enc [of "[]" rb' STATUS_BAD_COMMAND w'] Inr False get rd io assms(3) cp Finished x
          by (cases ok) (simp_all add: b handle_request_def)
      qed
    qed
  qed
qed

section \<open>Bytes in, answers out\<close>

text \<open>The session over bytes: what the parser holds afterwards, or \<open>None\<close> after a reset.\<close>

fun serve_stream :: "'w bridge_io \<Rightarrow> bytes \<Rightarrow> bytes \<Rightarrow> 'w \<Rightarrow> bytes option \<times> 'w" where
  "serve_stream io buf [] w = (Some buf, w)"
| "serve_stream io buf (b # bs) w =
     (case feed buf b of
        (Inr (Some r), buf) \<Rightarrow>
          (case reply_and_send io r w of
             (False, w) \<Rightarrow> (None, w)
           | (True, w) \<Rightarrow> serve_stream io buf bs w)
      | (_, buf) \<Rightarrow> serve_stream io buf bs w)"

lemma serve_stream_append:
  "serve_stream io buf (xs @ ys) w =
     (case serve_stream io buf xs w of (None, w) \<Rightarrow> (None, w) | (Some buf, w) \<Rightarrow> serve_stream io buf ys w)"
  by (induction io buf xs w rule: serve_stream.induct) (simp_all split: prod.split sum.split option.split bool.split)

lemma feed_wf:
  assumes "partial_frame buf" and "feed buf b = (Inr (Some r), buf')"
  shows "wf_request r" and "buf' = []"
  using assms wf_decode_frame by (auto simp: feed_def Let_def split: if_splits)

lemma feed_error: "feed buf b = (Inl e, buf') \<Longrightarrow> buf' = []"
  by (auto simp: feed_def Let_def split: if_splits)

definition session_is :: "bytes \<Rightarrow> bytes option \<times> 'w \<Rightarrow> (bridge session \<times> 'w) may_panic \<Rightarrow> bool" where
  "session_is input outcome res \<longleftrightarrow>
     (case outcome of
        (None, w) \<Rightarrow> res = Some (Mcu_Reset, w)
      | (Some buf, w) \<Rightarrow> \<exists>b. res = Some (Going b, w) \<and> bridge_wf b \<and> parser_buf (br_parser b) = buf
          \<and> br_input b = input)"

lemma serve_bytes_stream:
  assumes "bridge_wf b" and "io_ok io"
  shows "session_is (br_input b) (serve_stream io (parser_buf (br_parser b)) bs w) (serve_bytes io bs b w)"
  using assms(1)
proof (induction bs arbitrary: b w)
  case Nil
  then show ?case by (simp add: session_is_def)
next
  case (Cons x bs)
  let ?buf = "parser_buf (br_parser b)"
  have wf: "parser_wf (br_parser b)" "length (br_read b) = 16" "length (br_output b) = MAX_FRAME"
    using Cons.prems by (simp_all add: bridge_wf_def)
  obtain p where p: "push (br_parser b) x = Some (fst (feed ?buf x), p)" "parser_wf p" "parser_buf p = snd (feed ?buf x)"
    using push_feed [OF wf(1), of x] by blast
  obtain res buf where f: "feed ?buf x = (res, buf)" by (cases "feed ?buf x")
  show ?case
  proof (cases res)
    case (Inl e)
    have "parser_wf (parser_reset p)" using p(2) by (intro parser_reset_wf) (simp add: parser_wf_def)
    then have "bridge_wf (b\<lparr>br_parser := parser_reset p\<rparr>)" using Cons.prems by (simp add: bridge_wf_def)
    from Cons.IH [OF this, of w] show ?thesis
      using p f Inl feed_error [OF f [unfolded Inl]] by (simp add: parser_reset_buf)
  next
    case (Inr req)
    show ?thesis
    proof (cases req)
      case None
      have "bridge_wf (b\<lparr>br_parser := p\<rparr>)" using Cons.prems p(2) by (simp add: bridge_wf_def)
      from Cons.IH [OF this, of w] show ?thesis using p f Inr None by simp
    next
      case (Some r)
      have r: "wf_request r" using feed_wf(1) [of ?buf x r buf] wf(1) f Inr Some by (simp add: parser_wf_def)
      note ans = handle_request_answers [OF r assms(2) wf(2,3), of w]
      obtain reply w1 where rep: "bridge_reply io r w = (reply, w1)" by (cases "bridge_reply io r w")
      show ?thesis
      proof (cases reply)
        case Dtr_Lost
        then show ?thesis using ans rep p(1) f Inr Some
          by (simp add: answered_def reply_and_send_def session_is_def)
      next
        case (Finished y)
        obtain status payload where y: "y = (status, payload)" by (cases y)
        obtain rb out where h: "handle_request io r (br_read b) (br_output b) w
            = Some (Going (HEADER_LEN + length payload, rb, out), w1)" "length rb = 16" "length out = MAX_FRAME"
          "slice out 0 (HEADER_LEN + length payload) = Some (reply_frame status (req_sequence r) payload)"
          using ans by (auto simp: answered_def rep Finished y)
        obtain sent w2 where snd: "io_send io (reply_frame status (req_sequence r) payload) w1 = (sent, w2)"
          by (cases "io_send io (reply_frame status (req_sequence r) payload) w1")
        let ?b = "b\<lparr>br_parser := p, br_read := rb, br_output := out\<rparr>"
        have "bridge_wf ?b" using Cons.prems p(2) h(2,3) by (simp add: bridge_wf_def)
        from Cons.IH [OF this, of w2] show ?thesis
          using p f Inr Some h snd rep Finished y
          by (cases sent) (simp_all add: reply_and_send_def session_is_def)
      qed
    qed
  qed
qed

text \<open>The packets of a session, and the polls that bring them.\<close>

fun poll_bytes :: "cdc_poll \<Rightarrow> bytes" where
  "poll_bytes (Received packet) = packet"
| "poll_bytes poll = []"

text \<open>The polls after which the session goes on. The read buffer holds one frame, so a longer packet
  ends it.\<close>

fun poll_lasts :: "cdc_poll \<Rightarrow> bool" where
  "poll_lasts Dtr_Low = False"
| "poll_lasts Timed_Out = True"
| "poll_lasts Read_Failed = False"
| "poll_lasts (Received packet) = (length packet \<le> MAX_FRAME)"

lemma session_isE:
  assumes "session_is input outcome res"
  obtains w where "outcome = (None, w)" "res = Some (Mcu_Reset, w)"
    | buf w b where "outcome = (Some buf, w)" "res = Some (Going b, w)" "bridge_wf b"
        "parser_buf (br_parser b) = buf" "br_input b = input"
  using assms by (auto simp: session_is_def split: prod.splits option.splits)

lemma dtr_session_stream:
  assumes "bridge_wf b" and "io_ok io" and "list_all poll_lasts polls"
  shows "\<exists>input. session_is input
    (serve_stream io (parser_buf (br_parser b)) (concat (map poll_bytes polls)) w) (dtr_session io polls b w)"
  using assms(1,3)
proof (induction polls arbitrary: b w)
  case Nil
  then show ?case by (auto simp: session_is_def)
next
  case (Cons poll polls)
  show ?case
  proof (cases poll)
    case (Received packet)
    have len: "length packet \<le> 21" "length (br_input b) = 21"
      using Cons.prems(1,2) Received by (simp_all add: bridge_wf_def)
    then obtain input where i: "copy_into (br_input b) 0 packet = Some input" "length input = 21"
      "slice input 0 (length packet) = Some packet"
      by (auto simp: copy_into_def slice_def)
    let ?b = "b\<lparr>br_input := input\<rparr>"
    have wf: "bridge_wf ?b" using Cons.prems(1) i(2) by (simp add: bridge_wf_def)
    have "session_is input (serve_stream io (parser_buf (br_parser b)) packet w) (serve_bytes io packet ?b w)"
      using serve_bytes_stream [OF wf assms(2), of packet w] by simp
    then show ?thesis
    proof (cases rule: session_isE)
      case (1 w')
      then show ?thesis using i len Received by (simp add: serve_stream_append session_is_def)
    next
      case (2 buf w' b')
      from Cons.IH [OF 2(3), of w'] Cons.prems(2) show ?thesis
        using i len Received 2 by (simp add: serve_stream_append)
    qed
  qed (use Cons in simp_all)
qed

text \<open>Any list of polls: the session serves the packets before the first poll that ends it.\<close>

lemma dtr_session_append:
  "dtr_session io (ps @ qs) b w =
     dtr_session io ps b w \<bind> (\<lambda>(out, w). case out of Mcu_Reset \<Rightarrow> Some (Mcu_Reset, w) | Going b \<Rightarrow> dtr_session io qs b w)"
proof (induction io ps b w rule: dtr_session.induct)
  case (5 io packet polls b w)
  then show ?case
    by (auto split: session.split prod.split intro!: Option.bind_cong)
qed simp_all

lemma dtr_session_fatal:
  assumes "bridge_wf b" and "\<not> poll_lasts p"
  shows "dtr_session io (p # polls) b w = Some (Mcu_Reset, w)"
  using assms by (cases p) (simp_all add: bridge_wf_def)

lemma dtr_session_polls:
  assumes "bridge_wf b" and "io_ok io"
    and "serve_stream io (parser_buf (br_parser b)) (concat (map poll_bytes (takeWhile poll_lasts polls))) w = (out, w')"
  shows "if out = None \<or> \<not> list_all poll_lasts polls then dtr_session io polls b w = Some (Mcu_Reset, w')
    else \<exists>b'. dtr_session io polls b w = Some (Going b', w') \<and> bridge_wf b' \<and> parser_buf (br_parser b') = the out"
proof -
  let ?ps = "takeWhile poll_lasts polls" let ?qs = "dropWhile poll_lasts polls"
  have "list_all poll_lasts ?ps" by (auto simp: list_all_iff dest: set_takeWhileD)
  from dtr_session_stream [OF assms(1,2) this, of w] assms(3) obtain input
    where s: "session_is input (out, w') (dtr_session io ?ps b w)" by auto
  have whole: "dtr_session io polls b w = dtr_session io ?ps b w
      \<bind> (\<lambda>(out, w). case out of Mcu_Reset \<Rightarrow> Some (Mcu_Reset, w) | Going b \<Rightarrow> dtr_session io ?qs b w)"
    using dtr_session_append [of io ?ps ?qs b w] by simp
  show ?thesis
  proof (cases "list_all poll_lasts polls")
    case True
    then have ps: "?ps = polls" by (simp add: takeWhile_eq_all_conv list_all_iff)
    show ?thesis using s True unfolding ps by (auto simp: session_is_def split: option.splits)
  next
    case False
    then have "?qs \<noteq> []" by (simp add: dropWhile_eq_Nil_conv list_all_iff)
    then obtain q qs where q: "?qs = q # qs" "\<not> poll_lasts q"
      using hd_dropWhile [of poll_lasts polls] by (cases ?qs) auto
    from s show ?thesis
    proof (cases rule: session_isE)
      case (1 w1)
      then show ?thesis using False whole by simp
    next
      case (2 buf w1 b1)
      then show ?thesis using False whole q dtr_session_fatal [OF 2(3) q(2)] by simp
    qed
  qed
qed

lemma feed_prefix:
  assumes "complete_frame g" and "k < length g"
  shows "feed (take k g) (g ! k) =
    (if k + 1 = length g then (Inr (Some (decode_frame g)), []) else (Inr None, take (k + 1) g))"
proof -
  have g: "5 \<le> length g" "g ! 0 = MAGIC" "unat (g ! 2) \<le> 16" "length g = 5 + unat (g ! 2)"
    using assms(1) by (simp_all add: complete_frame_def)
  have f: "take k g @ [g ! k] = take (k + 1) g" using assms(2) by (simp add: take_Suc_conv_app_nth)
  have magic: "\<not> (take k g = [] \<and> g ! k \<noteq> MAGIC)" using g(1,2) by (cases k) auto
  have long: "\<not> (length (take (k + 1) g) = 5 \<and> unat (take (k + 1) g ! 2) > 16)"
    using g(3) by auto
  have "complete_frame (take (k + 1) g) \<longleftrightarrow> k + 1 = length g"
  proof
    assume "complete_frame (take (k + 1) g)"
    then have "length (take (k + 1) g) = 5 + unat (take (k + 1) g ! 2)" "5 \<le> length (take (k + 1) g)"
      by (simp_all add: complete_frame_def)
    moreover from this(2) have "take (k + 1) g ! 2 = g ! 2" by (intro nth_take) simp
    ultimately show "k + 1 = length g" using g(4) assms(2) by (auto simp: min_def split: if_splits)
  qed (use assms(1) in simp)
  moreover have "feed (take k g) (g ! k) =
      (if complete_frame (take (k + 1) g) then (Inr (Some (decode_frame (take (k + 1) g))), [])
       else (Inr None, take (k + 1) g))"
    unfolding feed_def Let_def f if_not_P [OF magic] if_not_P [OF long] ..
  ultimately show ?thesis by simp
qed

lemma serve_frame_from:
  assumes "complete_frame g" and "k < length g"
  shows "serve_stream io (take k g) (drop k g @ rest) w =
    (case reply_and_send io (decode_frame g) w of
       (False, w) \<Rightarrow> (None, w) | (True, w) \<Rightarrow> serve_stream io [] rest w)"
  using assms(2)
proof (induction "length g - k" arbitrary: k)
  case (Suc n)
  have d: "drop k g = g ! k # drop (k + 1) g" using Suc.prems by (simp add: Cons_nth_drop_Suc)
  show ?case
  proof (cases "k + 1 = length g")
    case True
    then show ?thesis using feed_prefix [OF assms(1) Suc.prems] by (simp add: d split: prod.split bool.split)
  next
    case False
    then have "k + 1 < length g" "n = length g - (k + 1)" using Suc by simp_all
    from Suc.hyps(1) [OF this(2,1)] show ?thesis
      using feed_prefix [OF assms(1) Suc.prems] False by (simp add: d)
  qed
qed simp

lemma serve_frame:
  assumes "wf_request r"
  shows "serve_stream io [] (encode_request r @ rest) w =
    (case reply_and_send io r w of (False, w) \<Rightarrow> (None, w) | (True, w) \<Rightarrow> serve_stream io [] rest w)"
proof -
  have c: "complete_frame (encode_request r)" by (rule complete_encode_request [OF assms])
  then have "0 < length (encode_request r)" by (auto simp: complete_frame_def)
  from serve_frame_from [OF c this, of io rest w] show ?thesis
    by (simp add: decode_encode_request [OF assms])
qed

lemma serve_noise: "MAGIC \<notin> set g \<Longrightarrow> serve_stream io [] (g @ rest) w = serve_stream io [] rest w"
  by (induction g) (auto simp: feed_def)

lemma serve_part:
  assumes "complete_frame g" and "k < length g"
  shows "serve_stream io [] (take k g) w = (Some (take k g), w)"
  using assms(2)
proof (induction k)
  case (Suc k)
  have "take (Suc k) g = take k g @ [g ! k]" using Suc.prems by (simp add: take_Suc_conv_app_nth)
  then show ?case using Suc feed_prefix [OF assms(1), of k] by (simp add: serve_stream_append)
qed simp

text \<open>Requests on the line, each after some noise that holds no magic byte.\<close>

definition line_bytes :: "(bytes \<times> request) list \<Rightarrow> bytes" where
  "line_bytes xs = concat (map (\<lambda>(noise, r). noise @ encode_request r) xs)"

lemma line_bytes_Cons: "line_bytes ((noise, r) # xs) = noise @ encode_request r @ line_bytes xs"
  by (simp add: line_bytes_def)

lemma serve_line:
  assumes "\<forall>(noise, r)\<in>set xs. MAGIC \<notin> set noise \<and> wf_request r"
  shows "serve_stream io [] (line_bytes xs) w =
    (case serve_requests io (map snd xs) w of (True, w) \<Rightarrow> (Some [], w) | (False, w) \<Rightarrow> (None, w))"
  using assms
proof (induction xs arbitrary: w)
  case (Cons x xs)
  obtain noise r where x: "x = (noise, r)" by (cases x)
  then have "serve_stream io [] (line_bytes (x # xs)) w =
      (case reply_and_send io r w of (False, w) \<Rightarrow> (None, w) | (True, w) \<Rightarrow> serve_stream io [] (line_bytes xs) w)"
    using Cons.prems by (simp add: line_bytes_Cons serve_noise serve_frame)
  then show ?case using Cons.IH Cons.prems x by (auto split: prod.split bool.split)
qed (simp add: line_bytes_def)

lemma dtr_session_ends:
  assumes "bridge_wf b" and "io_ok io" and "\<not> list_all poll_lasts polls"
  shows "\<exists>w'. dtr_session io polls b w = Some (Mcu_Reset, w')"
proof -
  obtain out w' where "serve_stream io (parser_buf (br_parser b))
      (concat (map poll_bytes (takeWhile poll_lasts polls))) w = (out, w')" by fastforce
  from dtr_session_polls [OF assms(1,2) this] assms(3) show ?thesis by auto
qed

lemma session_answers:
  assumes "bridge_wf b" and "parser_buf (br_parser b) = []" and "io_ok io"
    and "concat (map poll_bytes (takeWhile poll_lasts polls)) = line_bytes xs @ take k (encode_request r)"
    and "\<forall>(noise, r)\<in>set xs. MAGIC \<notin> set noise \<and> wf_request r"
    and "wf_request r" and "k < length (encode_request r)"
  shows "case serve_requests io (map snd xs) w of
      (False, w') \<Rightarrow> dtr_session io polls b w = Some (Mcu_Reset, w')
    | (True, w') \<Rightarrow> if list_all poll_lasts polls
        then \<exists>b'. dtr_session io polls b w = Some (Going b', w') \<and> bridge_wf b'
          \<and> parser_buf (br_parser b') = take k (encode_request r)
        else dtr_session io polls b w = Some (Mcu_Reset, w')"
proof -
  obtain ok w' where r: "serve_requests io (map snd xs) w = (ok, w')" by (cases "serve_requests io (map snd xs) w")
  have "serve_stream io [] (line_bytes xs @ take k (encode_request r)) w
      = (if ok then Some (take k (encode_request r)) else None, w')"
    using serve_part [OF complete_encode_request [OF assms(6)] assms(7)]
    by (cases ok) (simp_all add: serve_stream_append serve_line [OF assms(5)] r)
  then have s: "serve_stream io (parser_buf (br_parser b)) (concat (map poll_bytes (takeWhile poll_lasts polls))) w
      = (if ok then Some (take k (encode_request r)) else None, w')" unfolding assms(2,4) .
  show ?thesis using dtr_session_polls [OF assms(1,3) s] unfolding r by (cases ok) auto
qed

section \<open>Properties\<close>

text \<open>A world for the witnesses: a log of what was written to the I2C bus and sent to the host.\<close>

definition log_io :: "bytes list bridge_io" where
  "log_io = \<lparr>io_write = \<lambda>a bs w. (Finished True, w @ [a # bs]),
     io_read = \<lambda>a n w. (Finished (True, replicate n 7), w), io_send = \<lambda>frame w. (True, w @ [frame])\<rparr>"

definition write_request :: request where
  "write_request = \<lparr>req_command = CMD_I2C_WRITE, req_sequence = 5, req_flags = 0,
     req_payload = [0x42, 9] @ replicate 14 0, req_payload_len = 2\<rparr>"

lemma log_io_ok: "io_ok log_io"
  by (simp add: io_ok_def log_io_def)

lemma write_request_wf: "wf_request write_request" "request_body write_request = [0x42, 9]"
  by (simp_all add: write_request_def wf_request_def request_body_def)

lemma bridge_new_wf: "bridge_wf bridge_new" "parser_buf (br_parser bridge_new) = []"
  by (simp_all add: bridge_wf_def bridge_new_def parser_new_wf parser_new_buf)

text \<open>C32: The bridge answers every request as promised: flags, command, length and address are
  checked in this order with their statuses; a write passes the bytes after the address to the bus, a
  read asks for the given count and returns exactly the bytes read; a failed transfer answers
  BAD_COMMAND without payload; losing DTR during a transfer resets the MCU. The response is a frame
  with the request's sequence number. The handler never panics: its unreachable arm is unreachable.\<close>

theorem bridge_answers_request:
  assumes "wf_request r" and "io_ok io" and "length read_buffer = 16" and "length output = MAX_FRAME"
  shows "case bridge_reply io r w of
      (Dtr_Lost, w') \<Rightarrow> handle_request io r read_buffer output w = Some (Mcu_Reset, w')
    | (Finished (status, payload), w') \<Rightarrow> length payload \<le> MAX_PAYLOAD \<and> (\<exists>rb out.
        handle_request io r read_buffer output w = Some (Going (HEADER_LEN + length payload, rb, out), w')
        \<and> length rb = 16 \<and> length out = MAX_FRAME
        \<and> slice out 0 (HEADER_LEN + length payload) = Some (reply_frame status (req_sequence r) payload))"
  using handle_request_answers [OF assms, of w] unfolding answered_def .

theorem bridge_answers_request_witness:
  "\<exists>rb out. handle_request log_io write_request (replicate 16 0) (replicate 21 0) []
      = Some (Going (5, rb, out), [[0x42, 9]])
    \<and> slice out 0 5 = Some (reply_frame STATUS_OK 5 [])"
proof -
  have "bridge_reply log_io write_request [] = (Finished (STATUS_OK, []), [[0x42, 9]])"
    by (simp add: bridge_reply_def write_request_wf(2) log_io_def) (simp add: write_request_def)
  then show ?thesis
    using bridge_answers_request [OF write_request_wf(1) log_io_ok, of "replicate 16 0" "replicate 21 0" "[]"]
    by (auto simp: write_request_def)
qed

text \<open>C31: The bridge treats what the host sends as a stream of bytes: however it is cut into USB packets
  of at most 21 bytes (the length of the read buffer), with idle polls in between, the bridge answers
  each complete frame in order, one response before the next request is looked at, skips bytes outside
  frames, keeps an incomplete last frame in its parser, and stops at the first answer that cannot be
  sent or transfer that loses DTR. At the first packet of more than 21 bytes, failed read or low DTR it
  resets the MCU, with the frames completed before it answered and nothing after it looked at.
  (REQ-BRIDGE-004 asks the bridge to accept packets of 64 bytes; the code does not.)\<close>

theorem session_serves_frames:
  assumes "bridge_wf b" and "parser_buf (br_parser b) = []" and "io_ok io"
    and "concat (map poll_bytes (takeWhile poll_lasts polls)) = line_bytes xs @ take k (encode_request r)"
    and "\<forall>(noise, r)\<in>set xs. MAGIC \<notin> set noise \<and> wf_request r"
    and "wf_request r" and "k < length (encode_request r)"
  shows "case serve_requests io (map snd xs) w of
      (False, w') \<Rightarrow> dtr_session io polls b w = Some (Mcu_Reset, w')
    | (True, w') \<Rightarrow> if list_all poll_lasts polls
        then \<exists>b'. dtr_session io polls b w = Some (Going b', w') \<and> bridge_wf b'
          \<and> parser_buf (br_parser b') = take k (encode_request r)
        else dtr_session io polls b w = Some (Mcu_Reset, w')"
  by (rule session_answers [OF assms])

text \<open>A frame in two packets, and the first bytes of another before a packet of 22 bytes.\<close>

theorem session_serves_frames_witness:
  "dtr_session log_io [Received [1, 2], Timed_Out, Received (take 3 (encode_request write_request)),
      Received (drop 3 (encode_request write_request)), Received (take 2 (encode_request write_request)),
      Received (replicate 22 0)] bridge_new []
    = Some (Mcu_Reset, [[0x42, 9], reply_frame STATUS_OK 5 []])"
proof -
  let ?polls = "[Received [1, 2], Timed_Out, Received (take 3 (encode_request write_request)),
      Received (drop 3 (encode_request write_request)), Received (take 2 (encode_request write_request)),
      Received (replicate 22 0)]"
  have len: "length (encode_request write_request) = 7"
    using length_encode_request [OF write_request_wf(1)] by (simp add: write_request_def)
  then have bs: "concat (map poll_bytes (takeWhile poll_lasts ?polls))
      = line_bytes [([1, 2], write_request)] @ take 2 (encode_request write_request)"
    and k: "2 < length (encode_request write_request)" by (simp_all add: line_bytes_def)
  have noise: "\<forall>(noise, r)\<in>set [([1, 2], write_request)]. MAGIC \<notin> set noise \<and> wf_request r"
    using write_request_wf(1) by (simp add: MAGIC_def)
  have "serve_requests log_io (map snd [([1, 2 :: u8], write_request)]) []
      = (True, [[0x42, 9], reply_frame STATUS_OK 5 []])"
    by (simp add: reply_and_send_def bridge_reply_def write_request_wf(2) log_io_def) (simp add: write_request_def)
  then show ?thesis
    using session_serves_frames [OF bridge_new_wf log_io_ok bs noise write_request_wf(1) k, of "[]"] by simp
qed

text \<open>C36: A session ends in a reset and in nothing else: when DTR is seen low, a CDC read fails or a
  packet is longer than the read buffer, whatever came before, the connection ends with the MCU reset;
  it does not panic.\<close>

theorem connection_ends_in_reset:
  assumes "bridge_wf b" and "io_ok io" and "\<not> list_all poll_lasts polls"
  shows "\<exists>w'. connection io polls b w = Some (Mcu_Reset, w')"
proof -
  have "parser_wf (parser_reset (br_parser b))"
    using assms(1) by (intro parser_reset_wf) (simp add: bridge_wf_def parser_wf_def)
  then have "bridge_wf (b\<lparr>br_parser := parser_reset (br_parser b)\<rparr>)" using assms(1) by (simp add: bridge_wf_def)
  from dtr_session_ends [OF this assms(2,3)] show ?thesis
    by (auto simp: connection_def split: prod.split bool.split)
qed

theorem connection_ends_in_reset_witness:
  "\<exists>w'. connection log_io [Received [1, 2], Dtr_Low] bridge_new [] = Some (Mcu_Reset, w')"
  using connection_ends_in_reset [OF bridge_new_wf(1) log_io_ok, of "[Received [1, 2], Dtr_Low]" "[]"] by simp

end
