(* ===== verification/Test_Bench.thy ===== *)
theory Test_Bench
  imports Device_Refinement I2c_Bridge
begin

text \<open>
  The two boards together, as the test harness uses them: the host writes a request frame of the
  target through the bridge with an I2C write, and reads the answer with an I2C read. The bus and the
  generated slave driver between the boards are a parameter, with what the specification
  (\<^verbatim>\<open>specs/optibridge/requirements.md\<close>, REQ-OPT-FW-009 to -013) says of them in
  \<open>link_ok\<close>.
\<close>

section \<open>The bench\<close>

record ('i, 'f) bench =
  be_target :: "main_pc \<times> ('i, 'f) firmware"
  be_sent :: "bytes list"

abbreviation be_tx :: "('i, 'f) bench \<Rightarrow> bytes list" where
  "be_tx w \<equiv> fw_tx (snd (be_target w))"

definition target_address :: u8 where "target_address = 0x42"

text \<open>The target's main loop goes on by some steps.\<close>

definition goes_on ::
    "('i::linorder, 'e, 'f) platform \<Rightarrow> main_pc \<times> ('i, 'f) firmware \<Rightarrow> main_pc \<times> ('i, 'f) firmware \<Rightarrow> bool" where
  "goes_on pl st st' \<longleftrightarrow> (\<exists>as. list_all is_main as \<and> fw_run pl as st = Some st')"

text \<open>A frame written to the target's address is acknowledged and delivered as one packet; a read
  returns the newest response, filled up with zeros; the host takes what the bridge sends. The
  target's main loop may go on meanwhile. A packet whose handler may not return (a Start of a program
  that runs forever) is not assumed to be acknowledged.\<close>

definition returns :: "('i::linorder, 'e, 'f) platform \<Rightarrow> request \<Rightarrow> main_pc \<times> ('i, 'f) firmware \<Rightarrow> bool" where
  "returns pl r st \<longleftrightarrow> (\<forall>st1. goes_on pl st st1 \<longrightarrow> fw_step pl (Packet (encode_request r) False) st1 \<noteq> None)"

definition link_ok :: "('i::linorder, 'e, 'f) platform \<Rightarrow> ('i, 'f) bench bridge_io \<Rightarrow> bool" where
  "link_ok pl io \<longleftrightarrow> (\<forall>w. fw_reachable pl (be_target w) \<longrightarrow>
     (\<forall>r. wf_request r \<and> returns pl r (be_target w) \<longrightarrow> (\<exists>w' st1 st2.
        io_write io target_address (encode_request r) w = (Finished True, w') \<and> be_sent w' = be_sent w
        \<and> goes_on pl (be_target w) st1 \<and> fw_step pl (Packet (encode_request r) False) st1 = Some st2
        \<and> goes_on pl st2 (be_target w')))
     \<and> (\<forall>n. be_tx w \<noteq> [] \<longrightarrow> (\<exists>w'. io_read io target_address n w
          = (Finished (True, take n (last (be_tx w) @ replicate n 0)), w')
        \<and> be_sent w' = be_sent w \<and> goes_on pl (be_target w) (be_target w')))
     \<and> (\<forall>frame. \<exists>w'. io_send io frame w = (True, w') \<and> be_sent w' = be_sent w @ [frame]
        \<and> goes_on pl (be_target w) (be_target w')))"

section \<open>The target goes on\<close>

lemma goes_on_reachable: "fw_reachable pl st \<Longrightarrow> goes_on pl st st' \<Longrightarrow> fw_reachable pl st'"
  by (auto simp: goes_on_def intro: fw_reachable_run)

lemma goes_on_refl: "goes_on pl st st"
  unfolding goes_on_def by (intro exI [of _ "[]"]) simp

lemma main_step_output:
  assumes "main_step pl star2 st = Some st'" and "\<not> fw_reset_pending (snd st)"
  shows "fw_tx (snd st') = fw_tx (snd st) \<and> \<not> fw_reset_pending (snd st')"
  using assms
  by (cases st; cases "fst st")
    (auto simp: main_step_def timer_event_step_def bind_some_iff tick_def set_timer_def
      split: if_split_asm option.split_asm prod.split_asm bool.split_asm main_pc.split_asm)

lemma goes_on_output:
  assumes "goes_on pl st st'" and "\<not> fw_reset_pending (snd st)"
  shows "fw_tx (snd st') = fw_tx (snd st) \<and> \<not> fw_reset_pending (snd st')"
proof -
  have "list_all is_main as \<Longrightarrow> fw_run pl as st = Some st' \<Longrightarrow> \<not> fw_reset_pending (snd st)
      \<Longrightarrow> fw_tx (snd st') = fw_tx (snd st) \<and> \<not> fw_reset_pending (snd st')" for as
  proof (induction as arbitrary: st)
    case (Cons a as)
    then obtain star2 st1 where a: "a = Main_Step star2" "main_step pl star2 st = Some st1" "fw_run pl as st1 = Some st'"
      by (cases a) (auto simp: fw_step_def bind_some_iff)
    from main_step_output [OF a(2) Cons.prems(3)] Cons.IH [OF _ a(3)] Cons.prems(1) show ?case by simp
  qed simp
  then show ?thesis using assms by (auto simp: goes_on_def)
qed

text \<open>Every reachable state of the target shows some state of the device.\<close>

lemma reachable_device:
  assumes "platform_ok pl stack" and "fw_reachable pl st"
  shows "\<exists>d. fw_reflects pl d (snd st)"
  using assms(2)
proof (induction rule: fw_reachable.induct)
  case (power_on ram clock flash st)
  then show ?case using startup_device [OF assms(1), of ram clock flash "fst st" "snd st"] by auto
next
  case (action st a st')
  then obtain d where d: "fw_reflects pl d (snd st)" by blast
  have inv: "fw_inv pl stack st" by (rule fw_reachable_inv [OF assms(1) action(1)])
  have "fw_run pl [a] st = Some st'" using action(2) by simp
  from run_trace [OF assms(1) inv d this] show ?case by blast
qed

text \<open>What the target queues for a request.\<close>

definition target_answer :: "device \<Rightarrow> request \<Rightarrow> bytes" where
  "target_answer d r = (if dv_executing d \<and> req_command r \<noteq> CMD_RESET
     then reply_frame STATUS_BUSY (req_sequence r) [] else answer_of r (device_answer d r))"

lemma delivered_packet:
  assumes "platform_ok pl stack" and "fw_reachable pl (pc, fw)" and "fw_reflects pl d fw"
    and "wf_request r" and "\<not> resets r" and "\<not> starts r"
  shows "\<exists>fw'. fw_step pl (Packet (encode_request r) False) (pc, fw) = Some (pc, fw')
    \<and> fw_tx fw' = fw_tx fw @ [target_answer d r] \<and> fw_reset_pending fw' = fw_reset_pending fw"
proof -
  have wf: "fw_wf pl fw" using fw_reachable_inv [OF assms(1,2)] by (simp add: fw_inv_def)
  have parse: "parse_packet (encode_request r) False = Some (Some r)" by (rule parse_packet_single [OF assms(4)])
  have ex: "dv_executing d = fw_active fw" "dv_reset d = fw_reset_pending fw" using assms(3) by (simp_all add: fw_reflects_def)
  show ?thesis
  proof (cases "fw_active fw \<and> req_command r \<noteq> CMD_RESET")
    case True
    then show ?thesis using packet_busy [OF wf _ parse] ex by (auto simp: fw_step_def target_answer_def)
  next
    case False
    from answered_packet [OF assms(1) wf assms(3) parse False assms(5)] assms(6) obtain fw'
      where "on_i2c_packet pl (encode_request r) False fw = Some fw'"
        "fw_tx fw' = fw_tx fw @ [answer_of r (device_answer d r)]"
        "fw_reflects pl (snd (snd (device_answer d r))) fw'" by blast
    then show ?thesis using False ex by (auto simp: fw_step_def target_answer_def fw_reflects_def device_answer_flags)
  qed
qed

text \<open>So the handler returns for every request but a Start.\<close>

lemma delivery_returns:
  assumes "platform_ok pl stack" and "fw_reachable pl st" and "wf_request r" and "\<not> starts r"
  shows "returns pl r st"
  unfolding returns_def
proof (intro allI impI)
  fix st1
  assume g: "goes_on pl st st1"
  obtain pc fw where st1: "st1 = (pc, fw)" by (cases st1)
  have reach: "fw_reachable pl (pc, fw)" using goes_on_reachable [OF assms(2) g] st1 by simp
  obtain d where d: "fw_reflects pl d fw" using reachable_device [OF assms(1) reach] by auto
  show "fw_step pl (Packet (encode_request r) False) st1 \<noteq> None"
  proof (cases "resets r")
    case True
    then show ?thesis using packet_reset [OF parse_packet_single [OF assms(3)] True, of pl fw] by (simp add: st1 fw_step_def)
  next
    case False
    then show ?thesis using delivered_packet [OF assms(1) reach d assms(3) False assms(4)] st1 by auto
  qed
qed

lemma exchanged_packet:
  assumes "platform_ok pl stack" and "fw_reachable pl (pc, fw)" and "fw_reflects pl d fw"
    and "wf_request r" and "\<not> resets r" and "fw_step pl (Packet (encode_request r) False) (pc, fw) = Some st2"
  shows "\<exists>answer d'. dev_exchange d (encode_request r) False [answer] d' \<and> (\<not> starts r \<longrightarrow> answer = target_answer d r)
    \<and> fw_tx (snd st2) = fw_tx fw @ [answer] \<and> fw_reset_pending (snd st2) = fw_reset_pending fw"
proof -
  have wf: "fw_wf pl fw" using fw_reachable_inv [OF assms(1,2)] by (simp add: fw_inv_def)
  have parse: "parse_packet (encode_request r) False = Some (Some r)" by (rule parse_packet_single [OF assms(4)])
  obtain fw' where p: "on_i2c_packet pl (encode_request r) False fw = Some fw'" "st2 = (pc, fw')"
    using assms(6) by (auto simp: fw_step_def)
  obtain frames d' where tx: "fw_tx fw' = fw_tx fw @ frames" and ex: "dev_exchange d (encode_request r) False frames d'"
    and r: "fw_reflects pl d' fw'" using packet_exchange [OF assms(1) wf assms(3) p(1)] by blast
  from ex have one: "\<exists>answer. frames = [answer] \<and> (\<not> starts r \<longrightarrow> answer = target_answer d r) \<and> dv_reset d' = dv_reset d"
    using assms(5) parse by (cases rule: dev_exchange.cases) (auto simp: target_answer_def device_answer_flags)
  then show ?thesis using ex tx r assms(3) p(2) by (auto simp: fw_reflects_def)
qed

section \<open>One exchange over the bridge\<close>

lemma bridged_write:
  assumes "platform_ok pl stack" and "link_ok pl io" and "fw_reachable pl (be_target w)"
    and "\<not> fw_reset_pending (snd (be_target w))" and "wf_request r" and "\<not> resets r" and "returns pl r (be_target w)"
    and "req_flags wr = 0" and "req_command wr = CMD_I2C_WRITE"
    and "request_body wr = target_address # encode_request r"
  shows "\<exists>w' d fw1 answer d'. reply_and_send io wr w = (True, w')
    \<and> be_sent w' = be_sent w @ [reply_frame STATUS_OK (req_sequence wr) []]
    \<and> fw_reachable pl (be_target w') \<and> (\<exists>pc. goes_on pl (be_target w) (pc, fw1)) \<and> fw_reflects pl d fw1
    \<and> dev_exchange d (encode_request r) False [answer] d' \<and> (\<not> starts r \<longrightarrow> answer = target_answer d r)
    \<and> be_tx w' = fw_tx fw1 @ [answer]"
proof -
  from assms(2,3,5,7) obtain w1 st1 st2 where wr: "io_write io target_address (encode_request r) w = (Finished True, w1)"
    "be_sent w1 = be_sent w" and g1: "goes_on pl (be_target w) st1"
    and p: "fw_step pl (Packet (encode_request r) False) st1 = Some st2" and g2: "goes_on pl st2 (be_target w1)"
    unfolding link_ok_def by metis
  obtain pc fw1 where st1: "st1 = (pc, fw1)" by (cases st1)
  have r1: "fw_reachable pl (pc, fw1)" using goes_on_reachable [OF assms(3) g1] by (simp add: st1)
  obtain d where d: "fw_reflects pl d fw1" using reachable_device [OF assms(1) r1] by auto
  from exchanged_packet [OF assms(1) r1 d assms(5,6) p [unfolded st1]] obtain answer d'
    where ex: "dev_exchange d (encode_request r) False [answer] d'" "\<not> starts r \<longrightarrow> answer = target_answer d r"
    and tx2: "fw_tx (snd st2) = fw_tx fw1 @ [answer]"
    and rp2: "fw_reset_pending (snd st2) = fw_reset_pending fw1" by blast
  have rp1: "\<not> fw_reset_pending fw1" using goes_on_output [OF g1 assms(4)] by (simp add: st1)
  have r2: "fw_reachable pl st2" using fw_reachable.action r1 p unfolding st1 by blast
  note out1 = goes_on_output [OF g2] and reach1 = goes_on_reachable [OF r2 g2]
  from assms(2) reach1 obtain w' where s: "io_send io (reply_frame STATUS_OK (req_sequence wr) []) w1 = (True, w')"
    "be_sent w' = be_sent w1 @ [reply_frame STATUS_OK (req_sequence wr) []]" and g3: "goes_on pl (be_target w1) (be_target w')"
    unfolding link_ok_def by metis
  have "reply_and_send io wr w = (True, w')"
    using assms(8-10) wr(1) s(1)
    by (simp add: reply_and_send_def bridge_reply_def target_address_def command_codes)
  moreover have "be_tx w' = fw_tx fw1 @ [answer]"
    using out1 tx2 rp1 rp2 goes_on_output [OF g3] by simp
  ultimately show ?thesis
    using s(2) wr(2) goes_on_reachable [OF reach1 g3] g1 d ex unfolding st1 by auto
qed

lemma bridged_read:
  assumes "link_ok pl io" and "fw_reachable pl (be_target w)" and "be_tx w \<noteq> []"
    and "req_flags rd = 0" and "req_command rd = CMD_I2C_READ" and "request_body rd = [target_address, n]" and "unat n \<le> 16"
  shows "\<exists>w'. reply_and_send io rd w = (True, w') \<and> be_sent w' = be_sent w @ [reply_frame STATUS_OK (req_sequence rd)
      (take (unat n) (last (be_tx w) @ replicate (unat n) 0))]"
proof -
  let ?got = "take (unat n) (last (be_tx w) @ replicate (unat n) 0)"
  from assms(1-3) obtain w1 where rd: "io_read io target_address (unat n) w = (Finished (True, ?got), w1)"
    "be_sent w1 = be_sent w" and g: "goes_on pl (be_target w) (be_target w1)"
    unfolding link_ok_def by blast
  from assms(1) goes_on_reachable [OF assms(2) g] obtain w' where
    s: "io_send io (reply_frame STATUS_OK (req_sequence rd) ?got) w1 = (True, w')"
      "be_sent w' = be_sent w1 @ [reply_frame STATUS_OK (req_sequence rd) ?got]"
    unfolding link_ok_def by blast
  have "reply_and_send io rd w = (True, w')"
    using assms(4-7) rd(1) s(1)
    by (simp add: reply_and_send_def bridge_reply_def target_address_def command_codes)
  then show ?thesis using s(2) rd(2) by simp
qed

section \<open>A bench to try things on\<close>

text \<open>The target of the earlier witnesses, with a bus that delivers at once.\<close>

definition sample_bench_io :: "(nat, fake_flash) bench bridge_io" where
  "sample_bench_io = \<lparr>io_write = \<lambda>a bs w. (case fw_step sample_platform (Packet bs False) (be_target w) of
       None \<Rightarrow> (Finished False, w) | Some st \<Rightarrow> (Finished True, w\<lparr>be_target := st\<rparr>)),
     io_read = \<lambda>a n w. (Finished (True, take n ((if be_tx w = [] then [] else last (be_tx w)) @ replicate n 0)), w),
     io_send = \<lambda>frame w. (True, w\<lparr>be_sent := be_sent w @ [frame]\<rparr>)\<rparr>"

lemma sample_bench_ok: "io_ok sample_bench_io" "link_ok sample_platform sample_bench_io"
proof -
  show "io_ok sample_bench_io" by (auto simp: io_ok_def sample_bench_io_def)
  have "\<exists>st'. fw_step sample_platform (Packet (encode_request r) False) st = Some st'" if "returns sample_platform r st" for r st
    using that goes_on_refl [of sample_platform st] unfolding returns_def by blast
  then show "link_ok sample_platform sample_bench_io"
    unfolding link_ok_def by (fastforce simp: sample_bench_io_def intro: goes_on_refl)
qed

text \<open>A bridge request with a given payload.\<close>

definition bridge_request :: "u8 \<Rightarrow> u8 \<Rightarrow> bytes \<Rightarrow> request" where
  "bridge_request command sq body = (load_request body)\<lparr>req_command := command, req_sequence := sq\<rparr>"

lemma bridge_request_wf:
  assumes "length body \<le> 16"
  shows "wf_request (bridge_request command sq body)" and "request_body (bridge_request command sq body) = body"
    and "req_flags (bridge_request command sq body) = 0" and "req_command (bridge_request command sq body) = command"
    and "req_sequence (bridge_request command sq body) = sq"
  using load_request_wf [OF assms]
  by (simp_all add: bridge_request_def wf_request_def request_body_def load_request_def request_empty_def)

section \<open>Property\<close>

text \<open>C3: End to end: a host that sends the bridge a write of a request frame, other than a Reset, and then
  a read gets, as the two answers on its serial line, an acknowledgement and the first bytes of what the
  device answers the request, filled up with zeros. It does so however the bytes are cut into USB
  packets of at most 21 bytes and whatever the target's main loop does meanwhile, if no reset is
  pending on the target and, for a Start, the program returns. The device is one that shows the target
  at the moment the packet arrives; its answer is determined for every request but a Start, which is
  answered OK or BAD_COMMAND.\<close>

theorem host_reaches_device:
  assumes "platform_ok pl stack" and "link_ok pl io" and "io_ok io"
    and "fw_reachable pl (be_target w)" and "\<not> fw_reset_pending (snd (be_target w))"
    and "wf_request r" and "\<not> resets r" and "returns pl r (be_target w)"
    and "wf_request wr" and "req_flags wr = 0" and "req_command wr = CMD_I2C_WRITE"
    and "request_body wr = target_address # encode_request r"
    and "wf_request rd" and "req_flags rd = 0" and "req_command rd = CMD_I2C_READ"
    and "request_body rd = [target_address, n]" and "unat n \<le> 16"
    and "bridge_wf b" and "parser_buf (br_parser b) = []"
    and "list_all poll_lasts polls"
    and "concat (map poll_bytes polls) = encode_request wr @ encode_request rd"
  shows "\<exists>b' w' d pc fw answer d'. dtr_session io polls b w = Some (Going b', w') \<and> bridge_wf b'
    \<and> goes_on pl (be_target w) (pc, fw) \<and> fw_reflects pl d fw
    \<and> dev_exchange d (encode_request r) False [answer] d' \<and> (\<not> starts r \<longrightarrow> answer = target_answer d r)
    \<and> be_sent w' = be_sent w @ [reply_frame STATUS_OK (req_sequence wr) [],
        reply_frame STATUS_OK (req_sequence rd) (take (unat n) (answer @ replicate (unat n) 0))]"
proof -
  from bridged_write [OF assms(1,2,4-8,10-12)] obtain w1 d fw pc answer d' where w1: "reply_and_send io wr w = (True, w1)"
    "be_sent w1 = be_sent w @ [reply_frame STATUS_OK (req_sequence wr) []]" "fw_reachable pl (be_target w1)"
    and d: "goes_on pl (be_target w) (pc, fw)" "fw_reflects pl d fw"
    "dev_exchange d (encode_request r) False [answer] d'" "\<not> starts r \<longrightarrow> answer = target_answer d r"
    and tx: "be_tx w1 = fw_tx fw @ [answer]" by blast
  have "be_tx w1 \<noteq> []" using tx by simp
  from bridged_read [OF assms(2) w1(3) this assms(14-17)] tx obtain w2 where w2: "reply_and_send io rd w1 = (True, w2)"
    "be_sent w2 = be_sent w1 @ [reply_frame STATUS_OK (req_sequence rd)
      (take (unat n) (answer @ replicate (unat n) 0))]" by auto
  let ?xs = "[([], wr), ([], rd)]"
  have tw: "takeWhile poll_lasts polls = polls" using assms(20) by (simp add: takeWhile_eq_all_conv list_all_iff)
  have bs: "concat (map poll_bytes (takeWhile poll_lasts polls)) = line_bytes ?xs @ take 0 (encode_request rd)"
    using assms(21) unfolding tw by (simp add: line_bytes_def)
  have wf: "\<forall>(noise, r)\<in>set ?xs. MAGIC \<notin> set noise \<and> wf_request r" using assms(9,13) by simp
  have k: "0 < length (encode_request rd)" using length_encode_request [OF assms(13)] by simp
  have "serve_requests io (map snd ?xs) w = (True, w2)" using w1(1) w2(1) by simp
  with session_answers [OF assms(18,19,3) bs wf assms(13) k, of w] assms(20) obtain b'
    where "dtr_session io polls b w = Some (Going b', w2)" "bridge_wf b'" by auto
  then show ?thesis using d w1(2) w2(2)
    by (intro exI [of _ b'] exI [of _ w2] exI [of _ d] exI [of _ pc] exI [of _ fw] exI [of _ answer] exI [of _ d']) simp
qed

theorem host_reaches_device_witness:
  "\<exists>fw b' w' d fw1. fw_reachable sample_platform (Top, fw) \<and> fw_reflects sample_platform d fw1
     \<and> dtr_session sample_bench_io
         [Received (encode_request (bridge_request CMD_I2C_WRITE 1 (0x42 # encode_request (bare_request CMD_QUERY_BPF_CRC 9)))),
          Timed_Out, Received (encode_request (bridge_request CMD_I2C_READ 2 [0x42, 9]))]
         bridge_new \<lparr>be_target = (Top, fw), be_sent = []\<rparr> = Some (Going b', w')
     \<and> be_sent w' = [reply_frame STATUS_OK 1 [], reply_frame STATUS_OK 2
         (take 9 (target_answer d (bare_request CMD_QUERY_BPF_CRC 9) @ replicate 9 0))]"
proof -
  let ?q = "bare_request CMD_QUERY_BPF_CRC 9"
  let ?wr = "bridge_request CMD_I2C_WRITE 1 (0x42 # encode_request ?q)" let ?rd = "bridge_request CMD_I2C_READ 2 [0x42, 9]"
  let ?polls = "[Received (encode_request ?wr), Timed_Out, Received (encode_request ?rd)]"
  obtain fw where s: "startup sample_platform sample_ram (sconst 0) sample_flash = Some (Top, fw)"
    and rp: "\<not> fw_reset_pending fw" using powered_state by blast
  let ?w = "\<lparr>be_target = (Top, fw), be_sent = []\<rparr>"
  have reach: "fw_reachable sample_platform (be_target ?w)" "\<not> fw_reset_pending (snd (be_target ?w))"
    using powered_inv(1) [OF s] rp by simp_all
  have q: "length (encode_request ?q) = 5" using length_encode_request [OF bare_request_wf(1)] by (simp add: bare_request_wf)
  have nq: "\<not> resets ?q" "\<not> starts ?q" by (simp_all add: resets_def starts_def bare_request_wf command_codes)
  have l: "length (0x42 # encode_request ?q) \<le> 16" "length [0x42, 9 :: u8] \<le> 16" using q by simp_all
  note wr = bridge_request_wf [OF l(1), of CMD_I2C_WRITE 1] and rd = bridge_request_wf [OF l(2), of CMD_I2C_READ 2]
  have body: "request_body ?wr = target_address # encode_request ?q" "request_body ?rd = [target_address, 9]"
    using wr(2) rd(2) by (simp_all add: target_address_def)
  have len: "length (encode_request ?wr) \<le> 21" "length (encode_request ?rd) \<le> 21"
    using length_encode_request [OF wr(1)] length_encode_request [OF rd(1)] wr(1) rd(1) by (simp_all add: wf_request_def)
  have polls: "list_all poll_lasts ?polls"
    "concat (map poll_bytes ?polls) = encode_request ?wr @ encode_request ?rd" using len by simp_all
  have n: "unat (9 :: u8) \<le> 16" by simp
  have ret: "returns sample_platform ?q (be_target ?w)"
    by (rule delivery_returns [OF sample_platform_ok reach(1) bare_request_wf(1) nq(2)])
  from host_reaches_device [OF sample_platform_ok sample_bench_ok(2,1) reach bare_request_wf(1) nq(1) ret
      wr(1,3,4) body(1) rd(1,3,4) body(2) n bridge_new_wf polls] nq(2)
  obtain b' w' d fw1 where "dtr_session sample_bench_io ?polls bridge_new ?w = Some (Going b', w')"
    "fw_reflects sample_platform d fw1" "be_sent w' = be_sent ?w @ [reply_frame STATUS_OK (req_sequence ?wr) [],
        reply_frame STATUS_OK (req_sequence ?rd) (take (unat (9 :: u8)) (target_answer d ?q @ replicate (unat (9 :: u8)) 0))]"
    by blast
  then show ?thesis using reach(1) wr(5) rd(5)
    by (intro exI [of _ fw] exI [of _ b'] exI [of _ w'] exI [of _ d] exI [of _ fw1]) simp
qed

end
