(* ===== verification/Bus_Load.thy ===== *)
theory Bus_Load
  imports Firmware_Properties
begin

text \<open>
  A whole load over the wire: the host's frames arrive in the I2C callback, and after each of them the
  main loop goes round once and carries the operation out. The same payloads as in
  \<open>Host_Load\<close>, now through the packet parser, the dispatcher, the reply frames and the
  main loop.
\<close>

section \<open>Frames and actions\<close>

definition numbered :: "u8 \<Rightarrow> request \<Rightarrow> request" where
  "numbered sq r = r\<lparr>req_sequence := sq\<rparr>"

definition load_frame :: "u8 \<Rightarrow> bytes \<Rightarrow> bytes" where
  "load_frame sq payload = encode_request (numbered sq (load_request payload))"

definition query_frame :: "u8 \<Rightarrow> bytes" where
  "query_frame sq = encode_request (bare_request CMD_QUERY_BPF_CRC sq)"

text \<open>Once round the main loop, from \<open>Top\<close> with an operation pending back to \<open>Top\<close>.\<close>

definition loop_round :: "u16 stream \<Rightarrow> fw_action list" where
  "loop_round star2 = replicate 6 (Main_Step star2)"

fun load_actions :: "u16 stream \<Rightarrow> u8 \<Rightarrow> bytes list \<Rightarrow> fw_action list" where
  "load_actions star2 sq [] = []"
| "load_actions star2 sq (p # ps) =
     Packet (load_frame sq p) False # loop_round star2 @ load_actions star2 (sq + 1) ps"

fun ok_replies :: "u8 \<Rightarrow> nat \<Rightarrow> bytes list" where
  "ok_replies sq 0 = []"
| "ok_replies sq (Suc n) = reply_frame STATUS_OK sq [] # ok_replies (sq + 1) n"

definition query_reply :: "u8 \<Rightarrow> (u8, u32) rust_result \<Rightarrow> bytes" where
  "query_reply sq res =
     (case res of Inr crc \<Rightarrow> reply_frame STATUS_OK sq (to_le_bytes 4 crc) | Inl status \<Rightarrow> reply_frame status sq [])"

section \<open>Load and Query packets\<close>

lemma load_frame_parse:
  assumes "length p \<le> 16"
  shows "parse_packet (load_frame sq p) False = Some (Some (numbered sq (load_request p)))"
proof -
  have "wf_request (numbered sq (load_request p))"
    using load_request_wf(1) [OF assms] by (simp add: wf_request_def numbered_def)
  then show ?thesis unfolding load_frame_def by (rule parse_packet_single)
qed

lemma accepts_numbered: "accepts_load ld (numbered sq r) = accepts_load ld r"
  by (simp add: accepts_load_def numbered_def)

lemma load_packet:
  assumes "fw_wf pl fw" and "\<not> fw_active fw" and "length p \<le> 16"
    and "accepts_load (fw_loader fw) (load_request p) = Some (Inr (), ld)"
  shows "\<exists>out. length out = MAX_FRAME \<and> on_i2c_packet pl (load_frame sq p) False fw
    = Some (fw\<lparr>fw_protocol := (fw_protocol fw)\<lparr>ps_loader := ld, ps_response := out\<rparr>,
               fw_tx := fw_tx fw @ [reply_frame STATUS_OK sq []]\<rparr>)"
proof -
  let ?r = "numbered sq (load_request p)" let ?s = "request_state pl fw"
  have "dispatch_with_bpf_and_executor ex ?r ?s = handle_load ?r ?s" for ex
    by (simp add: dispatch_with_bpf_and_executor_def numbered_def load_request_def command_codes)
  moreover have "handle_load ?r ?s = respond ?r (?s\<lparr>ds_loader := ld\<rparr>) STATUS_OK []"
    using assms(4) by (simp add: handle_load_def accepts_numbered request_state_def)
  ultimately show ?thesis
    using packet_responds [OF _ load_frame_parse [OF assms(3), of sq], of fw pl ld STATUS_OK "[]"] assms(1,2)
    by (simp add: fw_wf_def numbered_def)
qed

lemma query_packet:
  assumes "fw_wf pl fw" and "\<not> fw_active fw"
  shows "\<exists>fw'. on_i2c_packet pl (query_frame sq) False fw = Some fw' \<and> fw_flash fw' = fw_flash fw
    \<and> fw_tx fw' = fw_tx fw @ [query_reply sq (query (fw_loader fw))]"
proof -
  let ?r = "bare_request CMD_QUERY_BPF_CRC sq" let ?s = "request_state pl fw"
  let ?status = "case query (fw_loader fw) of Inr crc \<Rightarrow> STATUS_OK | Inl status \<Rightarrow> status"
  let ?payload = "case query (fw_loader fw) of Inr crc \<Rightarrow> to_le_bytes 4 crc | Inl status \<Rightarrow> []"
  have parse: "parse_packet (query_frame sq) False = Some (Some ?r)"
    unfolding query_frame_def by (rule parse_packet_single [OF bare_request_wf(1)])
  have same: "?s\<lparr>ds_loader := fw_loader fw\<rparr> = ?s" by (simp add: request_state_def)
  have "dispatch_with_bpf_and_executor ex ?r ?s = respond ?r (?s\<lparr>ds_loader := fw_loader fw\<rparr>) ?status ?payload" for ex
    unfolding same
    by (simp add: dispatch_with_bpf_and_executor_def handle_query_def bare_request_wf command_codes request_state_def
        split: sum.split)
  moreover have "length ?payload \<le> MAX_PAYLOAD" by (simp add: MAX_PAYLOAD_def split: sum.split)
  ultimately obtain out where "on_i2c_packet pl (query_frame sq) False fw
      = Some (fw\<lparr>fw_protocol := (fw_protocol fw)\<lparr>ps_loader := fw_loader fw, ps_response := out\<rparr>,
                 fw_tx := fw_tx fw @ [reply_frame ?status (req_sequence ?r) ?payload]\<rparr>)"
    using packet_responds [OF _ parse, of fw pl "fw_loader fw" ?status ?payload] assms by (auto simp: fw_wf_def)
  moreover have "reply_frame ?status (req_sequence ?r) ?payload = query_reply sq (query (fw_loader fw))"
    by (simp add: query_reply_def bare_request_wf split: sum.split)
  ultimately show ?thesis by simp
qed

section \<open>Once round the main loop\<close>

lemma disarmed_timer: "alarm_of t = Disarmed \<longleftrightarrow> ts_pending t = None \<and> ts_ready t = None"
  by (auto simp: alarm_of_def split: option.splits)

lemma round_executes:
  assumes "\<not> fw_reset_pending fw" and "ld_pending (fw_loader fw) \<noteq> None" and "alarm_of (fw_timer fw) = Disarmed"
    and "wait_for_i2c_bus_idle star2"
    and "execute_pending (pl_storage pl) (fw_loader fw) (fw_flash fw) = Some (ld, f)"
  shows "\<exists>fw'. fw_run pl (loop_round star2) (Top, fw) = Some (Top, fw')
    \<and> fw_loader fw' = ld \<and> fw_flash fw' = f \<and> fw_tx fw' = fw_tx fw
    \<and> \<not> fw_reset_pending fw' \<and> alarm_of (fw_timer fw') = Disarmed"
proof -
  have six: "replicate 6 x = [x, x, x, x, x, x]" for x :: fw_action by (simp add: numeral_eq_Suc)
  have "ts_pending (fw_timer fw) = None" "ts_ready (fw_timer fw) = None"
    using assms(3) by (simp_all add: disarmed_timer)
  then show ?thesis
    using assms(1,2,4,5)
    by (simp add: loop_round_def six fw_step_def main_step_def has_pending_def poll_timer_def set_timer_def tick_def
        take_ready_timer_def wait_for_timer_or_work_def disarmed_timer)
qed

section \<open>A load, frame by frame\<close>

text \<open>At the top of the main loop with nothing to do.\<close>

definition idle_top :: "('i::linorder, 'e, 'f) platform \<Rightarrow> u64 \<times> u64 \<Rightarrow> ('i, 'f) firmware \<Rightarrow> bool" where
  "idle_top pl stack fw \<longleftrightarrow> fw_inv pl stack (Top, fw) \<and> \<not> fw_reset_pending fw
     \<and> ld_pending (fw_loader fw) = None \<and> alarm_of (fw_timer fw) = Disarmed"

lemma fw_run_append: "fw_run pl (as @ bs) st = fw_run pl as st \<bind> fw_run pl bs"
proof (induction as arbitrary: st)
  case (Cons a as)
  then show ?case by (cases "fw_step pl a st") simp_all
qed simp

lemma fw_run_inv:
  "platform_ok pl stack \<Longrightarrow> fw_inv pl stack st \<Longrightarrow> fw_run pl as st = Some st' \<Longrightarrow> fw_inv pl stack st'"
  by (induction as arbitrary: st) (auto simp: bind_some_iff dest: fw_step_inv)

lemma accepted_pending:
  assumes "accepts_load ld r = Some (Inr (), ld')"
  shows "ld_pending ld' \<noteq> None"
proof -
  have "\<exists>op. ld_pending ld' = Some op" if "(case decoded of Inl status \<Rightarrow> Some (Inl status, ld)
      | Inr operation \<Rightarrow> Some (Inr (), ld\<lparr>ld_pending := Some operation\<rparr>)) = Some (Inr (), ld')" for decoded
    using that by (cases decoded) auto
  then show ?thesis using assms by (fastforce simp: accepts_load_def bind_some_iff split: if_splits)
qed

lemma load_exchange:
  assumes "platform_ok pl stack" and "idle_top pl stack fw" and "length p \<le> 16"
    and "wait_for_i2c_bus_idle star2"
    and "accepts_load (fw_loader fw) (load_request p) = Some (Inr (), ld)"
    and "execute_pending (pl_storage pl) ld (fw_flash fw) = Some (ld', f')"
  shows "\<exists>fw'. fw_run pl (Packet (load_frame sq p) False # loop_round star2) (Top, fw) = Some (Top, fw')
    \<and> idle_top pl stack fw' \<and> fw_loader fw' = ld' \<and> fw_flash fw' = f'
    \<and> fw_tx fw' = fw_tx fw @ [reply_frame STATUS_OK sq []]"
proof -
  have inv: "fw_inv pl stack (Top, fw)" and idle: "\<not> fw_reset_pending fw" "alarm_of (fw_timer fw) = Disarmed"
    using assms(2) by (simp_all add: idle_top_def)
  then have wf: "fw_wf pl fw" "\<not> fw_active fw" by (simp_all add: fw_inv_def)
  obtain out where p: "on_i2c_packet pl (load_frame sq p) False fw
      = Some (fw\<lparr>fw_protocol := (fw_protocol fw)\<lparr>ps_loader := ld, ps_response := out\<rparr>,
                 fw_tx := fw_tx fw @ [reply_frame STATUS_OK sq []]\<rparr>)" (is "_ = Some ?fw1")
    using load_packet [OF wf assms(3,5)] by blast
  then have s: "fw_step pl (Packet (load_frame sq p) False) (Top, fw) = Some (Top, ?fw1)"
    by (simp add: fw_step_def)
  have "loader_inv ld"
    using accepts_load_spec [OF fw_loader_inv(1) [OF assms(1) wf(1)] load_request_wf(1) [OF assms(3)]] assms(5) by simp
  then have "ld_pending ld' = None"
    using nor_flash.execute_pending_inv [of "pl_storage pl" "pl_mapped pl" ld "fw_flash fw"] assms(1,6)
    by (simp add: platform_ok_def)
  obtain fw' where r: "fw_run pl (loop_round star2) (Top, ?fw1) = Some (Top, fw')"
    "fw_loader fw' = ld'" "fw_flash fw' = f'" "fw_tx fw' = fw_tx ?fw1"
    "\<not> fw_reset_pending fw'" "alarm_of (fw_timer fw') = Disarmed"
    using round_executes [of ?fw1 star2 pl ld' f'] idle assms(4,6) accepted_pending [OF assms(5)] by auto
  have "fw_inv pl stack (Top, fw')"
    using fw_run_inv [OF assms(1) fw_step_inv [OF assms(1) inv s] r(1)] .
  then show ?thesis using s r \<open>ld_pending ld' = None\<close>
    by (intro exI [of _ fw']) (simp add: idle_top_def)
qed

lemma load_over_bus:
  assumes "platform_ok pl stack" and "wait_for_i2c_bus_idle star2"
  shows "idle_top pl stack fw \<Longrightarrow> list_all (\<lambda>p. length p \<le> 16) ps
    \<Longrightarrow> host_load (pl_storage pl) ps (fw_loader fw) (fw_flash fw) = Some (replicate (length ps) (Inr ()), ld', f')
    \<Longrightarrow> \<exists>fw'. fw_run pl (load_actions star2 sq ps) (Top, fw) = Some (Top, fw')
      \<and> idle_top pl stack fw' \<and> fw_loader fw' = ld' \<and> fw_flash fw' = f'
      \<and> fw_tx fw' = fw_tx fw @ ok_replies sq (length ps)"
proof (induction ps arbitrary: fw sq)
  case Nil
  then show ?case by simp
next
  case (Cons p ps)
  from Cons.prems(3) obtain ld1 ld2 f2 where acc: "accepts_load (fw_loader fw) (load_request p) = Some (Inr (), ld1)"
    and ex: "execute_pending (pl_storage pl) ld1 (fw_flash fw) = Some (ld2, f2)"
    and rest: "host_load (pl_storage pl) ps ld2 f2 = Some (replicate (length ps) (Inr ()), ld', f')"
    by (auto simp: bind_some_iff)
  have len: "length p \<le> 16" "list_all (\<lambda>p. length p \<le> 16) ps" using Cons.prems(2) by simp_all
  obtain fw1 where one: "fw_run pl (Packet (load_frame sq p) False # loop_round star2) (Top, fw) = Some (Top, fw1)"
    "idle_top pl stack fw1" "fw_loader fw1 = ld2" "fw_flash fw1 = f2"
    "fw_tx fw1 = fw_tx fw @ [reply_frame STATUS_OK sq []]"
    using load_exchange [OF assms(1) Cons.prems(1) len(1) assms(2) acc ex] by blast
  obtain fw' where two: "fw_run pl (load_actions star2 (sq + 1) ps) (Top, fw1) = Some (Top, fw')"
    "idle_top pl stack fw'" "fw_loader fw' = ld'" "fw_flash fw' = f'"
    "fw_tx fw' = fw_tx fw1 @ ok_replies (sq + 1) (length ps)"
    using Cons.IH [OF one(2) len(2), of "sq + 1"] rest one(3,4) by auto
  have "fw_run pl (load_actions star2 sq (p # ps)) (Top, fw)
      = fw_run pl ((Packet (load_frame sq p) False # loop_round star2) @ load_actions star2 (sq + 1) ps) (Top, fw)"
    by simp
  also have "\<dots> = Some (Top, fw')" unfolding fw_run_append one(1) using two(1) by simp
  finally show ?case using one(5) two by simp
qed

lemma load_payloads_short:
  assumes "list_all chunk_ok chunks"
  shows "list_all (\<lambda>p. length p \<le> 16) (load_payloads b m c chunks)"
proof -
  have "list_all (\<lambda>p. length p \<le> 16) (data_payloads off chunks)" for off
    using assms by (induction chunks arbitrary: off) (simp_all add: data_payload_def chunk_ok_def)
  then show ?thesis by (simp add: load_payloads_def begin_payload_def finalize_payload_def)
qed

lemma length_load_payloads: "length (load_payloads b m c chunks) = length chunks + 2"
proof -
  have "length (data_payloads off chunks) = length chunks" for off
    by (induction chunks arbitrary: off) simp_all
  then show ?thesis by (simp add: load_payloads_def)
qed

lemma quiet_bus_idle: "0 < n \<Longrightarrow> bus_idle_loop n (sconst 0)"
  by (cases n) simp_all

section \<open>Properties\<close>

text \<open>C2: A host that sends Begin, the image in any chunks of 2, 4, ..., 12 bytes, and Finalize as frames
  with any sequence numbers, each after a round of the main loop on an idle bus, gets an OK reply to every
  frame from an idle firmware on a healthy flash. The reply to the following Query BPF frame is BAD_CRC
  if the image's CRC-32 is not the announced one, BAD_STATE if its map definitions are invalid, and
  otherwise the CRC, with exactly the sent image committed on the flash.\<close>

theorem host_loads_over_bus:
  assumes "platform_ok pl stack" and "fw_reachable pl (Top, fw)"
    and "\<not> fw_reset_pending fw" and "alarm_of (fw_timer fw) = Disarmed"
    and "ld_pending (fw_loader fw) = None" and "\<not> is_running (ld_state (fw_loader fw))"
    and "reliable_flash (pl_storage pl) (pl_mapped pl) healthy" and "healthy (fw_flash fw)"
    and "0x8000 \<le> length (pl_mapped pl (fw_flash fw))" and "wait_for_i2c_bus_idle star2"
    and "image_bounds b m" and "length (concat chunks) = unat b + 16 * unat m" and "list_all chunk_ok chunks"
  shows "\<exists>fw' answer. fw_run pl (load_actions star2 sq (load_payloads b m c chunks) @ [Packet (query_frame sq') False])
        (Top, fw) = Some (Top, fw')
    \<and> fw_tx fw' = fw_tx fw @ ok_replies sq (length chunks + 2) @ [query_reply sq' answer]
    \<and> (if crc32_iso_hdlc (concat chunks) \<noteq> c then answer = Inl STATUS_BAD_CRC
       else if image_maps (concat chunks) b m = None then answer = Inl STATUS_BAD_STATE
       else answer = Inr c \<and> committed_image (pl_mapped pl (fw_flash fw')) b m c (concat chunks))"
proof -
  note inv = fw_reachable_inv [OF assms(1,2)]
  then have "fw_wf pl fw" by (simp add: fw_inv_def)
  then have run: "loader_run (pl_storage pl) (fw_loader fw) (fw_flash fw)" by (simp add: fw_wf_def)
  from host_load_outcome [OF assms(7) run assms(5,6,8,9,11-13), of c] obtain ld' f' where
    load: "host_load (pl_storage pl) (load_payloads b m c chunks) (fw_loader fw) (fw_flash fw)
      = Some (replicate (length chunks + 2) (Inr ()), ld', f')"
    and out: "if crc32_iso_hdlc (concat chunks) \<noteq> c then query ld' = Inl STATUS_BAD_CRC
       else if image_maps (concat chunks) b m = None then query ld' = Inl STATUS_BAD_STATE
       else query ld' = Inr c \<and> committed_image (pl_mapped pl f') b m c (concat chunks)" by blast
  have "idle_top pl stack fw" using inv assms(3-5) by (simp add: idle_top_def)
  from load_over_bus [OF assms(1,10) this load_payloads_short [OF assms(13)], of b m c ld' f' sq] load
  obtain fw1 where one: "fw_run pl (load_actions star2 sq (load_payloads b m c chunks)) (Top, fw) = Some (Top, fw1)"
    "idle_top pl stack fw1" "fw_loader fw1 = ld'" "fw_flash fw1 = f'"
    "fw_tx fw1 = fw_tx fw @ ok_replies sq (length chunks + 2)"
    by (auto simp: length_load_payloads)
  then have "fw_wf pl fw1" "\<not> fw_active fw1" by (simp_all add: idle_top_def fw_inv_def)
  from query_packet [OF this, of sq'] obtain fw' where "on_i2c_packet pl (query_frame sq') False fw1 = Some fw'"
    "fw_flash fw' = f'" "fw_tx fw' = fw_tx fw1 @ [query_reply sq' (query ld')]" using one(3,4) by auto
  then show ?thesis using one out
    by (intro exI [of _ fw'] exI [of _ "query ld'"]) (simp add: fw_run_append fw_step_def)
qed

theorem host_loads_over_bus_witness:
  "\<exists>fw fw'. fw_reachable sample_platform (Top, fw)
    \<and> fw_run sample_platform (load_actions (sconst 0) 3 (load_payloads 8 1 sample_crc
          [take 12 sample_image, drop 12 sample_image]) @ [Packet (query_frame 9) False]) (Top, fw) = Some (Top, fw')
    \<and> fw_tx fw' = fw_tx fw @ [reply_frame STATUS_OK 3 [], reply_frame STATUS_OK 4 [], reply_frame STATUS_OK 5 [],
        reply_frame STATUS_OK 6 [], reply_frame STATUS_OK 9 (to_le_bytes 4 sample_crc)]
    \<and> committed_image (ff_bytes (fw_flash fw')) 8 1 sample_crc sample_image"
proof -
  obtain fw where s: "startup sample_platform sample_ram (sconst 0) sample_flash = Some (Top, fw)"
    and ld: "ld_state (fw_loader fw) = Committed sample_crc" "ld_pending (fw_loader fw) = None"
    and fw: "\<not> fw_reset_pending fw" and h: "\<not> ff_fail_write (fw_flash fw)"
    using powered_state by blast
  note r = powered_inv(1) [OF s]
  let ?chunks = "[take 12 sample_image, drop 12 sample_image]"
  have cc: "concat ?chunks = sample_image" by simp
  have pre: "\<not> is_running (ld_state (fw_loader fw))" "image_bounds 8 1"
    "length (concat ?chunks) = unat (8 :: u16) + 16 * unat (1 :: u8)" "list_all chunk_ok ?chunks"
    using ld(1) by (simp_all add: image_bounds_def sample_image_def chunk_ok_def)
  have bus: "wait_for_i2c_bus_idle (sconst 0)"
    unfolding wait_for_i2c_bus_idle_def by (rule quiet_bus_idle) (simp add: I2C_BUS_IDLE_SPINS_def)
  have "fw_timer fw = timer_state_new" "ff_bytes (fw_flash fw) = ff_bytes sample_flash"
    using startup_inv [OF sample_platform_ok, of sample_ram "sconst 0" sample_flash] s by (simp_all add: sample_ram_def)
  then have t: "alarm_of (fw_timer fw) = Disarmed" and l: "0x8000 \<le> length (ff_bytes (fw_flash fw))"
    using sample_flash_slices(3) by (simp_all add: disarmed_timer timer_state_new_def)
  have rel: "reliable_flash (pl_storage sample_platform) (pl_mapped sample_platform) (\<lambda>f. \<not> ff_fail_write f)"
    using fake.reliable_flash_axioms by simp
  from host_loads_over_bus [where c = sample_crc and sq = 3 and sq' = 9,
      OF sample_platform_ok r fw t ld(2) pre(1) rel h _ bus pre(2-4)]
  have "\<exists>fw'. fw_run sample_platform (load_actions (sconst 0) 3 (load_payloads 8 1 sample_crc ?chunks)
        @ [Packet (query_frame 9) False]) (Top, fw) = Some (Top, fw')
      \<and> fw_tx fw' = fw_tx fw @ ok_replies 3 (length ?chunks + 2) @ [query_reply 9 (Inr sample_crc)]
      \<and> committed_image (ff_bytes (fw_flash fw')) 8 1 sample_crc sample_image"
    using l sample_image_crc sample_maps unfolding cc by auto
  then show ?thesis using r by (auto simp: query_reply_def)
qed

text \<open>C40: An accepted load operation is carried out: from any reachable state with an operation pending
  and no reset requested, wherever the main loop is and whatever timer events are due, among the next ten
  steps of the main loop is the one that executes exactly the accepted operation, whatever packets other
  than Reset commands arrive in between, if the bus is found idle. An operation is never pending while
  a timer event's program runs.\<close>

theorem pending_load_is_executed:
  assumes "platform_ok pl stack" and "fw_reachable pl (pc, fw)"
    and "ld_pending (fw_loader fw) \<noteq> None" and "\<not> fw_reset_pending fw"
    and "list_all lets_work acts" and "length (filter is_main acts) = 10"
  shows "\<not> runs_program pc \<and> (\<exists>as bs fw'. acts = as @ bs \<and> fw_run pl as (pc, fw) = Some (Poll_Timer, fw')
    \<and> execute_pending (pl_storage pl) (fw_loader fw) (fw_flash fw) = Some (fw_loader fw', fw_flash fw')
    \<and> ld_pending (fw_loader fw') = None)"
proof -
  have idle: "\<not> runs_program pc" using running_not_pending [OF assms(1,2)] assms(3) by auto
  note inv = fw_reachable_inv [OF assms(1,2)]
  have "awaits_work fw (pc, fw)" using idle assms(4) by (simp add: awaits_work_def)
  from work_done [OF assms(1,3) inv this assms(5)] steps_to_work_bound [of pc] assms(6)
  obtain as bs fw' where r: "acts = as @ bs" "fw_run pl as (pc, fw) = Some (Poll_Timer, fw')"
    "execute_pending (pl_storage pl) (fw_loader fw) (fw_flash fw) = Some (fw_loader fw', fw_flash fw')" by auto
  have "fw_wf pl fw" using inv by (simp add: fw_inv_def)
  from nor_flash.execute_pending_inv [OF _ fw_loader_inv(1) [OF assms(1) this], of "pl_storage pl" "pl_mapped pl" "fw_flash fw"]
  have "ld_pending (fw_loader fw') = None" using assms(1) r(3) by (simp add: platform_ok_def)
  then show ?thesis using idle r by blast
qed

theorem pending_load_is_executed_witness:
  "\<exists>fw as bs fw'. fw_reachable sample_platform (Top, fw) \<and> ld_pending (fw_loader fw) = Some (Begin 8 1 sample_crc)
    \<and> main_steps 10 = as @ bs \<and> fw_run sample_platform as (Top, fw) = Some (Poll_Timer, fw')
    \<and> ld_pending (fw_loader fw') = None"
proof -
  obtain fw where s: "startup sample_platform sample_ram (sconst 0) sample_flash = Some (Top, fw)"
    and ld: "ld_state (fw_loader fw) = Committed sample_crc" "ld_pending (fw_loader fw) = None"
    and fw: "\<not> fw_reset_pending fw" "\<not> fw_active fw"
    using powered_state by blast
  let ?p = "begin_payload 8 1 sample_crc" let ?ld = "(fw_loader fw)\<lparr>ld_pending := Some (Begin 8 1 sample_crc)\<rparr>"
  have wf: "fw_wf sample_platform fw" using powered_inv(2) [OF s] by (simp add: fw_inv_def)
  have len: "length ?p \<le> 16" by (simp add: begin_payload_def)
  have "accepts_load (fw_loader fw) (load_request ?p) = Some (Inr (), ?ld)"
    using accepts_decoded [OF ld(2) _ len] ld(1) by (simp add: decode_begin_payload image_bounds_def)
  from load_packet [OF wf fw(2) len this, of 1] obtain out where
    p: "on_i2c_packet sample_platform (load_frame 1 ?p) False fw
      = Some (fw\<lparr>fw_protocol := (fw_protocol fw)\<lparr>ps_loader := ?ld, ps_response := out\<rparr>,
                 fw_tx := fw_tx fw @ [reply_frame STATUS_OK 1 []]\<rparr>)" (is "_ = Some ?fw1") by blast
  have r: "fw_reachable sample_platform (Top, ?fw1)"
    using fw_reachable.action [OF powered_inv(1) [OF s], of "Packet (load_frame 1 ?p) False"] p by (simp add: fw_step_def)
  have bus: "wait_for_i2c_bus_idle (sconst 0)"
    unfolding wait_for_i2c_bus_idle_def by (rule quiet_bus_idle) (simp add: I2C_BUS_IDLE_SPINS_def)
  then have acts: "list_all lets_work (main_steps 10)" by (simp add: main_steps_def list_all_iff)
  have pend: "ld_pending (fw_loader ?fw1) \<noteq> None" "\<not> fw_reset_pending ?fw1" using fw(1) by simp_all
  from pending_load_is_executed [OF sample_platform_ok r pend acts main_steps_simps(2)] r show ?thesis
    by (intro exI [of _ ?fw1]) auto
qed

end
