(* ===== verification/Pin_Setup.thy ===== *)
theory Pin_Setup
  imports Bridge_Base
begin

text \<open>
  The register accesses with which both firmwares set up the I2C pins PB6 and PB7, and the bridge
  resets the MCU (\<open>configure_i2c_pins\<close> of \<^verbatim>\<open>firmware/optibridge/src/main.rs\<close> and
  \<open>configure_i2c_pins\<close>, \<open>reset_mcu\<close> of \<^verbatim>\<open>firmware/i2c-bridge/src/main.rs\<close>).
  The volatile reads and writes go to a bus, a parameter; \<open>registers_ok\<close> is what the MCU's manual
  says of the registers involved.
\<close>

section \<open>Registers\<close>

record 'w mmio =
  mm_read :: "u32 \<Rightarrow> 'w \<Rightarrow> u32 \<times> 'w"
  mm_write :: "u32 \<Rightarrow> u32 \<Rightarrow> 'w \<Rightarrow> 'w"

definition GPIOB_CFGLR :: u32 where "GPIOB_CFGLR = 0x40010c00"
definition GPIOB_BSHR :: u32 where "GPIOB_BSHR = 0x40010c10"
definition RCC_APB2PCENR :: u32 where "RCC_APB2PCENR = 0x40021018"
definition AFIO_PCFR1 :: u32 where "AFIO_PCFR1 = 0x40010004"
definition PB6_MODE_SHIFT :: nat where "PB6_MODE_SHIFT = 24"
definition PB7_MODE_SHIFT :: nat where "PB7_MODE_SHIFT = 28"
definition GPIO_ALT_OPEN_DRAIN_50MHZ :: u32 where "GPIO_ALT_OPEN_DRAIN_50MHZ = 0xF"
definition PFIC_SCTLR :: u32 where "PFIC_SCTLR = 0xe000ed10"
definition SYSRESET :: u32 where "SYSRESET = push_bit 31 1"

lemmas register_addresses = GPIOB_CFGLR_def GPIOB_BSHR_def RCC_APB2PCENR_def AFIO_PCFR1_def PFIC_SCTLR_def

section \<open>The accesses\<close>

definition configure_i2c_pins :: "'w mmio \<Rightarrow> 'w \<Rightarrow> 'w" where
  "configure_i2c_pins bus w =
     (let (v, w) = mm_read bus RCC_APB2PCENR w;
          w = mm_write bus RCC_APB2PCENR (v OR 1) w;
          (v, w) = mm_read bus AFIO_PCFR1 w;
          w = mm_write bus AFIO_PCFR1 (v AND NOT 2) w;
          w = mm_write bus GPIOB_BSHR (push_bit 6 1 OR push_bit 7 1) w;
          (current, w) = mm_read bus GPIOB_CFGLR w;
          mask = push_bit PB6_MODE_SHIFT 0xF OR push_bit PB7_MODE_SHIFT 0xF;
          value = push_bit PB6_MODE_SHIFT GPIO_ALT_OPEN_DRAIN_50MHZ
            OR push_bit PB7_MODE_SHIFT GPIO_ALT_OPEN_DRAIN_50MHZ in
      mm_write bus GPIOB_CFGLR ((current AND NOT mask) OR value) w)"

text \<open>The bridge's function of the same name.\<close>

definition bridge_configure_i2c_pins :: "'w mmio \<Rightarrow> 'w \<Rightarrow> 'w" where
  "bridge_configure_i2c_pins bus w =
     (let w = mm_write bus GPIOB_BSHR (push_bit 6 1 OR push_bit 7 1) w;
          (current, w) = mm_read bus GPIOB_CFGLR w;
          mask = push_bit PB6_MODE_SHIFT 0xF OR push_bit PB7_MODE_SHIFT 0xF;
          value = push_bit PB6_MODE_SHIFT GPIO_ALT_OPEN_DRAIN_50MHZ
            OR push_bit PB7_MODE_SHIFT GPIO_ALT_OPEN_DRAIN_50MHZ in
      mm_write bus GPIOB_CFGLR ((current AND NOT mask) OR value) w)"

text \<open>\<open>reset_mcu\<close> spins after this write.\<close>

definition reset_mcu :: "'w mmio \<Rightarrow> 'w \<Rightarrow> 'w" where
  "reset_mcu bus w = mm_write bus PFIC_SCTLR SYSRESET w"

section \<open>What the registers do\<close>

text \<open>The output data register behind \<open>GPIOB_BSHR\<close>: the low half of a write sets bits, the high
  half clears bits, and setting wins.\<close>

definition GPIOB_OUTDR :: u32 where "GPIOB_OUTDR = 0x40010c0c"

definition bit_set_reset :: "u32 \<Rightarrow> u32 \<Rightarrow> u32" where
  "bit_set_reset v old = (old AND NOT (drop_bit 16 v)) OR take_bit 16 v"

text \<open>\<open>view w a\<close> is what register \<open>a\<close> holds in state \<open>w\<close>.\<close>

definition registers_ok :: "'w mmio \<Rightarrow> ('w \<Rightarrow> u32 \<Rightarrow> u32) \<Rightarrow> bool" where
  "registers_ok bus view \<longleftrightarrow>
     (\<forall>a w. a \<in> {GPIOB_CFGLR, RCC_APB2PCENR, AFIO_PCFR1} \<longrightarrow>
        fst (mm_read bus a w) = view w a \<and> view (snd (mm_read bus a w)) = view w)
     \<and> (\<forall>a v w. a \<in> {GPIOB_CFGLR, RCC_APB2PCENR, AFIO_PCFR1} \<longrightarrow> view (mm_write bus a v w) = (view w)(a := v))
     \<and> (\<forall>v w. view (mm_write bus GPIOB_BSHR v w) = (view w)(GPIOB_OUTDR := bit_set_reset v (view w GPIOB_OUTDR)))"

text \<open>The state both functions aim at: both pins in the mode \<open>0xF\<close>, their output high.\<close>

definition pins_set :: "(u32 \<Rightarrow> u32) \<Rightarrow> u32 \<Rightarrow> u32" where
  "pins_set regs = regs(GPIOB_OUTDR := regs GPIOB_OUTDR OR 0xc0, GPIOB_CFGLR := regs GPIOB_CFGLR OR 0xff000000)"

lemma set_outputs: "bit_set_reset 0xc0 old = old OR 0xc0"
  by (simp add: bit_set_reset_def)

lemma mode_bits:
  fixes old :: u32
  shows "(old AND NOT (push_bit PB6_MODE_SHIFT 0xF OR push_bit PB7_MODE_SHIFT 0xF))
      OR (push_bit PB6_MODE_SHIFT GPIO_ALT_OPEN_DRAIN_50MHZ OR push_bit PB7_MODE_SHIFT GPIO_ALT_OPEN_DRAIN_50MHZ)
    = old OR 0xff000000"
proof -
  let ?m = "push_bit PB6_MODE_SHIFT 0xF OR push_bit PB7_MODE_SHIFT 0xF :: u32"
  have m: "?m = 0xff000000" by (simp add: PB6_MODE_SHIFT_def PB7_MODE_SHIFT_def)
  have "(old AND NOT ?m) OR ?m = old OR ?m" by (rule bit_word_eqI) (auto simp: bit_simps)
  then show ?thesis by (simp add: GPIO_ALT_OPEN_DRAIN_50MHZ_def m)
qed

lemma bridge_pins_view:
  assumes "registers_ok bus view"
  shows "view (bridge_configure_i2c_pins bus w) = pins_set (view w)"
  using assms unfolding bridge_configure_i2c_pins_def Let_def case_prod_unfold mode_bits
  by (simp add: registers_ok_def set_outputs pins_set_def GPIOB_OUTDR_def register_addresses)

lemma pins_view:
  assumes "registers_ok bus view"
  shows "view (configure_i2c_pins bus w) = pins_set ((view w)
    (RCC_APB2PCENR := view w RCC_APB2PCENR OR 1, AFIO_PCFR1 := view w AFIO_PCFR1 AND NOT 2))"
  using assms unfolding configure_i2c_pins_def Let_def case_prod_unfold mode_bits
  by (simp add: registers_ok_def set_outputs pins_set_def GPIOB_OUTDR_def register_addresses)

section \<open>Property\<close>

lemma register_bits:
  fixes v :: u32
  assumes "n < 32"
  shows "bit (v OR 0xff000000) n \<longleftrightarrow> 24 \<le> n \<or> bit v n" and "bit (v OR 0xc0) n \<longleftrightarrow> n \<in> {6, 7} \<or> bit v n"
    and "bit (v OR 1) n \<longleftrightarrow> n = 0 \<or> bit v n" and "bit (v AND NOT 2) n \<longleftrightarrow> n \<noteq> 1 \<and> bit v n"
proof -
  have "(0xff000000 :: u32) = push_bit 24 (mask 8)" "(0xc0 :: u32) = push_bit 6 (mask 2)" "(2 :: u32) = push_bit 1 1"
    by (simp_all add: mask_eq_exp_minus_1)
  then have c: "bit (0xff000000 :: u32) n \<longleftrightarrow> 24 \<le> n" "bit (0xc0 :: u32) n \<longleftrightarrow> n = 6 \<or> n = 7" "bit (2 :: u32) n \<longleftrightarrow> n = 1"
    using assms by (simp_all only: bit_push_bit_iff bit_mask_iff) (auto simp: bit_1_iff)
  show "bit (v OR 0xff000000) n \<longleftrightarrow> 24 \<le> n \<or> bit v n" "bit (v OR 0xc0) n \<longleftrightarrow> n \<in> {6, 7} \<or> bit v n"
    "bit (v OR 1) n \<longleftrightarrow> n = 0 \<or> bit v n"
    using assms c by (auto simp: bit_or_iff bit_1_iff)
  show "bit (v AND NOT 2) n \<longleftrightarrow> n \<noteq> 1 \<and> bit v n"
    unfolding bit_and_iff bit_not_iff c using assms by auto
qed

text \<open>C39: Setting up the I2C pins changes exactly the bits it is meant to: in both firmwares the mode
  fields of PB6 and PB7 become 0xF and their output bits high; the OptiBridge firmware also enables the
  clock of the AFIO block and selects the unmapped I2C1 pins. Every other bit of every register keeps
  its value.\<close>

theorem pins_are_configured:
  assumes "registers_ok bus view" and "n < 32"
  shows "(bit (view (bridge_configure_i2c_pins bus w) a) n \<longleftrightarrow>
        a = GPIOB_CFGLR \<and> 24 \<le> n \<or> a = GPIOB_OUTDR \<and> n \<in> {6, 7} \<or> bit (view w a) n)
    \<and> (bit (view (configure_i2c_pins bus w) a) n \<longleftrightarrow>
        a = GPIOB_CFGLR \<and> 24 \<le> n \<or> a = GPIOB_OUTDR \<and> n \<in> {6, 7} \<or> a = RCC_APB2PCENR \<and> n = 0
        \<or> \<not> (a = AFIO_PCFR1 \<and> n = 1) \<and> bit (view w a) n)"
proof -
  note defs = pins_set_def GPIOB_OUTDR_def register_addresses
  show ?thesis
    using register_bits [OF assms(2)]
    by (auto simp: bridge_pins_view [OF assms(1)] pins_view [OF assms(1)] defs)
qed

text \<open>Registers as a function of their address, for the witness.\<close>

definition sample_bus :: "(u32 \<Rightarrow> u32) mmio" where
  "sample_bus = \<lparr>mm_read = \<lambda>a w. (w a, w), mm_write = \<lambda>a v w.
     (if a = GPIOB_BSHR then w(GPIOB_OUTDR := bit_set_reset v (w GPIOB_OUTDR)) else w(a := v))\<rparr>"

theorem pins_are_configured_witness:
  "bit (configure_i2c_pins sample_bus (\<lambda>a. 2) GPIOB_CFGLR) 25 \<and> bit (configure_i2c_pins sample_bus (\<lambda>a. 2) GPIOB_CFGLR) 1
     \<and> \<not> bit (configure_i2c_pins sample_bus (\<lambda>a. 2) AFIO_PCFR1) 1
     \<and> \<not> bit (bridge_configure_i2c_pins sample_bus (\<lambda>a. 2) RCC_APB2PCENR) 0"
proof -
  have ok: "registers_ok sample_bus (\<lambda>w. w)"
    by (simp add: registers_ok_def sample_bus_def GPIOB_OUTDR_def register_addresses)
  show ?thesis
    using pins_are_configured [OF ok, of _ "\<lambda>a. 2"]
    by (simp add: GPIOB_OUTDR_def register_addresses bit_numeral_rec)
qed

end
