(* ===== verification/Size_Gate.thy ===== *)
theory Size_Gate
  imports Bridge_Base
begin

text \<open>
  The flash budget gate \<open>cargo xtask size\<close>: \<open>report_size\<close> of
  \<^verbatim>\<open>xtask/src/main.rs\<close>. For both release images it runs \<open>llvm-size\<close>, takes the
  first two fields of the second line as the sizes of text and data, and fails when their sum is over
  the image's limit.

  Strings are lists of code points. The file system and \<open>llvm-size\<close> are parameters; so is
  the UTF-8 decoder of the standard library, whose result is part of the tool's output. The task runs
  in the development profile, where an overflowing addition panics.
\<close>

type_synonym str = "nat list"

section \<open>The standard library's string functions\<close>

text \<open>\<open>char::is_whitespace\<close>, the Unicode property White_Space.\<close>

definition is_whitespace :: "nat \<Rightarrow> bool" where
  "is_whitespace c \<longleftrightarrow> 9 \<le> c \<and> c \<le> 13 \<or> c = 32 \<or> c = 0x85 \<or> c = 0xa0 \<or> c = 0x1680
     \<or> 0x2000 \<le> c \<and> c \<le> 0x200a \<or> c \<in> {0x2028, 0x2029, 0x202f, 0x205f, 0x3000}"

text \<open>\<open>str::lines\<close>: a line ends at a line feed, with a carriage return before it dropped.\<close>

definition strip_cr :: "str \<Rightarrow> str" where
  "strip_cr l = (if l \<noteq> [] \<and> last l = 13 then butlast l else l)"

fun lines_from :: "str \<Rightarrow> str \<Rightarrow> str list" where
  "lines_from l [] = (if l = [] then [] else [l])"
| "lines_from l (c # cs) = (if c = 10 then strip_cr l # lines_from [] cs else lines_from (l @ [c]) cs)"

text \<open>\<open>str::split_whitespace\<close>\<close>

fun fields_from :: "str \<Rightarrow> str \<Rightarrow> str list" where
  "fields_from f [] = (if f = [] then [] else [f])"
| "fields_from f (c # cs) =
     (if is_whitespace c then (if f = [] then fields_from [] cs else f # fields_from [] cs)
      else fields_from (f @ [c]) cs)"

text \<open>\<open>str::parse::<u64>\<close>: an optional plus sign and decimal digits, within 64 bits.\<close>

fun parse_digits :: "nat \<Rightarrow> str \<Rightarrow> nat option" where
  "parse_digits acc [] = Some acc"
| "parse_digits acc (c # cs) =
     (if 48 \<le> c \<and> c \<le> 57 \<and> acc * 10 + (c - 48) < 2 ^ 64 then parse_digits (acc * 10 + (c - 48)) cs else None)"

definition parse_u64 :: "str \<Rightarrow> nat option" where
  "parse_u64 s =
     (if s = [] \<or> s = [43] \<or> s = [45] then None
      else parse_digits 0 (if hd s = 43 then tl s else s))"

section \<open>The gate\<close>

definition OPTIBRIDGE_FLASH_LIMIT :: nat where "OPTIBRIDGE_FLASH_LIMIT = 24 * 1024"
definition I2C_BRIDGE_FLASH_LIMIT :: nat where "I2C_BRIDGE_FLASH_LIMIT = 32 * 1024"

datatype image_name = Optibridge | I2c_Bridge_Image

datatype size_error =
    No_Workspace_Root | Missing_Image image_name | Io_Error | Tool_Failure | Not_Utf8
  | No_Size_Row | No_Text_Field | No_Data_Field | Bad_Number | Over_Limit image_name nat

text \<open>A run of \<open>llvm-size\<close>: whether it exited well, and its output if that is UTF-8.\<close>

record size_tool =
  st_root :: bool
  st_is_file :: "image_name \<Rightarrow> bool"
  st_llvm_size :: "image_name \<Rightarrow> (bool \<times> str option) option"

definition size_row :: "size_tool \<Rightarrow> image_name \<Rightarrow> size_error + str" where
  "size_row tool name =
     (if \<not> st_is_file tool name then Inl (Missing_Image name)
      else case st_llvm_size tool name of
        None \<Rightarrow> Inl Io_Error
      | Some (success, stdout) \<Rightarrow>
          if \<not> success then Inl Tool_Failure
          else (case stdout of
            None \<Rightarrow> Inl Not_Utf8
          | Some report \<Rightarrow>
              (let ls = lines_from [] report in if 1 < length ls then Inr (ls ! 1) else Inl No_Size_Row)))"

definition row_sizes :: "str \<Rightarrow> size_error + nat \<times> nat" where
  "row_sizes row =
     (let fields = fields_from [] row in
      if fields = [] then Inl No_Text_Field
      else case parse_u64 (fields ! 0) of
        None \<Rightarrow> Inl Bad_Number
      | Some text_size \<Rightarrow>
          if length fields < 2 then Inl No_Data_Field
          else (case parse_u64 (fields ! 1) of
            None \<Rightarrow> Inl Bad_Number
          | Some data_size \<Rightarrow> Inr (text_size, data_size)))"

text \<open>The loop, with the lines it has printed: name, text, data and flash.\<close>

fun report_loop ::
    "size_tool \<Rightarrow> (image_name \<times> nat) list \<Rightarrow> (image_name \<times> nat \<times> nat \<times> nat) list
      \<Rightarrow> ((size_error + unit) \<times> (image_name \<times> nat \<times> nat \<times> nat) list) may_panic" where
  "report_loop tool [] printed = Some (Inr (), printed)"
| "report_loop tool ((name, flash_limit) # images) printed =
     (case size_row tool name of
        Inl e \<Rightarrow> Some (Inl e, printed)
      | Inr row \<Rightarrow>
          (case row_sizes row of
             Inl e \<Rightarrow> Some (Inl e, printed)
           | Inr (text_size, data_size) \<Rightarrow>
               let flash = text_size + data_size in
               if flash \<ge> 2 ^ 64 then None
               else
                 let printed = printed @ [(name, text_size, data_size, flash)] in
                 if flash > flash_limit then Some (Inl (Over_Limit name flash_limit), printed)
                 else report_loop tool images printed))"

definition report_size ::
    "size_tool \<Rightarrow> ((size_error + unit) \<times> (image_name \<times> nat \<times> nat \<times> nat) list) may_panic" where
  "report_size tool =
     (if \<not> st_root tool then Some (Inl No_Workspace_Root, [])
      else report_loop tool [(Optibridge, OPTIBRIDGE_FLASH_LIMIT), (I2c_Bridge_Image, I2C_BRIDGE_FLASH_LIMIT)] [])"

section \<open>Reports as llvm-size prints them\<close>

fun decimal :: "nat \<Rightarrow> str" where
  "decimal n = (if n < 10 then [48 + n] else decimal (n div 10) @ [48 + n mod 10])"

declare decimal.simps [simp del]

definition spaces :: "str \<Rightarrow> bool" where
  "spaces ws \<longleftrightarrow> (\<forall>c\<in>set ws. is_whitespace c \<and> c \<noteq> 10)"

text \<open>A header line, and a row that starts with the two sizes.\<close>

definition size_report :: "str \<Rightarrow> str \<Rightarrow> nat \<Rightarrow> str \<Rightarrow> nat \<Rightarrow> str \<Rightarrow> str" where
  "size_report header ws1 t ws2 d rest = header @ [10] @ ws1 @ decimal t @ ws2 @ decimal d @ rest @ [10]"

lemma decimal_digits: "c \<in> set (decimal n) \<Longrightarrow> 48 \<le> c \<and> c \<le> 57"
  by (induction n rule: decimal.induct) (subst (asm) (2) decimal.simps, auto split: if_splits)

lemma decimal_not_Nil [simp]: "decimal n \<noteq> []"
  by (subst decimal.simps) simp

lemma parse_digits_append:
  "parse_digits acc (xs @ ys) = parse_digits acc xs \<bind> (\<lambda>acc. parse_digits acc ys)"
  by (induction xs arbitrary: acc) auto

lemma parse_decimal: "n < 2 ^ 64 \<Longrightarrow> parse_digits 0 (decimal n) = Some n"
proof (induction n rule: decimal.induct)
  case (1 n)
  then show ?case by (subst decimal.simps) (auto simp: parse_digits_append)
qed

lemma parse_u64_decimal: "n < 2 ^ 64 \<Longrightarrow> parse_u64 (decimal n) = Some n"
proof -
  assume n: "n < 2 ^ 64"
  have d: "48 \<le> c" if "c \<in> set (decimal n)" for c using decimal_digits that by blast
  have "decimal n \<noteq> [43]" "decimal n \<noteq> [45]" using d by force+
  moreover have "hd (decimal n) \<noteq> 43" using d [of "hd (decimal n)"] by auto
  ultimately show ?thesis using parse_decimal [OF n] by (simp add: parse_u64_def)
qed

lemma lines_from_line: "10 \<notin> set xs \<Longrightarrow> lines_from l (xs @ 10 # ys) = strip_cr (l @ xs) # lines_from [] ys"
  by (induction xs arbitrary: l) auto

lemma fields_from_spaces: "spaces ws \<Longrightarrow> fields_from [] (ws @ xs) = fields_from [] xs"
  by (induction ws) (auto simp: spaces_def)

lemma fields_from_word:
  "\<forall>c\<in>set xs. \<not> is_whitespace c \<Longrightarrow> fields_from f (xs @ ys) = fields_from (f @ xs) ys"
  by (induction xs arbitrary: f) auto

lemma decimal_no_space: "\<forall>c\<in>set (decimal n). \<not> is_whitespace c"
  using decimal_digits [of _ n] by (force simp: is_whitespace_def)

text \<open>What may follow the second size.\<close>

definition row_end :: "str \<Rightarrow> bool" where
  "row_end rest \<longleftrightarrow> 10 \<notin> set rest \<and> (rest = [] \<or> is_whitespace (hd rest))"

lemma row_end_strip: "row_end rest \<Longrightarrow> row_end (strip_cr rest)"
  by (cases rest rule: rev_cases) (auto simp: row_end_def strip_cr_def hd_append split: if_splits)

lemma fields_from_end: "row_end rest \<Longrightarrow> f \<noteq> [] \<Longrightarrow> \<exists>fs. fields_from f rest = f # fs"
  by (cases rest) (auto simp: row_end_def)

lemma strip_cr_append: "strip_cr (xs @ ys) = (if ys = [] then strip_cr xs else xs @ strip_cr ys)"
  by (simp add: strip_cr_def butlast_append)

lemma strip_cr_decimal: "strip_cr (decimal n) = decimal n"
proof -
  have "last (decimal n) \<noteq> 13" using decimal_digits [of "last (decimal n)" n] by auto
  then show ?thesis by (simp add: strip_cr_def)
qed

lemma row_sizes_report:
  assumes "spaces ws1" and "spaces ws2" and "ws2 \<noteq> []" and "row_end rest" and "t < 2 ^ 64" and "d < 2 ^ 64"
  shows "row_sizes (strip_cr (ws1 @ decimal t @ ws2 @ decimal d @ rest)) = Inr (t, d)"
proof -
  let ?rest = "strip_cr rest"
  have row: "strip_cr (ws1 @ decimal t @ ws2 @ decimal d @ rest) = ws1 @ decimal t @ ws2 @ decimal d @ ?rest"
    by (cases "rest = []") (simp_all add: strip_cr_append strip_cr_decimal strip_cr_def [of "[]"])
  obtain fs where fs: "fields_from (decimal d) ?rest = decimal d # fs"
    using fields_from_end [OF row_end_strip [OF assms(4)], of "decimal d"] by auto
  obtain w ws where ws2: "ws2 = w # ws" using assms(3) by (cases ws2) auto
  have "is_whitespace w" "spaces ws" using assms(2) ws2 by (simp_all add: spaces_def)
  then have "fields_from (decimal t) (ws2 @ decimal d @ ?rest) = decimal t # decimal d # fs"
    using fs fields_from_word [OF decimal_no_space, of "[]" d ?rest]
    by (simp add: ws2 fields_from_spaces)
  then have "fields_from [] (ws1 @ decimal t @ ws2 @ decimal d @ ?rest) = decimal t # decimal d # fs"
    using fields_from_word [OF decimal_no_space, of "[]" t "ws2 @ decimal d @ ?rest"]
    by (simp add: fields_from_spaces [OF assms(1)])
  then show ?thesis using assms(5,6) by (simp add: row row_sizes_def Let_def parse_u64_decimal)
qed

lemma size_row_report:
  assumes "st_is_file tool name" and "st_llvm_size tool name = Some (True, Some (size_report header ws1 t ws2 d rest))"
    and "10 \<notin> set header" and "spaces ws1" and "spaces ws2" and "row_end rest"
  shows "size_row tool name = Inr (strip_cr (ws1 @ decimal t @ ws2 @ decimal d @ rest))"
proof -
  let ?row = "ws1 @ decimal t @ ws2 @ decimal d @ rest"
  have "10 \<notin> set (decimal n)" for n using decimal_digits [of 10 n] by auto
  then have "10 \<notin> set ?row" using assms(4-6) by (auto simp: spaces_def row_end_def)
  moreover have "size_report header ws1 t ws2 d rest = header @ 10 # (?row @ 10 # [])"
    by (simp add: size_report_def)
  ultimately have "lines_from [] (size_report header ws1 t ws2 d rest) = [strip_cr header, strip_cr ?row]"
    using lines_from_line [OF assms(3), of "[]"] lines_from_line [of ?row "[]" "[]"] by simp
  then show ?thesis using assms(1,2) by (simp add: size_row_def)
qed

text \<open>A report of the given sizes for an image.\<close>

definition reports :: "size_tool \<Rightarrow> image_name \<Rightarrow> nat \<Rightarrow> nat \<Rightarrow> bool" where
  "reports tool name t d \<longleftrightarrow> st_is_file tool name \<and> t + d < 2 ^ 64 \<and> (\<exists>header ws1 ws2 rest.
     10 \<notin> set header \<and> spaces ws1 \<and> spaces ws2 \<and> ws2 \<noteq> [] \<and> row_end rest
     \<and> st_llvm_size tool name = Some (True, Some (size_report header ws1 t ws2 d rest)))"

lemma report_loop_step:
  assumes "reports tool name t d"
  shows "report_loop tool ((name, limit) # images) printed =
    (let printed' = printed @ [(name, t, d, t + d)] in
     if t + d > limit then Some (Inl (Over_Limit name limit), printed') else report_loop tool images printed')"
proof -
  obtain header ws1 ws2 rest where r: "st_is_file tool name" "t + d < 2 ^ 64" "10 \<notin> set header" "spaces ws1"
    "spaces ws2" "ws2 \<noteq> []" "row_end rest"
    "st_llvm_size tool name = Some (True, Some (size_report header ws1 t ws2 d rest))"
    using assms unfolding reports_def by blast
  note row = size_row_report [OF r(1,8,3,4,5,7)]
  have "row_sizes (strip_cr (ws1 @ decimal t @ ws2 @ decimal d @ rest)) = Inr (t, d)"
    using row_sizes_report [OF r(4-7)] r(2) by simp
  then show ?thesis using r(2) by (simp add: row Let_def)
qed

text \<open>C37: The size gate enforces both flash budgets: when llvm-size reports text and data sizes for the
  two images, the gate fails exactly when the sum is over 24 KiB for OptiBridge or over 32 KiB for the
  bridge, naming the first image that is, after printing the sizes of the images it looked at.\<close>

theorem size_gate_enforces_limits:
  assumes "st_root tool" and "reports tool Optibridge t1 d1" and "reports tool I2c_Bridge_Image t2 d2"
  shows "report_size tool = Some
    (if t1 + d1 > 24576 then (Inl (Over_Limit Optibridge 24576), [(Optibridge, t1, d1, t1 + d1)])
     else (if t2 + d2 > 32768 then Inl (Over_Limit I2c_Bridge_Image 32768) else Inr (),
           [(Optibridge, t1, d1, t1 + d1), (I2c_Bridge_Image, t2, d2, t2 + d2)]))"
  using assms(1)
  by (simp add: report_size_def report_loop_step [OF assms(2)] report_loop_step [OF assms(3)]
      OPTIBRIDGE_FLASH_LIMIT_def I2C_BRIDGE_FLASH_LIMIT_def Let_def del: report_loop.simps(2))

definition sample_tool :: size_tool where
  "sample_tool = \<lparr>st_root = True, st_is_file = \<lambda>_. True,
     st_llvm_size = \<lambda>name. Some (True, Some (size_report [116] [32] (case name of Optibridge \<Rightarrow> 23274 | _ \<Rightarrow> 40000) [9] 0 []))\<rparr>"

lemma sample_tool_reports:
  "reports sample_tool name (case name of Optibridge \<Rightarrow> 23274 | _ \<Rightarrow> 40000) 0"
  unfolding reports_def sample_tool_def
  by (intro conjI exI [of _ "[116]"] exI [of _ "[32]"] exI [of _ "[9]"] exI [of _ "[]"])
     (simp_all add: spaces_def is_whitespace_def row_end_def split: image_name.split)

theorem size_gate_enforces_limits_witness:
  "report_size sample_tool = Some (Inl (Over_Limit I2c_Bridge_Image 32768),
     [(Optibridge, 23274, 0, 23274), (I2c_Bridge_Image, 40000, 0, 40000)])"
proof -
  have "st_root sample_tool" by (simp add: sample_tool_def)
  then show ?thesis
    using size_gate_enforces_limits [OF _ sample_tool_reports [of Optibridge, simplified]
        sample_tool_reports [of I2c_Bridge_Image, simplified]] by simp
qed

end
