(* ===== verification/Hal_Generation.thy ===== *)
theory Hal_Generation
  imports Size_Gate "HOL-Library.Sublist"
begin

text \<open>
  The rest of \<^verbatim>\<open>xtask/src/main.rs\<close>: \<open>main\<close>, \<open>generate_hal\<close> and
  \<open>download\<close>. Generating the hardware abstraction layer is a sequence of external commands:
  fetch the description, clone the generator's repository unless it is there, check out the pinned
  revision, run the generator. The file system and the commands are a parameter, the record
  \<open>host\<close> over a state of the outside world. Paths are lists of components.
\<close>

section \<open>Commands and the host\<close>

type_synonym path = "string list"

datatype arg = Text string | File path

record command =
  cm_program :: string
  cm_args :: "arg list"
  cm_dir :: "path option"

text \<open>\<open>ho_parent\<close> is the parent of the manifest directory; \<open>ho_run\<close> gives \<open>None\<close>
  when a command cannot be started, and whether it exited with success otherwise.\<close>

record 'w host =
  ho_parent :: "path option"
  ho_to_str :: "path \<Rightarrow> string option"
  ho_create_dir_all :: "path \<Rightarrow> 'w \<Rightarrow> bool \<times> 'w"
  ho_is_file :: "path \<Rightarrow> 'w \<Rightarrow> bool"
  ho_run :: "command \<Rightarrow> 'w \<Rightarrow> bool option \<times> 'w"

datatype hal_error =
    No_Root | Host_Error | Download_Failed string | Clone_Failed | Invalid_Source_Path
  | Checkout_Failed | Generator_Failed

definition HAIR_REPOSITORY :: string where
  "HAIR_REPOSITORY = ''https://github.com/Alan-Jowett/HardwareAbstractionIR.git''"

definition HAIR_REVISION :: string where
  "HAIR_REVISION = ''60e0de038210008018d0168f45854d113a5964cc''"

definition HAIR_INPUT_URL :: string where
  "HAIR_INPUT_URL = ''https://raw.githubusercontent.com/Alan-Jowett/HardwareAbstractionIR/60e0de038210008018d0168f45854d113a5964cc/evidence/wch/ch32v203g6u6/hair.json''"

section \<open>Steps\<close>

text \<open>\<open>.status()?\<close> and the check of \<open>success()\<close>.\<close>

definition run_command :: "'w host \<Rightarrow> command \<Rightarrow> hal_error \<Rightarrow> 'w \<Rightarrow> (hal_error + unit) \<times> 'w" where
  "run_command h c failure w =
     (case ho_run h c w of
        (None, w) \<Rightarrow> (Inl Host_Error, w)
      | (Some success, w) \<Rightarrow> (if success then Inr () else Inl failure, w))"

text \<open>The operator \<open>?\<close>, and a step after it.\<close>

definition and_then :: "('e + unit) \<times> 'w \<Rightarrow> ('w \<Rightarrow> ('e + 'a) \<times> 'w) \<Rightarrow> ('e + 'a) \<times> 'w" where
  "and_then r k = (case r of (Inl e, w) \<Rightarrow> (Inl e, w) | (Inr _, w) \<Rightarrow> k w)"

definition download_command :: "string \<Rightarrow> path \<Rightarrow> command" where
  "download_command url destination =
     \<lparr>cm_program = ''curl'',
      cm_args = [Text ''--fail'', Text ''--location'', Text ''--silent'', Text ''--show-error'', Text url,
        Text ''--output'', File destination], cm_dir = None\<rparr>"

definition download :: "'w host \<Rightarrow> string \<Rightarrow> path \<Rightarrow> 'w \<Rightarrow> (hal_error + unit) \<times> 'w" where
  "download h url destination w = run_command h (download_command url destination) (Download_Failed url) w"

definition generated_dir :: "path \<Rightarrow> path" where
  "generated_dir root = root @ [''.generated'', ''ch32v203g6u6'']"

definition input_file :: "path \<Rightarrow> path" where
  "input_file root = generated_dir root @ [''hair.json'']"

definition source_dir :: "path \<Rightarrow> path" where
  "source_dir root = root @ [''.generated'', ''hardware-abstraction-ir'']"

definition clone_command :: "path \<Rightarrow> command" where
  "clone_command source = \<lparr>cm_program = ''git'',
     cm_args = [Text ''clone'', Text ''--quiet'', Text HAIR_REPOSITORY, File source], cm_dir = None\<rparr>"

definition checkout_command :: "string \<Rightarrow> command" where
  "checkout_command source = \<lparr>cm_program = ''git'',
     cm_args = [Text ''-C'', Text source, Text ''checkout'', Text ''--quiet'', Text HAIR_REVISION], cm_dir = None\<rparr>"

definition generate_command :: "path \<Rightarrow> command" where
  "generate_command root = \<lparr>cm_program = ''cargo'',
     cm_args = [Text ''run'', Text ''--quiet'', Text ''--locked'', Text ''--manifest-path'',
       File (source_dir root @ [''Cargo.toml'']), Text ''--'', Text ''generate'', Text ''embassy'',
       File (input_file root), Text ''--output-dir'', File (generated_dir root @ [''embassy''])],
     cm_dir = Some (source_dir root)\<rparr>"

definition clone_source :: "'w host \<Rightarrow> path \<Rightarrow> 'w \<Rightarrow> (hal_error + unit) \<times> 'w" where
  "clone_source h source w =
     (if \<not> ho_is_file h (source @ [''Cargo.toml'']) w
      then run_command h (clone_command source) Clone_Failed w else (Inr (), w))"

definition checkout_source :: "'w host \<Rightarrow> path \<Rightarrow> 'w \<Rightarrow> (hal_error + unit) \<times> 'w" where
  "checkout_source h source w =
     (case ho_to_str h source of
        None \<Rightarrow> (Inl Invalid_Source_Path, w)
      | Some s \<Rightarrow> run_command h (checkout_command s) Checkout_Failed w)"

definition generate_hal :: "'w host \<Rightarrow> 'w \<Rightarrow> (hal_error + unit) \<times> 'w" where
  "generate_hal h w =
     (case ho_parent h of
        None \<Rightarrow> (Inl No_Root, w)
      | Some root \<Rightarrow>
        (case ho_create_dir_all h (generated_dir root) w of
           (False, w) \<Rightarrow> (Inl Host_Error, w)
         | (True, w) \<Rightarrow>
             and_then (download h HAIR_INPUT_URL (input_file root) w)
               (\<lambda>w. and_then (clone_source h (source_dir root) w)
               (\<lambda>w. and_then (checkout_source h (source_dir root) w)
               (\<lambda>w. run_command h (generate_command root) Generator_Failed w)))))"

section \<open>The command line\<close>

datatype exit_code = SUCCESS | FAILURE

fun exit_of :: "'e + unit \<Rightarrow> exit_code" where
  "exit_of (Inr _) = SUCCESS"
| "exit_of (Inl _) = FAILURE"

definition xtask_main :: "'w host \<Rightarrow> size_tool \<Rightarrow> string list \<Rightarrow> 'w \<Rightarrow> (exit_code \<times> 'w) may_panic" where
  "xtask_main h tool argv w =
     (case drop 1 argv of
        [] \<Rightarrow> Some (FAILURE, w)
      | a # _ \<Rightarrow>
          if a = ''generate-hal'' then (case generate_hal h w of (res, w) \<Rightarrow> Some (exit_of res, w))
          else if a = ''size'' then do { (res, printed) \<leftarrow> report_size tool; Some (exit_of res, w) }
          else Some (FAILURE, w))"

section \<open>What was run\<close>

text \<open>A host that also keeps the list of commands and their outcomes.\<close>

type_synonym log = "(command \<times> bool option) list"

definition logged :: "'w host \<Rightarrow> ('w \<times> log) host" where
  "logged h = \<lparr>ho_parent = ho_parent h, ho_to_str = ho_to_str h,
     ho_create_dir_all = (\<lambda>p (w, l). (case ho_create_dir_all h p w of (ok, w) \<Rightarrow> (ok, w, l))),
     ho_is_file = (\<lambda>p (w, l). ho_is_file h p w),
     ho_run = (\<lambda>c (w, l). (case ho_run h c w of (res, w) \<Rightarrow> (res, w, l @ [(c, res)])))\<rparr>"

definition all_succeeded :: "log \<Rightarrow> bool" where
  "all_succeeded l \<longleftrightarrow> list_all (\<lambda>(c, res). res = Some True) l"

text \<open>The commands of a complete run, in order.\<close>

definition plan :: "path \<Rightarrow> string \<Rightarrow> bool \<Rightarrow> command list" where
  "plan root source clone = download_command HAIR_INPUT_URL (input_file root)
     # (if clone then [clone_command (source_dir root)] else [])
     @ [checkout_command source, generate_command root]"

text \<open>A step that ran the commands \<open>cs\<close>, all with success, or stopped in them at the first
  one that failed.\<close>

definition ran :: "command list \<Rightarrow> log \<Rightarrow> 'e + 'a \<Rightarrow> log \<Rightarrow> bool" where
  "ran cs l res l' \<longleftrightarrow> (\<exists>new. l' = l @ new \<and> prefix (map fst new) cs
     \<and> all_succeeded (butlast new) \<and> (\<not> isl res \<longleftrightarrow> map fst new = cs \<and> all_succeeded new))"

lemma ran_command: "run_command (logged h) c e (w, l) = (res, w', l') \<Longrightarrow> ran [c] l res l'"
  by (auto simp: run_command_def logged_def ran_def all_succeeded_def split: prod.splits option.splits if_splits)

lemma ran_command_snd: "run_command (logged h) c e s = (res, s') \<Longrightarrow> ran [c] (snd s) res (snd s')"
  by (cases s, cases s') (simp add: ran_command)

lemma all_succeeded_append: "all_succeeded (l @ l') \<longleftrightarrow> all_succeeded l \<and> all_succeeded l'"
  by (simp add: all_succeeded_def)

lemma ran_skip: "ran [] l (Inr ()) l"
  by (simp add: ran_def all_succeeded_def)

lemma ran_then:
  assumes "and_then (r, s) k = (res, s')" and "ran cs l r (snd s)"
    and "\<And>res s'. k s = (res, s') \<Longrightarrow> ran ds (snd s) res (snd s')"
  shows "ran (cs @ ds) l res (snd s')"
proof (cases r)
  case (Inl e)
  then have "res = Inl e" "s' = s" using assms(1) by (simp_all add: and_then_def)
  then show ?thesis using assms(2) Inl
    by (auto simp: ran_def prefix_def all_succeeded_def)
next
  case (Inr u)
  then have k: "k s = (res, s')" using assms(1) by (simp add: and_then_def)
  obtain n1 where n1: "snd s = l @ n1" "map fst n1 = cs" "all_succeeded n1"
    using assms(2) Inr by (auto simp: ran_def)
  obtain n2 where n2: "snd s' = snd s @ n2" "prefix (map fst n2) ds" "all_succeeded (butlast n2)"
    "\<not> isl res \<longleftrightarrow> map fst n2 = ds \<and> all_succeeded n2"
    using assms(3) [OF k] by (auto simp: ran_def)
  have "all_succeeded (butlast (n1 @ n2))"
    using n1(3) n2(3) by (cases n2) (auto simp: butlast_append all_succeeded_append all_succeeded_def
        dest: in_set_butlastD simp: list_all_iff)
  then show ?thesis
    using n1 n2 unfolding ran_def by (intro exI [of _ "n1 @ n2"]) (auto simp: all_succeeded_append)
qed

lemma ran_clone:
  assumes "clone_source (logged h) source (w, l) = (res, w', l')"
  shows "ran (if \<not> ho_is_file h (source @ [''Cargo.toml'']) w then [clone_command source] else []) l res l'"
proof (cases "ho_is_file h (source @ [''Cargo.toml'']) w")
  case True
  then show ?thesis using assms ran_skip [of l] by (auto simp: clone_source_def logged_def)
next
  case False
  then have "run_command (logged h) (clone_command source) Clone_Failed (w, l) = (res, w', l')"
    using assms by (simp add: clone_source_def logged_def)
  from ran_command [OF this] False show ?thesis by simp
qed

lemma ran_checkout:
  assumes "checkout_source (logged h) source (w, l) = (res, w', l')" and "ho_to_str h source \<in> {None, Some s}"
  shows "ran [checkout_command s] l res l'"
proof (cases "ho_to_str h source")
  case None
  then show ?thesis using assms(1)
    by (auto simp: checkout_source_def logged_def ran_def all_succeeded_def)
next
  case (Some t)
  then have "t = s" "run_command (logged h) (checkout_command s) Checkout_Failed (w, l) = (res, w', l')"
    using assms by (simp_all add: checkout_source_def logged_def)
  then show ?thesis by (auto intro: ran_command)
qed

lemma ran_generate_hal:
  assumes "generate_hal (logged h) (w, l) = (res, w', l')" and "ho_parent h = Some root"
    and "ho_to_str h (source_dir root) \<in> {None, Some source}"
  shows "\<exists>clone. ran (plan root source clone) l res l'"
proof -
  let ?h = "logged h" let ?src = "source_dir root"
  obtain ok w1 where mk: "ho_create_dir_all h (generated_dir root) w = (ok, w1)" by (metis surj_pair)
  show ?thesis
  proof (cases ok)
    case False
    then have "res = Inl Host_Error" "l' = l" using assms(1,2) mk
      by (simp_all add: generate_hal_def logged_def split_beta)
    then show ?thesis by (auto simp: ran_def all_succeeded_def plan_def)
  next
    case True
    obtain r1 w2 l2 where dl: "download ?h HAIR_INPUT_URL (input_file root) (w1, l) = (r1, w2, l2)"
      by (metis surj_pair)
    let ?rest = "\<lambda>s. and_then (clone_source ?h ?src s)
      (\<lambda>s. and_then (checkout_source ?h ?src s) (\<lambda>s. run_command ?h (generate_command root) Generator_Failed s))"
    have eq: "and_then (r1, w2, l2) ?rest = (res, w', l')"
      using assms(1,2) mk True dl by (simp add: generate_hal_def logged_def split_beta)
    have gen: "ran ([checkout_command source] @ [generate_command root]) (snd s1) res (snd s2)"
      if "and_then (checkout_source ?h ?src s1) (\<lambda>s. run_command ?h (generate_command root) Generator_Failed s)
        = (res, s2)" for s1 res s2
    proof -
      obtain r s where c: "checkout_source ?h ?src s1 = (r, s)" by (metis surj_pair)
      have "ran [checkout_command source] (snd s1) r (snd s)"
        using ran_checkout [of h ?src "fst s1" "snd s1" r "fst s" "snd s"] c assms(3) by simp
      then show ?thesis
        using that c by (auto intro!: ran_then [where r = r] dest: ran_command_snd simp del: append.simps)
    qed
    let ?clone = "\<not> ho_is_file h (?src @ [''Cargo.toml'']) w2"
    have clone: "ran ((if ?clone then [clone_command ?src] else []) @ [checkout_command source] @ [generate_command root])
        l2 res l''" if "?rest (w2, l2) = (res, w'', l'')" for res w'' l''
    proof -
      obtain r w3 l3 where c: "clone_source ?h ?src (w2, l2) = (r, w3, l3)" by (metis surj_pair)
      have "ran ((if ?clone then [clone_command ?src] else []) @ [checkout_command source] @ [generate_command root])
          l2 res (snd (w'', l''))"
        by (rule ran_then [OF that [unfolded c]]) (simp only: snd_conv ran_clone [OF c], erule gen)
      then show ?thesis by simp
    qed
    have "ran ([download_command HAIR_INPUT_URL (input_file root)] @ (if ?clone then [clone_command ?src] else [])
        @ [checkout_command source] @ [generate_command root]) l res (snd (w', l'))"
      by (rule ran_then [OF eq]) (simp only: snd_conv ran_command [OF dl [unfolded download_def]],
          simp only: snd_conv clone split_paired_all)
    then have "ran (plan root source ?clone) l res l'" by (simp add: plan_def)
    then show ?thesis by blast
  qed
qed

section \<open>Property\<close>

text \<open>A host on which every command succeeds and nothing has been cloned, for the witness.\<close>

definition sample_host :: "unit host" where
  "sample_host = \<lparr>ho_parent = Some [''ws''], ho_to_str = (\<lambda>p. Some (concat p)),
     ho_create_dir_all = (\<lambda>p w. (True, w)), ho_is_file = (\<lambda>p w. False), ho_run = (\<lambda>c w. (Some True, w))\<rparr>"

text \<open>C38: The generator only runs on the pinned revision: whatever the host does,
  \<open>cargo xtask generate-hal\<close> runs a prefix of the sequence download, clone (if at all),
  checkout of the pinned revision, generate, and stops at the first command that fails. It exits with
  SUCCESS exactly when the whole sequence ran and every command in it succeeded.\<close>

theorem hal_generation_is_pinned:
  assumes "xtask_main (logged h) tool [program_name, ''generate-hal''] (w, []) = Some (code, w', l)"
    and "ho_parent h = Some root" and "ho_to_str h (source_dir root) \<in> {None, Some source}"
  shows "\<exists>clone. prefix (map fst l) (plan root source clone) \<and> all_succeeded (butlast l)
    \<and> (code = SUCCESS \<longleftrightarrow> map fst l = plan root source clone \<and> all_succeeded l)"
proof -
  obtain res where g: "generate_hal (logged h) (w, []) = (res, w', l)" "code = exit_of res"
    using assms(1) by (auto simp: xtask_main_def split: prod.splits)
  have "code = SUCCESS \<longleftrightarrow> \<not> isl res" using g(2) by (cases res) simp_all
  then show ?thesis using ran_generate_hal [OF g(1) assms(2,3)] by (simp add: ran_def)
qed

theorem hal_generation_is_pinned_witness:
  "\<exists>l clone. xtask_main (logged sample_host) sample_tool [''xtask'', ''generate-hal''] ((), []) = Some (SUCCESS, (), l)
     \<and> map fst l = plan [''ws''] (concat (source_dir [''ws''])) clone \<and> all_succeeded l"
proof -
  have "\<exists>l. xtask_main (logged sample_host) sample_tool [''xtask'', ''generate-hal''] ((), []) = Some (SUCCESS, (), l)"
    by (simp add: xtask_main_def generate_hal_def logged_def sample_host_def download_def run_command_def
        and_then_def clone_source_def checkout_source_def)
  then obtain l where l: "xtask_main (logged sample_host) sample_tool [''xtask'', ''generate-hal''] ((), []) = Some (SUCCESS, (), l)"
    by blast
  have "ho_parent sample_host = Some [''ws'']"
    "ho_to_str sample_host (source_dir [''ws'']) \<in> {None, Some (concat (source_dir [''ws'']))}"
    by (simp_all add: sample_host_def)
  from hal_generation_is_pinned [OF l this] l show ?thesis by blast
qed

end
