(* ===== verification/Protocol_Tests.thy ===== *)
theory Protocol_Tests
  imports Dispatch
begin

text \<open>
  The unit tests of \<^verbatim>\<open>crates/optibridge-protocol/src/lib.rs\<close> that need no flash: parser,
  request check, dispatcher and packet entry points. A test is a function of the model's operations
  that yields \<open>None\<close> where the code's assertion would fail or an operation would panic, so
  that \<open>Some ()\<close> says that the model behaves as the test demands.

  The mutable variables of a test that the operations take by reference are one
  \<open>dispatch_state\<close>; a test that has no loader or backing store of its own leaves those of
  the initial state alone.
\<close>

section \<open>Helpers of the test module\<close>

definition assert_that :: "bool \<Rightarrow> unit may_panic" where
  "assert_that b = (if b then Some () else None)"

definition request_bytes :: "u8 \<Rightarrow> bytes \<Rightarrow> bytes may_panic" where
  "request_bytes sq payload =
     copy_into ([MAGIC, CMD_READ_STATUS, of_nat (length payload), sq, 0] @ replicate MAX_PAYLOAD 0)
       HEADER_LEN payload"

fun response_length :: "packet_outcome \<Rightarrow> nat may_panic" where
  "response_length (Response n) = Some n"
| "response_length EmptyPacket = None"
| "response_length ResetRequested = None"

text \<open>\<open>for byte in bytes { result = parser.push(byte).unwrap() }\<close>\<close>

fun push_unwrap :: "bytes \<Rightarrow> request option \<Rightarrow> parser \<Rightarrow> (request option \<times> parser) may_panic" where
  "push_unwrap [] res p = Some (res, p)"
| "push_unwrap (b # bs) res p = do {
     (out, p) \<leftarrow> push p b;
     (case out of Inr res \<Rightarrow> push_unwrap bs res p | Inl _ \<Rightarrow> None)
   }"

text \<open>\<open>for byte in bytes { assert_eq!(parser.push(byte), Ok(None)) }\<close>\<close>

fun push_incomplete :: "bytes \<Rightarrow> parser \<Rightarrow> parser may_panic" where
  "push_incomplete [] p = Some p"
| "push_incomplete (b # bs) p = do {
     (out, p) \<leftarrow> push p b;
     assert_that (out = Inr None);
     push_incomplete bs p
   }"

text \<open>The length of a response, and the comparison of the frame in the output with the expected one.\<close>

definition answered_with :: "bytes \<Rightarrow> 'w handler_result \<Rightarrow> 'w dispatch_state may_panic" where
  "answered_with frame result = do {
     (outcome, s) \<leftarrow> result;
     n \<leftarrow> response_length outcome;
     bs \<leftarrow> slice (ds_output s) 0 n;
     assert_that (bs = frame);
     Some s
   }"

definition outcome_is :: "packet_outcome \<Rightarrow> 'w handler_result \<Rightarrow> 'w dispatch_state may_panic" where
  "outcome_is expected result = do {
     (outcome, s) \<leftarrow> result;
     assert_that (outcome = expected);
     Some s
   }"

definition fresh_state :: "'w \<Rightarrow> 'w dispatch_state" where
  "fresh_state w = \<lparr>ds_queue = status_queue_ready, ds_loader = loader_new,
     ds_backing = replicate BPF_MAX_MAP_BYTES 0, ds_output = replicate MAX_FRAME 0, ds_world = w\<rparr>"

definition ready_frame :: "u8 \<Rightarrow> bytes" where
  "ready_frame sq = [MAGIC, STATUS_OK, 5, sq, 0, 0x72, 0x65, 0x61, 0x64, 0x79]"

definition status_frame :: "u8 \<Rightarrow> u8 \<Rightarrow> bytes" where
  "status_frame status sq = [MAGIC, status, 0, sq, 0]"

section \<open>Parser\<close>

definition parses_read_status_request :: "unit may_panic" where
  "parses_read_status_request = do {
     bytes \<leftarrow> request_bytes 7 [];
     (result, _) \<leftarrow> push_unwrap (take HEADER_LEN bytes) None parser_new;
     assert_that (result = Some \<lparr>req_command = CMD_READ_STATUS, req_sequence = 7, req_flags = 0,
       req_payload = replicate MAX_PAYLOAD 0, req_payload_len = 0\<rparr>)
   }"

definition rejects_bad_magic_and_recovers :: "unit may_panic" where
  "rejects_bad_magic_and_recovers = do {
     (res, p) \<leftarrow> push parser_new 0;
     assert_that (res = Inl BadMagic);
     bytes \<leftarrow> request_bytes 1 [];
     p \<leftarrow> push_incomplete (take (HEADER_LEN - 1) bytes) p;
     byte \<leftarrow> get_at bytes (HEADER_LEN - 1);
     (result, _) \<leftarrow> push_unwrap [byte] None p;
     assert_that (result \<noteq> None)
   }"

definition parses_frame_fragmented_at_each_byte_boundary :: "unit may_panic" where
  "parses_frame_fragmented_at_each_byte_boundary = do {
     bytes \<leftarrow> request_bytes 3 [1, 2, 3];
     p \<leftarrow> push_incomplete (take (HEADER_LEN + 3 - 1) bytes) parser_new;
     byte \<leftarrow> get_at bytes (HEADER_LEN + 3 - 1);
     (res, _) \<leftarrow> push p byte;
     assert_that (res = Inr (Some \<lparr>req_command = CMD_READ_STATUS, req_sequence = 3, req_flags = 0,
       req_payload = [1, 2, 3, 0, 0, 0, 0, 0, 0, 0, 0, 0, 0, 0, 0, 0], req_payload_len = 3\<rparr>))
   }"

text \<open>\<open>for byte in bytes\<close> of the next test: the sequence numbers of the requests, in order.\<close>

fun collect_sequences :: "bytes \<Rightarrow> bytes \<Rightarrow> nat \<Rightarrow> parser \<Rightarrow> (bytes \<times> nat) may_panic" where
  "collect_sequences [] sequences count p = Some (sequences, count)"
| "collect_sequences (b # bs) sequences count p = do {
     (result, p) \<leftarrow> push_unwrap [b] None p;
     (case result of
        Some request \<Rightarrow> do {
          sequences \<leftarrow> set_at sequences count (req_sequence request);
          collect_sequences bs sequences (count + 1) p
        }
      | None \<Rightarrow> collect_sequences bs sequences count p)
   }"

definition maximal_frame :: "nat \<Rightarrow> bytes" where
  "maximal_frame index = [MAGIC, CMD_READ_STATUS, of_nat MAX_PAYLOAD, of_nat index + 1, 0]
     @ replicate MAX_PAYLOAD (of_nat index)"

definition parses_coalesced_maximum_length_frames_in_order :: "unit may_panic" where
  "parses_coalesced_maximum_length_frames_in_order = do {
     (sequences, count) \<leftarrow>
       collect_sequences (maximal_frame 0 @ maximal_frame 1 @ maximal_frame 2) [0, 0, 0] 0 parser_new;
     assert_that (count = 3);
     assert_that (sequences = [1, 2, 3])
   }"

definition recovers_from_invalid_length_within_same_stream :: "unit may_panic" where
  "recovers_from_invalid_length_within_same_stream = do {
     let malformed = [MAGIC, CMD_READ_STATUS, of_nat MAX_PAYLOAD + 1, 9, 0];
     p \<leftarrow> push_incomplete (take (HEADER_LEN - 1) malformed) parser_new;
     byte \<leftarrow> get_at malformed (HEADER_LEN - 1);
     (res, p) \<leftarrow> push p byte;
     assert_that (res = Inl BadLength);
     bytes \<leftarrow> request_bytes 4 [];
     (result, _) \<leftarrow> push_unwrap (take HEADER_LEN bytes) None p;
     assert_that (map_option req_sequence result = Some 4)
   }"

lemma parser_tests_pass:
  "parses_read_status_request = Some ()"
  "rejects_bad_magic_and_recovers = Some ()"
  "parses_frame_fragmented_at_each_byte_boundary = Some ()"
  "parses_coalesced_maximum_length_frames_in_order = Some ()"
  "recovers_from_invalid_length_within_same_stream = Some ()"
  by code_simp+

section \<open>Request check of the bridge\<close>

definition validates_i2c_request_statuses :: "unit may_panic" where
  "validates_i2c_request_statuses = do {
     let request = request_empty\<lparr>req_command := CMD_I2C_WRITE, req_payload_len := 1\<rparr>;
     payload \<leftarrow> set_at (req_payload request) 0 0x42;
     let request = request\<lparr>req_payload := payload\<rparr>;
     assert_that (validate_i2c_request request = Inr ());
     let request = request\<lparr>req_flags := 1\<rparr>;
     assert_that (validate_i2c_request request = Inl STATUS_BAD_FLAGS);
     let request = request\<lparr>req_flags := 0, req_command := CMD_READ_STATUS\<rparr>;
     assert_that (validate_i2c_request request = Inl STATUS_BAD_COMMAND);
     let request = request\<lparr>req_command := CMD_I2C_WRITE, req_payload_len := 0\<rparr>;
     assert_that (validate_i2c_request request = Inl STATUS_BAD_LENGTH);
     let request = request\<lparr>req_payload_len := of_nat MAX_PAYLOAD + 1\<rparr>;
     assert_that (validate_i2c_request request = Inl STATUS_BAD_LENGTH);
     payload \<leftarrow> set_at (req_payload request) 0 0x80;
     let request = request\<lparr>req_payload_len := 1, req_payload := payload\<rparr>;
     assert_that (validate_i2c_request request = Inl STATUS_BAD_COMMAND);
     payload \<leftarrow> set_at (req_payload request) 0 0x42;
     let request = request\<lparr>req_payload := payload, req_command := CMD_I2C_READ\<rparr>;
     assert_that (validate_i2c_request request = Inl STATUS_BAD_LENGTH);
     payload \<leftarrow> set_at (req_payload request) 1 (of_nat MAX_PAYLOAD + 1);
     let request = request\<lparr>req_payload_len := 2, req_payload := payload\<rparr>;
     assert_that (validate_i2c_request request = Inl STATUS_BAD_LENGTH);
     payload \<leftarrow> set_at (req_payload request) 1 (of_nat MAX_PAYLOAD);
     let request = request\<lparr>req_payload := payload\<rparr>;
     assert_that (validate_i2c_request request = Inr ())
   }"

lemma bridge_test_passes: "validates_i2c_request_statuses = Some ()"
  by code_simp

section \<open>Dispatcher\<close>

definition dispatches_read_status_response :: "unit may_panic" where
  "dispatches_read_status_response = do {
     let request = \<lparr>req_command = CMD_READ_STATUS, req_sequence = 9, req_flags = 0,
       req_payload = replicate MAX_PAYLOAD 0, req_payload_len = 0\<rparr>;
     s \<leftarrow> answered_with (ready_frame 9) (dispatch request (fresh_state ()));
     Some ()
   }"

definition dispatches_action_request_errors :: "unit may_panic" where
  "dispatches_action_request_errors = do {
     let request = request_empty\<lparr>req_command := CMD_READ_STATUS, req_sequence := 1, req_flags := 1\<rparr>;
     s \<leftarrow> answered_with (status_frame STATUS_BAD_FLAGS (req_sequence request)) (dispatch request (fresh_state ()));
     let request = request\<lparr>req_flags := 0, req_command := 0x07\<rparr>;
     s \<leftarrow> answered_with (status_frame STATUS_BAD_COMMAND (req_sequence request)) (dispatch request s);
     let request = request\<lparr>req_command := CMD_READ_STATUS, req_payload_len := 1\<rparr>;
     s \<leftarrow> answered_with (status_frame STATUS_BAD_LENGTH (req_sequence request)) (dispatch request s);
     let request = request\<lparr>req_command := CMD_READ_STATUS, req_payload_len := 0\<rparr>;
     s \<leftarrow> answered_with (ready_frame (req_sequence request)) (dispatch request s);
     Some ()
   }"

text \<open>The loop of the next test over the commands.\<close>

fun check_stubs :: "u8 list \<Rightarrow> request \<Rightarrow> unit dispatch_state \<Rightarrow> unit may_panic" where
  "check_stubs [] request s = Some ()"
| "check_stubs (command # commands) request s = do {
     let request = request\<lparr>req_command := command\<rparr>;
     s \<leftarrow> answered_with (status_frame STATUS_NOT_IMPLEMENTED (req_sequence request)) (dispatch request s);
     let request = request\<lparr>req_payload_len := 1\<rparr>;
     s \<leftarrow> answered_with (status_frame STATUS_BAD_LENGTH (req_sequence request)) (dispatch request s);
     let request = request\<lparr>req_payload_len := 0, req_flags := 1\<rparr>;
     s \<leftarrow> answered_with (status_frame STATUS_BAD_FLAGS (req_sequence request)) (dispatch request s);
     check_stubs commands (request\<lparr>req_flags := 0\<rparr>) s
   }"

definition dispatches_action_stubs_as_not_implemented :: "unit may_panic" where
  "dispatches_action_stubs_as_not_implemented =
     check_stubs [CMD_LOAD_BPF, CMD_START_BPF, CMD_READ_BPF_MAP, CMD_WRITE_BPF_MAP]
       (request_empty\<lparr>req_sequence := 7\<rparr>) (fresh_state ())"

definition dispatches_reset_outcomes :: "unit may_panic" where
  "dispatches_reset_outcomes = do {
     let request = request_empty\<lparr>req_command := CMD_RESET\<rparr>;
     s \<leftarrow> outcome_is ResetRequested (dispatch request (fresh_state ()));
     let request = request\<lparr>req_flags := 1\<rparr>;
     s \<leftarrow> answered_with (status_frame STATUS_BAD_FLAGS (req_sequence request)) (dispatch request s);
     let request = request\<lparr>req_flags := 0, req_payload_len := 1\<rparr>;
     s \<leftarrow> answered_with (status_frame STATUS_BAD_LENGTH (req_sequence request)) (dispatch request s);
     Some ()
   }"

definition read_status_pops_newest_message :: "unit may_panic" where
  "read_status_pops_newest_message = do {
     let request = request_empty\<lparr>req_command := CMD_READ_STATUS, req_sequence := 1\<rparr>;
     s \<leftarrow> answered_with (ready_frame 1) (dispatch request (fresh_state ()));
     let request = request\<lparr>req_sequence := 2\<rparr>;
     s \<leftarrow> answered_with (status_frame STATUS_OK 2) (dispatch request s);
     Some ()
   }"

lemma dispatch_tests_pass:
  "dispatches_read_status_response = Some ()"
  "dispatches_action_request_errors = Some ()"
  "dispatches_action_stubs_as_not_implemented = Some ()"
  "dispatches_reset_outcomes = Some ()"
  "read_status_pops_newest_message = Some ()"
  by code_simp+

section \<open>Packets\<close>

definition dispatch_packet_uses_only_the_final_complete_frame :: "unit may_panic" where
  "dispatch_packet_uses_only_the_final_complete_frame = do {
     frame1 \<leftarrow> request_bytes 1 [];
     packet \<leftarrow> copy_into (replicate (HEADER_LEN * 2) 0) 0 (take HEADER_LEN frame1);
     frame2 \<leftarrow> request_bytes 2 [];
     packet \<leftarrow> copy_into packet HEADER_LEN (take HEADER_LEN frame2);
     s \<leftarrow> outcome_is (Response 10) (dispatch_packet packet False (fresh_state ()));
     assert_that (take 10 (ds_output s) = ready_frame 2)
   }"

definition dispatch_packet_rejects_incomplete_and_malformed_packets :: "unit may_panic" where
  "dispatch_packet_rejects_incomplete_and_malformed_packets = do {
     let incomplete = [MAGIC, CMD_READ_STATUS];
     let malformed = [MAGIC, CMD_READ_STATUS, of_nat MAX_PAYLOAD + 1, 3, 0];
     s \<leftarrow> outcome_is EmptyPacket (dispatch_packet incomplete False (fresh_state ()));
     s \<leftarrow> outcome_is EmptyPacket (dispatch_packet malformed False s);
     frame \<leftarrow> request_bytes 4 [];
     s \<leftarrow> outcome_is (Response 10) (dispatch_packet (take HEADER_LEN frame) False s);
     Some ()
   }"

definition dispatch_packet_rejects_trailing_partial_frames :: "unit may_panic" where
  "dispatch_packet_rejects_trailing_partial_frames = do {
     complete \<leftarrow> request_bytes 5 [];
     let packet = take 5 complete @ [MAGIC, CMD_READ_STATUS];
     s \<leftarrow> outcome_is EmptyPacket (dispatch_packet packet False (fresh_state ()));
     frame \<leftarrow> request_bytes 6 [];
     s \<leftarrow> outcome_is (Response 10) (dispatch_packet (take HEADER_LEN frame) False s);
     Some ()
   }"

definition dispatch_packet_returns_reset_for_valid_reset :: "unit may_panic" where
  "dispatch_packet_returns_reset_for_valid_reset = do {
     let request = [MAGIC, CMD_RESET, 0, 8, 0];
     s \<leftarrow> outcome_is ResetRequested (dispatch_packet request False (fresh_state ()));
     Some ()
   }"

definition dispatch_packet_rejects_truncated_valid_prefixes :: "unit may_panic" where
  "dispatch_packet_rejects_truncated_valid_prefixes = do {
     request \<leftarrow> request_bytes 5 [];
     s \<leftarrow> outcome_is EmptyPacket (dispatch_packet (take HEADER_LEN request) True (fresh_state ()));
     s \<leftarrow> outcome_is (Response 10) (dispatch_packet (take HEADER_LEN request) False s);
     Some ()
   }"

definition dispatch_packet_does_not_pop_status_for_invalid_requests :: "unit may_panic" where
  "dispatch_packet_does_not_pop_status_for_invalid_requests = do {
     let invalid = [MAGIC, CMD_READ_STATUS, 0, 6, 1];
     s \<leftarrow> outcome_is (Response 5) (dispatch_packet invalid False (fresh_state ()));
     assert_that (take 5 (ds_output s) = status_frame STATUS_BAD_FLAGS 6);
     frame \<leftarrow> request_bytes 7 [];
     s \<leftarrow> outcome_is (Response 10) (dispatch_packet (take HEADER_LEN frame) False s);
     assert_that (take 10 (ds_output s) = ready_frame 7)
   }"

lemma packet_tests_pass:
  "dispatch_packet_uses_only_the_final_complete_frame = Some ()"
  "dispatch_packet_rejects_incomplete_and_malformed_packets = Some ()"
  "dispatch_packet_rejects_trailing_partial_frames = Some ()"
  "dispatch_packet_returns_reset_for_valid_reset = Some ()"
  "dispatch_packet_rejects_truncated_valid_prefixes = Some ()"
  "dispatch_packet_does_not_pop_status_for_invalid_requests = Some ()"
  by code_simp+

end
