(* ===== verification/Loader_Tests.thy ===== *)
theory Loader_Tests
  imports Host_Load Protocol_Tests "HOL-Library.Code_Target_Nat"
begin

text \<open>
  The unit tests of \<^verbatim>\<open>crates/optibridge-protocol/src/lib.rs\<close> that load images into the
  flash double: loader, map access and Start. As in \<^verbatim>\<open>Protocol_Tests\<close>, a test is a
  function that yields \<open>None\<close> where an assertion fails. The 32 KiB of the double are never
  computed: that an image is committed follows from the lemmas on loads, and the rest of a test is
  evaluated on the loader they describe.
\<close>

section \<open>Loading in the tests\<close>

text \<open>\<open>assert_eq!(loader.accepts_load(&load_request(payload)), Ok(()))\<close> and
  \<open>execute(&mut loader, &mut flash)\<close>\<close>

definition load_step :: "bytes \<Rightarrow> bpf_loader \<Rightarrow> fake_flash \<Rightarrow> (bpf_loader \<times> fake_flash) may_panic" where
  "load_step payload ld f = do {
     (res, ld) \<leftarrow> accepts_load ld (load_request payload);
     assert_that (res = Inr ());
     execute_pending fake_api ld f
   }"

definition rejects :: "u8 \<Rightarrow> bytes \<Rightarrow> bpf_loader \<Rightarrow> bpf_loader may_panic" where
  "rejects status payload ld = do {
     (res, ld) \<leftarrow> accepts_load ld (load_request payload);
     assert_that (res = Inl status);
     Some ld
   }"

definition begin_bytes :: "u16 \<Rightarrow> u8 \<Rightarrow> u32 \<Rightarrow> bytes may_panic" where
  "begin_bytes bytecode_len map_count crc = do {
     let begin = replicate 8 0;
     begin \<leftarrow> set_at begin 0 0;
     begin \<leftarrow> copy_into begin 1 (to_le_bytes 2 bytecode_len);
     begin \<leftarrow> set_at begin 3 map_count;
     copy_into begin 4 (to_le_bytes 4 crc)
   }"

definition data_bytes :: "u16 \<Rightarrow> bytes \<Rightarrow> bytes may_panic" where
  "data_bytes offset chunk = do {
     let payload = replicate 15 0;
     payload \<leftarrow> set_at payload 0 1;
     payload \<leftarrow> copy_into payload 1 (to_le_bytes 2 offset);
     payload \<leftarrow> copy_into payload 3 chunk;
     slice payload 0 (3 + length chunk)
   }"

fun load_chunks ::
    "(nat \<times> bytes) list \<Rightarrow> bpf_loader \<Rightarrow> fake_flash \<Rightarrow> (bpf_loader \<times> fake_flash) may_panic" where
  "load_chunks [] ld f = Some (ld, f)"
| "load_chunks ((offset, chunk) # chunks) ld f = do {
     payload \<leftarrow> data_bytes (of_nat offset) chunk;
     (ld, f) \<leftarrow> load_step payload ld f;
     load_chunks chunks ld f
   }"

text \<open>The image of eight zero bytes that the tests of Start load.\<close>

definition zero_begin :: "u32 \<Rightarrow> bytes" where
  "zero_begin crc = [0, 8, 0, 0, ucast (crc AND 0xff), ucast (drop_bit 8 crc), ucast (drop_bit 16 crc),
     ucast (drop_bit 24 crc)]"

definition load_zero_program ::
    "bpf_loader \<Rightarrow> fake_flash \<Rightarrow> (u32 \<times> bpf_loader \<times> fake_flash) may_panic" where
  "load_zero_program ld f = do {
     let bytecode = replicate 8 0;
     let crc = crc32_iso_hdlc bytecode;
     (ld, f) \<leftarrow> load_step (zero_begin crc) ld f;
     payload \<leftarrow> set_at (replicate 11 0) 0 1;
     payload \<leftarrow> copy_into payload 3 bytecode;
     (ld, f) \<leftarrow> load_step payload ld f;
     (ld, f) \<leftarrow> load_step [2] ld f;
     Some (crc, ld, f)
   }"

section \<open>The test's steps are the host's load\<close>

fun load_steps :: "bytes list \<Rightarrow> bpf_loader \<Rightarrow> fake_flash \<Rightarrow> (bpf_loader \<times> fake_flash) may_panic" where
  "load_steps [] ld f = Some (ld, f)"
| "load_steps (p # ps) ld f = do { (ld, f) \<leftarrow> load_step p ld f; load_steps ps ld f }"

lemma host_load_ConsE:
  assumes "host_load api (p # ps) ld f = Some (replicate (Suc n) (Inr ()), ld', f')"
  obtains ld1 ld2 f2 where "accepts_load ld (load_request p) = Some (Inr (), ld1)"
    and "execute_pending api ld1 f = Some (ld2, f2)"
    and "host_load api ps ld2 f2 = Some (replicate n (Inr ()), ld', f')"
  using assms by (auto split: prod.splits simp: bind_eq_Some_conv)

lemma load_steps_host:
  "host_load fake_api ps ld f = Some (replicate (length ps) (Inr ()), ld', f')
     \<Longrightarrow> load_steps ps ld f = Some (ld', f')"
proof (induction ps arbitrary: ld f)
  case Nil
  then show ?case by simp
next
  case (Cons p ps)
  from Cons.prems obtain ld1 ld2 f2 where "accepts_load ld (load_request p) = Some (Inr (), ld1)"
    "execute_pending fake_api ld1 f = Some (ld2, f2)"
    "host_load fake_api ps ld2 f2 = Some (replicate (length ps) (Inr ()), ld', f')"
    unfolding list.size(4) add_Suc_right add_0_right by (rule host_load_ConsE)
  then show ?case using Cons.IH by (simp add: load_step_def assert_that_def)
qed

lemma load_steps_append:
  "load_steps (ps @ qs) ld f = do { (ld, f) \<leftarrow> load_steps ps ld f; load_steps qs ld f }"
  by (induction ps arbitrary: ld f) (auto simp: bind_assoc intro!: Option.bind_cong)

lemma begin_bytes_value: "begin_bytes b m c = Some (begin_payload b m c)"
proof -
  obtain b0 b1 where b: "to_le_bytes 2 b = [b0, b1]"
    using list_of_length(1) [OF length_to_le_bytes [of 2 b]] by blast
  obtain c0 c1 c2 c3 where c: "to_le_bytes 4 c = [c0, c1, c2, c3]"
    using list_of_length(2) [OF length_to_le_bytes [of 4 c]] by blast
  have z: "replicate 8 (0 :: u8) = [0, 0, 0, 0, 0, 0, 0, 0]" by (simp add: eval_nat_numeral)
  have "[0, b0, b1, 0, 0, 0, 0, 0][3 := m] = [0, b0, b1, m, 0, 0, 0, 0]" by (simp add: numeral_3_eq_3)
  then show ?thesis
    unfolding begin_bytes_def begin_payload_def b c z by (simp add: set_at_def copy_into_def)
qed

lemma data_bytes_value:
  assumes "length chunk \<le> 12"
  shows "data_bytes (of_nat offset) chunk = Some (data_payload offset chunk)"
proof -
  obtain b0 b1 where b: "to_le_bytes 2 (of_nat offset :: u16) = [b0, b1]"
    using list_of_length(1) [OF length_to_le_bytes [of 2 "of_nat offset :: u16"]] by blast
  have z: "replicate 15 (0 :: u8) = 0 # 0 # 0 # replicate 12 0" by (simp add: eval_nat_numeral)
  show ?thesis
    using assms by (simp add: data_bytes_def data_payload_def b z set_at_def copy_into_def slice_def numeral_3_eq_3)
qed

lemma load_chunks_steps:
  "list_all (\<lambda>(offset, chunk). length chunk \<le> 12) chunks
     \<Longrightarrow> load_chunks chunks ld f = load_steps (map (case_prod data_payload) chunks) ld f"
  by (induction chunks arbitrary: ld f) (auto simp: data_bytes_value intro!: Option.bind_cong)

lemma zero_begin_payload: "zero_begin c = begin_payload 8 0 c"
proof -
  have four: "(4 :: nat) = Suc (Suc (Suc (Suc 0)))" by simp
  have mask: "(0xff :: u32) = mask 8" by (simp add: mask_eq_exp_minus_1)
  have "ucast (c AND 0xff) = (ucast c :: u8)"
    unfolding mask by (rule bit_word_eqI) (auto simp: bit_simps)
  moreover have "to_le_bytes 4 c
      = [ucast c, ucast (drop_bit 8 c), ucast (drop_bit 16 c), ucast (drop_bit 24 c)]"
    unfolding four to_le_bytes.simps by (simp add: drop_bit_drop_bit)
  moreover have "to_le_bytes 2 (8 :: u16) = [8, 0]" by code_simp
  ultimately show ?thesis by (simp add: zero_begin_def begin_payload_def)
qed

text \<open>A loader between loads, on a healthy device.\<close>

definition idle_on :: "bpf_loader \<Rightarrow> fake_flash \<Rightarrow> bool" where
  "idle_on ld f \<longleftrightarrow> loader_inv ld \<and> ld_pending ld = None \<and> \<not> is_running (ld_state ld)
     \<and> device_inv ld (ff_bytes f) \<and> \<not> ff_fail_write f \<and> 0x8000 \<le> length (ff_bytes f)"

lemma idle_on_new: "idle_on loader_new fake_new"
  using loader_inv_new by (simp add: idle_on_def loader_new_def device_inv_def fake_new_def)

lemma load_session:
  assumes "idle_on ld f" and "image_bounds b m" and "length (concat chunks) = unat b + 16 * unat m"
    and "list_all chunk_ok chunks"
  obtains ld' f' where "load_steps (load_payloads b m c chunks) ld f = Some (ld', f')"
    and "host_load fake_api (load_payloads b m c chunks) ld f
      = Some (replicate (length chunks + 2) (Inr ()), ld', f')"
    and "loader_inv ld'" and "ld_pending ld' = None" and "\<not> is_running (ld_state ld')"
    and "\<not> ff_fail_write f'" and "0x8000 \<le> length (ff_bytes f')"
    and "session_rel ld' (ff_bytes f') (session_step (Transfer b m c (concat chunks)) Finalize)"
proof -
  have n: "length (data_payloads k chunks) = length chunks" for k
    by (induction chunks arbitrary: k) simp_all
  have i: "loader_inv ld" "ld_pending ld = None" "\<not> is_running (ld_state ld)" "device_inv ld (ff_bytes f)"
    "\<not> ff_fail_write f" "0x8000 \<le> length (ff_bytes f)"
    using assms(1) by (simp_all add: idle_on_def)
  obtain ld' f' where h: "host_load fake_api (load_payloads b m c chunks) ld f
      = Some (replicate (length chunks + 2) (Inr ()), ld', f')"
    "loader_inv ld'" "ld_pending ld' = None" "\<not> is_running (ld_state ld')" "\<not> ff_fail_write f'"
    "length (ff_bytes f') = length (ff_bytes f)"
    "session_rel ld' (ff_bytes f') (session_step (Transfer b m c (concat chunks)) Finalize)"
    using fake.host_load_session [OF i assms(2-4), of c] by (elim exE conjE) (rule that)
  moreover have "load_steps (load_payloads b m c chunks) ld f = Some (ld', f')"
    using h(1) n by (intro load_steps_host) (simp add: load_payloads_def)
  ultimately show ?thesis using assms(1) that by (simp add: idle_on_def)
qed

text \<open>A loader that has just committed \<open>img\<close>.\<close>

definition committed_on :: "bpf_loader \<Rightarrow> fake_flash \<Rightarrow> u16 \<Rightarrow> u8 \<Rightarrow> bytes \<Rightarrow> bool" where
  "committed_on ld f b m img \<longleftrightarrow> idle_on ld f \<and> ld_state ld = Committed (crc32_iso_hdlc img)
     \<and> committed_image (ff_bytes f) b m (crc32_iso_hdlc img) img"

lemma load_commits:
  assumes "idle_on ld f" and "image_bounds b m" and "concat chunks = img"
    and "length img = unat b + 16 * unat m" and "list_all chunk_ok chunks" and "image_maps img b m \<noteq> None"
  obtains ld' f' where "load_steps (load_payloads b m (crc32_iso_hdlc img) chunks) ld f = Some (ld', f')"
    and "host_load fake_api (load_payloads b m (crc32_iso_hdlc img) chunks) ld f
      = Some (replicate (length chunks + 2) (Inr ()), ld', f')"
    and "committed_on ld' f' b m img"
proof -
  let ?c = "crc32_iso_hdlc img"
  obtain ld' f' where h: "load_steps (load_payloads b m ?c chunks) ld f = Some (ld', f')"
    "host_load fake_api (load_payloads b m ?c chunks) ld f
      = Some (replicate (length chunks + 2) (Inr ()), ld', f')"
    and i: "loader_inv ld'" "ld_pending ld' = None" "\<not> is_running (ld_state ld')" "\<not> ff_fail_write f'"
      "0x8000 \<le> length (ff_bytes f')"
    and r: "session_rel ld' (ff_bytes f') (session_step (Transfer b m ?c img) Finalize)"
    using load_session [OF assms(1,2) _ assms(5), of ?c] assms(3,4) by metis
  have od: "ld_state ld' \<in> {Committed ?c, Running ?c}" "ld_bytecode_len ld' = b" "ld_map_count ld' = m"
    "on_device ld' (ff_bytes f') ?c img"
    using r assms(6) by simp_all
  have st: "ld_state ld' = Committed ?c" using od(1) i(3) by auto
  have "device_inv ld' (ff_bytes f')" using st od(4) by (auto simp: device_inv_def)
  then have "committed_on ld' f' b m img"
    using i st od(2-4) by (simp add: committed_on_def idle_on_def on_device_def)
  with h show ?thesis by (rule that)
qed

lemma committed_query: "committed_on ld f b m img \<Longrightarrow> query ld = Inr (crc32_iso_hdlc img)"
  by (simp add: committed_on_def idle_on_def query_def)

text \<open>The loader after a boot that found an image.\<close>

definition booted :: "u32 \<Rightarrow> u16 \<Rightarrow> u8 \<Rightarrow> map_layout list \<Rightarrow> bpf_loader" where
  "booted c b m ls = loader_new\<lparr>ld_state := Committed c, ld_bytecode_len := b, ld_map_count := m,
     ld_map_layouts := stored_layouts m ls, ld_committed_map_count := m\<rparr>"

lemma query_booted: "query (booted c b m ls) = Inr c"
  by (simp add: booted_def query_def loader_new_def)

lemma committed_reboots:
  assumes "committed_on ld f b m img" and "image_maps img b m = Some ls"
  obtains f' where "validate_committed fake_api loader_new f = Some (booted (crc32_iso_hdlc img) b m ls, f')"
proof -
  have ci: "committed_image (ff_bytes f) b m (crc32_iso_hdlc img) img"
    and h: "\<not> ff_fail_write f" "0x8000 \<le> length (ff_bytes f)"
    using assms(1) by (simp_all add: committed_on_def idle_on_def)
  obtain ld' f' b' m' c' img' where v: "validate_committed fake_api loader_new f = Some (ld', f')"
    and ci': "committed_image (ff_bytes f) b' m' c' img'" and bt: "boots_to loader_new (ff_bytes f) b' m' c' ld'"
    using fake.validate_committed_total [OF h, of loader_new] ci by blast
  have same: "b' = b" "m' = m" "c' = crc32_iso_hdlc img"
    using committed_image_unique [OF ci ci'] by simp_all
  have len: "length img = unat b + 16 * unat m" using ci by (simp add: committed_image_def)
  then have "slice (ff_bytes f) 0x6010 (0x6010 + length img) = Some img"
    using ci by (simp add: committed_image_def)
  from placement_image [OF this len] have "placement (ff_bytes f) b m = Some (stored_layouts m ls, m)"
    by (simp add: assms(2))
  with bt have "ld' = booted (crc32_iso_hdlc img) b m ls" unfolding same boots_to_def booted_def by simp
  with v show ?thesis by (intro that) simp
qed

section \<open>Tests without an image\<close>

definition crc32_iso_hdlc_matches_known_vector :: "unit may_panic" where
  "crc32_iso_hdlc_matches_known_vector =
     assert_that (crc32_iso_hdlc [0x31, 0x32, 0x33, 0x34, 0x35, 0x36, 0x37, 0x38, 0x39] = 0xcbf43926)"

definition dispatches_bpf_operations_and_query_responses :: "unit may_panic" where
  "dispatches_bpf_operations_and_query_responses = do {
     let request = (load_request [0, 8, 0, 0, 0, 0, 0, 0])\<lparr>req_sequence := 3\<rparr>;
     s \<leftarrow> answered_with (status_frame STATUS_OK 3) (dispatch_with_bpf request (fresh_state ()));
     let request = request\<lparr>req_command := CMD_QUERY_BPF_CRC, req_payload_len := 0, req_sequence := 4\<rparr>;
     s \<leftarrow> answered_with (status_frame STATUS_BUSY 4) (dispatch_with_bpf request s);
     Some ()
   }"

lemma small_tests_pass:
  "crc32_iso_hdlc_matches_known_vector = Some ()"
  "dispatches_bpf_operations_and_query_responses = Some ()"
proof -
  show "crc32_iso_hdlc_matches_known_vector = Some ()"
    by (simp add: crc32_iso_hdlc_matches_known_vector_def crc32_check_value assert_that_def)
  define backing :: bytes where "backing = replicate BPF_MAX_MAP_BYTES 0"
  show "dispatches_bpf_operations_and_query_responses = Some ()"
    unfolding dispatches_bpf_operations_and_query_responses_def fresh_state_def backing_def [symmetric]
    by code_simp
qed

section \<open>Loader tests\<close>

definition descriptor_image :: "bytes may_panic" where
  "descriptor_image = do {
     let bytecode = replicate 8 0;
     let descriptor = [1, 0, 0, 0, 4, 0, 0, 0, 1, 0, 0, 0, 1, 0, 0, 0];
     image \<leftarrow> copy_into (replicate 24 0) 0 bytecode;
     copy_into image 8 descriptor
   }"

definition loader_commits_valid_image_and_reports_crc :: "unit may_panic" where
  "loader_commits_valid_image_and_reports_crc = do {
     image \<leftarrow> descriptor_image;
     let crc = crc32_iso_hdlc image;
     begin \<leftarrow> begin_bytes 8 1 crc;
     (res, ld) \<leftarrow> accepts_load loader_new (load_request begin);
     assert_that (res = Inr ());
     assert_that (query ld = Inl STATUS_BUSY);
     (ld, f) \<leftarrow> execute_pending fake_api ld fake_new;
     (ld, f) \<leftarrow> load_chunks [(0, take 12 image), (12, drop 12 image)] ld f;
     (ld, f) \<leftarrow> load_step [2] ld f;
     assert_that (query ld = Inr crc);
     (rebooted, f) \<leftarrow> validate_committed fake_api loader_new f;
     assert_that (query rebooted = Inr crc)
   }"

definition loader_rejects_invalid_transfer_and_never_commits_partial_image :: "unit may_panic" where
  "loader_rejects_invalid_transfer_and_never_commits_partial_image = do {
     ld \<leftarrow> rejects STATUS_BAD_LENGTH [0, 7, 0, 0, 0, 0, 0, 0] loader_new;
     ld \<leftarrow> rejects STATUS_BAD_STATE [1, 0, 0, 1, 2] ld;
     let begin = [0, 8, 0, 0, 0, 0, 0, 0];
     (res, ld) \<leftarrow> accepts_load ld (load_request begin);
     assert_that (res = Inr ());
     ld \<leftarrow> rejects STATUS_BUSY begin ld;
     (ld, f) \<leftarrow> execute_pending fake_api ld fake_new;
     ld \<leftarrow> rejects STATUS_BAD_STATE [1, 2, 0, 1, 2] ld;
     ld \<leftarrow> rejects STATUS_BAD_STATE [2] ld;
     assert_that (query ld = Inl STATUS_NO_PROGRAM)
   }"

definition loader_retains_flash_and_crc_failures_for_query :: "unit may_panic" where
  "loader_retains_flash_and_crc_failures_for_query = do {
     let begin = [0, 8, 0, 0, 0, 0, 0, 0];
     (res, ld) \<leftarrow> accepts_load loader_new (load_request begin);
     assert_that (res = Inr ());
     (ld, f) \<leftarrow> execute_pending fake_api ld (fake_new\<lparr>ff_fail_write := True\<rparr>);
     assert_that (query ld = Inl STATUS_FLASH_ERROR);
     (ld, f) \<leftarrow> load_step begin ld (f\<lparr>ff_fail_write := False\<rparr>);
     (ld, f) \<leftarrow> load_step [1, 0, 0, 0, 0, 0, 0, 0, 0, 0, 0] ld f;
     (ld, f) \<leftarrow> load_step [2] ld f;
     assert_that (query ld = Inl STATUS_BAD_CRC)
   }"

definition invalid_map_image :: "bytes may_panic" where
  "invalid_map_image = do {
     image \<leftarrow> copy_into (replicate 24 0) 8 (to_le_bytes 4 (2 :: u32));
     image \<leftarrow> copy_into image 12 (to_le_bytes 4 (4 :: u32));
     image \<leftarrow> copy_into image 16 (to_le_bytes 4 (1 :: u32));
     copy_into image 20 (to_le_bytes 4 (1 :: u32))
   }"

definition loader_rejects_invalid_map_definitions_at_finalize :: "unit may_panic" where
  "loader_rejects_invalid_map_definitions_at_finalize = do {
     image \<leftarrow> invalid_map_image;
     let crc = crc32_iso_hdlc image;
     begin \<leftarrow> begin_bytes 8 1 crc;
     (ld, f) \<leftarrow> load_step begin loader_new fake_new;
     (ld, f) \<leftarrow> load_chunks [(0, take 12 image), (12, drop 12 image)] ld f;
     (ld, f) \<leftarrow> load_step [2] ld f;
     assert_that (query ld = Inl STATUS_BAD_STATE)
   }"

text \<open>The images as lists.\<close>

lemma descriptor_image_value:
  "descriptor_image = Some (replicate 8 0 @ [1, 0, 0, 0, 4, 0, 0, 0, 1, 0, 0, 0, 1, 0, 0, 0])"
  by code_simp

lemma descriptor_image_maps:
  "image_maps (replicate 8 0 @ [1, 0, 0, 0, 4, 0, 0, 0, 1, 0, 0, 0, 1, 0, 0, 0]) 8 1
     = Some [\<lparr>ml_offset = 0, ml_len = 1, ml_key_size = 4, ml_value_size = 1\<rparr>]"
  by code_simp

lemma invalid_map_image_value:
  "invalid_map_image = Some (replicate 8 0 @ [2, 0, 0, 0, 4, 0, 0, 0, 1, 0, 0, 0, 1, 0, 0, 0])"
  by code_simp

lemma invalid_map_image_maps:
  "image_maps (replicate 8 0 @ [2, 0, 0, 0, 4, 0, 0, 0, 1, 0, 0, 0, 1, 0, 0, 0]) 8 1 = None"
  by code_simp

text \<open>The loads of the tests, with the first request apart.\<close>

lemma two_chunk_load:
  assumes "length img = 24"
  shows "load_payloads 8 1 c [take 12 img, drop 12 img]
      = begin_payload 8 1 c # map (case_prod data_payload) [(0, take 12 img), (12, drop 12 img)] @ [[2]]"
    and "concat [take 12 img, drop 12 img] = img" and "list_all chunk_ok [take 12 img, drop 12 img]"
    and "list_all (\<lambda>(offset, chunk). length chunk \<le> 12) [(0, take 12 img), (12, drop 12 img)]"
    and "image_bounds 8 1" and "length img = unat (8 :: u16) + 16 * unat (1 :: u8)"
  using assms by (simp_all add: load_payloads_def finalize_payload_def chunk_ok_def image_bounds_def)

lemma load_in_chunks:
  assumes "list_all (\<lambda>(offset, chunk). length chunk \<le> 12) chunks"
    and "load_steps (begin # map (case_prod data_payload) chunks @ [[2]]) ld f = Some (ld', f')"
  obtains ld2 f2 ld3 f3 where "load_step begin ld f = Some (ld2, f2)"
    and "load_chunks chunks ld2 f2 = Some (ld3, f3)" and "load_step [2] ld3 f3 = Some (ld', f')"
  using assms(2) unfolding load_steps.simps(2) load_steps_append load_chunks_steps [OF assms(1)]
  by (auto simp: bind_eq_Some_conv)

lemma accepted_busy:
  assumes "accepts_load ld r = Some (Inr (), ld')"
  shows "query ld' = Inl STATUS_BUSY"
proof -
  have one: "ld_pending ld' \<noteq> None"
    if "(case d of Inl status \<Rightarrow> Some (Inl status, ld)
      | Inr op \<Rightarrow> Some (Inr (), ld\<lparr>ld_pending := Some op\<rparr>)) = Some (Inr (), ld')" for d
    using that by (cases d) auto
  have free: "\<not> (ld_pending ld \<noteq> None)" "\<not> is_running (ld_state ld)"
    using assms by (auto simp: accepts_load_def split: if_splits)
  have "ld_pending ld' \<noteq> None"
    using assms one unfolding accepts_load_def if_not_P [OF free(1)] if_not_P [OF free(2)] bind_eq_Some_conv
    by blast
  then show ?thesis by (simp add: query_def)
qed

lemma loader_test_commits: "loader_commits_valid_image_and_reports_crc = Some ()"
proof -
  define img :: bytes where "img = replicate 8 0 @ [1, 0, 0, 0, 4, 0, 0, 0, 1, 0, 0, 0, 1, 0, 0, 0]"
  have len: "length img = 24" by (simp add: img_def)
  note ck = two_chunk_load [OF len]
  have maps: "image_maps img 8 1 = Some [\<lparr>ml_offset = 0, ml_len = 1, ml_key_size = 4, ml_value_size = 1\<rparr>]"
    unfolding img_def by (rule descriptor_image_maps)
  let ?c = "crc32_iso_hdlc img"
  obtain ld' f' where steps: "load_steps (load_payloads 8 1 ?c [take 12 img, drop 12 img]) loader_new fake_new = Some (ld', f')"
    and co: "committed_on ld' f' 8 1 img"
    using load_commits [OF idle_on_new ck(5) ck(2,6,3)] maps by (metis option.distinct(1))
  obtain ld2 f2 ld3 f3 where "load_step (begin_payload 8 1 ?c) loader_new fake_new = Some (ld2, f2)"
    and rest: "load_chunks [(0, take 12 img), (12, drop 12 img)] ld2 f2 = Some (ld3, f3)"
      "load_step [2] ld3 f3 = Some (ld', f')"
    using load_in_chunks [OF ck(4) steps [unfolded ck(1)]] .
  then obtain ld where acc: "accepts_load loader_new (load_request (begin_payload 8 1 ?c)) = Some (Inr (), ld)"
    and ex: "execute_pending fake_api ld fake_new = Some (ld2, f2)"
    by (auto simp: load_step_def assert_that_def bind_eq_Some_conv split: if_splits)
  obtain rebooted f'' where boot: "validate_committed fake_api loader_new f' = Some (rebooted, f'')"
    "query rebooted = Inr ?c"
    using committed_reboots [OF co maps] query_booted by metis
  show ?thesis
    using acc accepted_busy [OF acc] ex rest committed_query [OF co] boot
    unfolding loader_commits_valid_image_and_reports_crc_def descriptor_image_value img_def [symmetric]
    by (simp add: Let_def begin_bytes_value assert_that_def del: load_chunks.simps)
qed

lemma loader_test_invalid_maps: "loader_rejects_invalid_map_definitions_at_finalize = Some ()"
proof -
  define img :: bytes where "img = replicate 8 0 @ [2, 0, 0, 0, 4, 0, 0, 0, 1, 0, 0, 0, 1, 0, 0, 0]"
  have len: "length img = 24" by (simp add: img_def)
  note ck = two_chunk_load [OF len]
  have maps: "image_maps img 8 1 = None" unfolding img_def by (rule invalid_map_image_maps)
  let ?c = "crc32_iso_hdlc img"
  obtain ld' f' where steps: "load_steps (load_payloads 8 1 ?c [take 12 img, drop 12 img]) loader_new fake_new = Some (ld', f')"
    and st: "ld_pending ld' = None"
      "session_rel ld' (ff_bytes f') (session_step (Transfer 8 1 ?c (concat [take 12 img, drop 12 img])) Finalize)"
    using load_session [OF idle_on_new ck(5) _ ck(3), of ?c] ck(2,6) by metis
  obtain ld2 f2 ld3 f3
    where rest: "load_step (begin_payload 8 1 ?c) loader_new fake_new = Some (ld2, f2)"
      "load_chunks [(0, take 12 img), (12, drop 12 img)] ld2 f2 = Some (ld3, f3)"
      "load_step [2] ld3 f3 = Some (ld', f')"
    using load_in_chunks [OF ck(4) steps [unfolded ck(1)]] .
  have "query ld' = Inl STATUS_BAD_STATE"
    using st maps unfolding ck(2) by (simp add: query_def)
  then show ?thesis
    using rest
    unfolding loader_rejects_invalid_map_definitions_at_finalize_def invalid_map_image_value img_def [symmetric]
    by (simp add: Let_def begin_bytes_value assert_that_def del: load_chunks.simps)
qed

lemma receiving_after_begin:
  assumes "idle_on ld f" and "image_bounds b m"
  obtains ld1 ld' f' where "accepts_load ld (load_request (begin_payload b m c)) = Some (Inr (), ld1)"
    and "ld_pending ld1 \<noteq> None" and "execute_pending fake_api ld1 f = Some (ld', f')"
    and "loader_inv ld'" and "ld_pending ld' = None" and "ld_state ld' = Receiving"
    and "ld_next_offset ld' = 0" and "unat (ld_image_len ld') = unat b + 16 * unat m"
proof -
  have i: "loader_inv ld" "ld_pending ld = None" "\<not> is_running (ld_state ld)" "device_inv ld (ff_bytes f)"
    "\<not> ff_fail_write f" "0x8000 \<le> length (ff_bytes f)"
    using assms(1) by (simp_all add: idle_on_def)
  have len: "length (begin_payload b m c) \<le> 16" by (simp add: begin_payload_def)
  have "decode_load ld (begin_payload b m c) = Some (Inr (Begin b m c))"
    using assms(2) by (simp add: decode_begin_payload)
  note p = len this
  obtain s where "session_rel ld (ff_bytes f) s" using session_of_device [OF i(4)] by blast
  from fake.host_op [OF i(1-3) p this i(5,6)] obtain ld' f'
    where h: "host_load fake_api [begin_payload b m c] ld f = Some (replicate (Suc 0) (Inr ()), ld', f')"
      "loader_inv ld'" "ld_pending ld' = None"
    and r: "session_rel ld' (ff_bytes f') (Transfer b m c [])" by auto
  from h(1) obtain ld1 where a: "accepts_load ld (load_request (begin_payload b m c)) = Some (Inr (), ld1)"
    "execute_pending fake_api ld1 f = Some (ld', f')"
    by (rule host_load_ConsE) auto
  have "ld_pending ld1 \<noteq> None" using accepts_decoded [OF i(2,3) p] a(1) by auto
  moreover have "ld_next_offset ld' = 0" using r by (simp add: receiving_def unat_eq_0)
  moreover have "unat (ld_image_len ld') = unat b + 16 * unat m"
    using h(2) r by (simp add: loader_inv_def transfer_ok_def)
  ultimately show ?thesis using that a h r by simp
qed

lemma loader_test_partial: "loader_rejects_invalid_transfer_and_never_commits_partial_image = Some ()"
proof -
  have b: "[0, 8, 0, 0, 0, 0, 0, 0] = begin_payload 8 0 0" by code_simp
  have ib: "image_bounds 8 0" by (simp add: image_bounds_def)
  obtain ld1 ld f where h: "accepts_load loader_new (load_request (begin_payload 8 0 0)) = Some (Inr (), ld1)"
    "ld_pending ld1 \<noteq> None" "execute_pending fake_api ld1 fake_new = Some (ld, f)"
    and st: "ld_pending ld = None" "ld_state ld = Receiving" "ld_next_offset ld = 0"
      "unat (ld_image_len ld) = unat (8 :: u16) + 16 * unat (0 :: u8)"
    by (rule receiving_after_begin [OF idle_on_new ib, where c = 0]) (rule that)
  have new: "rejects STATUS_BAD_LENGTH [0, 7, 0, 0, 0, 0, 0, 0] loader_new = Some loader_new"
    "rejects STATUS_BAD_STATE [1, 0, 0, 1, 2] loader_new = Some loader_new"
    by code_simp+
  have busy: "rejects STATUS_BUSY (begin_payload 8 0 0) ld1 = Some ld1"
    using h(2) by (simp add: rejects_def accepts_load_def assert_that_def)
  have sl: "slice (req_payload (load_request p)) 0 (unat (req_payload_len (load_request p))) = Some p"
    if "length p \<le> 16" for p
    using load_request_wf [OF that] by (simp add: wf_request_def slice_def request_body_def)
  have "ld_image_len ld \<noteq> 0" using st(4) by (auto simp: unat_eq_0)
  then have bad: "rejects STATUS_BAD_STATE [1, 2, 0, 1, 2] ld = Some ld" "rejects STATUS_BAD_STATE [2] ld = Some ld"
    using st sl [of "[1, 2, 0, 1, 2]"] sl [of "[2]"]
    by (simp_all add: rejects_def accepts_load_def decode_load_def decode_data_def decode_finalize_def
        assert_that_def le_bytes_eval)
  show ?thesis
    unfolding loader_rejects_invalid_transfer_and_never_commits_partial_image_def Let_def b
    using new h busy bad st(1,2) by (simp add: assert_that_def query_def)
qed

text \<open>The image of eight zero bytes.\<close>

lemma zero_payloads:
  "load_payloads 8 0 c [replicate 8 0] = [begin_payload 8 0 c, [1, 0, 0, 0, 0, 0, 0, 0, 0, 0, 0], [2]]"
  by (simp add: load_payloads_def data_payload_def finalize_payload_def le_bytes_eval eval_nat_numeral)

lemma zero_load:
  "image_bounds 8 0" "concat [replicate 8 0] = (replicate 8 0 :: bytes)"
  "length (replicate 8 0 :: bytes) = unat (8 :: u16) + 16 * unat (0 :: u8)"
  "list_all chunk_ok [replicate 8 0]" "image_maps (replicate 8 0) 8 0 = Some []"
  by (simp_all add: image_bounds_def chunk_ok_def image_maps_def)

lemma fake_erase_keeps:
  "fake_erase f a b = (ok, f') \<Longrightarrow> ff_fail_write f' = ff_fail_write f \<and> length (ff_bytes f') = length (ff_bytes f)"
  by (auto simp: fake_erase_def slice_def split: if_splits)

lemma begin_fails:
  assumes "ff_fail_write f"
  shows "\<exists>f'. loader_begin fake_api ld f 8 0 c = ((clear_map_layouts ld)\<lparr>ld_state := Failed STATUS_FLASH_ERROR\<rparr>, f')
    \<and> length (ff_bytes f') = length (ff_bytes f)"
proof -
  have n: "image_len 8 0 = Some 8" by (simp add: image_len_eq)
  obtain ok f' where e: "fake_erase f BPF_FLASH_OFFSET (BPF_FLASH_OFFSET + of_nat (erase_pages (BPF_HEADER_SIZE + 8) * 4096))
      = (ok, f')" by (metis surj_pair)
  from fake_erase_keeps [OF this] assms have "fake_write f' off bs = (False, f')" for off bs
    by (simp add: fake_write_def)
  then show ?thesis using n e fake_erase_keeps [OF e] by (cases ok) (simp_all add: loader_begin_def)
qed

lemma loader_test_failures: "loader_retains_flash_and_crc_failures_for_query = Some ()"
proof -
  have b: "[0, 8, 0, 0, 0, 0, 0, 0] = begin_payload 8 0 0" by code_simp
  have p: "length (begin_payload 8 0 0) \<le> 16" "decode_load loader_new (begin_payload 8 0 0) = Some (Inr (Begin 8 0 0))"
    by code_simp+
  have new: "ld_pending loader_new = None" "\<not> is_running (ld_state loader_new)" by (simp_all add: loader_new_def)
  let ?begun = "loader_new\<lparr>ld_pending := Some (Begin 8 0 0)\<rparr>"
  let ?failed = "(clear_map_layouts loader_new)\<lparr>ld_state := Failed STATUS_FLASH_ERROR\<rparr>"
  have acc: "accepts_load loader_new (load_request (begin_payload 8 0 0)) = Some (Inr (), ?begun)"
    by (rule accepts_decoded [OF new p])
  obtain f where f: "loader_begin fake_api loader_new (fake_new\<lparr>ff_fail_write := True\<rparr>) 8 0 0 = (?failed, f)"
    "length (ff_bytes f) = length (ff_bytes fake_new)"
    using begin_fails [of "fake_new\<lparr>ff_fail_write := True\<rparr>" loader_new 0] by auto
  have "?begun\<lparr>ld_pending := None\<rparr> = loader_new" by (simp add: loader_new_def)
  then have ex: "execute_pending fake_api ?begun (fake_new\<lparr>ff_fail_write := True\<rparr>) = Some (?failed, f)"
    using f(1) by (simp add: execute_pending_def)
  have q: "query ?failed = Inl STATUS_FLASH_ERROR" using new by (simp add: query_def clear_map_layouts_def)
  have idle: "idle_on ?failed (f\<lparr>ff_fail_write := False\<rparr>)"
    using f(2) new by (simp add: idle_on_def loader_inv_def clear_map_layouts_def empty_layouts_def
        device_inv_def fake_new_def)
  have len: "length (concat [replicate 8 0 :: bytes]) = unat (8 :: u16) + 16 * unat (0 :: u8)" by simp
  obtain ld' f' where l: "load_steps (load_payloads 8 0 0 [replicate 8 0]) ?failed (f\<lparr>ff_fail_write := False\<rparr>) = Some (ld', f')"
    "ld_pending ld' = None"
    and "session_rel ld' (ff_bytes f') (session_step (Transfer 8 0 0 (concat [replicate 8 0])) Finalize)"
    by (rule load_session [OF idle zero_load(1) len zero_load(4), of 0]) (rule that)
  then have r: "session_rel ld' (ff_bytes f') (session_step (Transfer 8 0 0 (replicate 8 0)) Finalize)"
    by simp
  have z: "replicate 8 (0 :: u8) = [0, 0, 0, 0, 0, 0, 0, 0]" by (simp add: eval_nat_numeral)
  have "crc32_iso_hdlc (replicate 8 0) \<noteq> 0" unfolding z by (simp add: crc32_eval)
  then have "query ld' = Inl STATUS_BAD_CRC" using l(2) r by (simp add: query_def)
  then show ?thesis
    using acc ex q l(1)
    unfolding loader_retains_flash_and_crc_failures_for_query_def Let_def b zero_payloads
    by (auto simp: assert_that_def case_prod_beta' bind_eq_Some_conv)
qed

section \<open>Tests of Start\<close>

text \<open>The closure that must not be called.\<close>

definition panics :: "'w executor" where
  "panics metadata backing w = None"

definition start_bpf_executes_once_and_enters_running_state :: "unit may_panic" where
  "start_bpf_executes_once_and_enters_running_state = do {
     (crc, ld, f) \<leftarrow> load_zero_program loader_new fake_new;
     let request = request_empty\<lparr>req_command := CMD_START_BPF, req_sequence := 12\<rparr>;
     let s = (fresh_state (0 :: nat))\<lparr>ds_loader := ld\<rparr>;
     s \<leftarrow> answered_with (status_frame STATUS_OK 12)
       (dispatch_with_bpf_and_executor
         (\<lambda>metadata backing invocations. Some (Inr 0, backing, invocations + 1)) request s);
     assert_that (ds_world s = 1);
     assert_that (query (ds_loader s) = Inr crc);
     ld \<leftarrow> rejects STATUS_BAD_STATE [0, 8, 0, 0, 0, 0, 0, 0] (ds_loader s);
     s \<leftarrow> answered_with (status_frame STATUS_BAD_STATE 12)
       (dispatch_with_bpf_and_executor panics request (s\<lparr>ds_loader := ld\<rparr>));
     Some ()
   }"

definition start_bpf_rejects_invalid_requests_and_execution_failures :: "unit may_panic" where
  "start_bpf_rejects_invalid_requests_and_execution_failures = do {
     let s = fresh_state ();
     let request = request_empty\<lparr>req_command := CMD_START_BPF, req_sequence := 13\<rparr>;
     s \<leftarrow> answered_with (status_frame STATUS_NO_PROGRAM 13) (dispatch_with_bpf_and_executor panics request s);
     let request = request\<lparr>req_flags := 1\<rparr>;
     s \<leftarrow> answered_with (status_frame STATUS_BAD_FLAGS 13) (dispatch_with_bpf_and_executor panics request s);
     let request = request\<lparr>req_flags := 0, req_payload_len := 1\<rparr>;
     s \<leftarrow> answered_with (status_frame STATUS_BAD_LENGTH 13) (dispatch_with_bpf_and_executor panics request s);
     (crc, ld, f) \<leftarrow> load_zero_program (ds_loader s) fake_new;
     let s = s\<lparr>ds_loader := ld\<rparr>;
     let request = request\<lparr>req_payload_len := 0, req_sequence := 14\<rparr>;
     s \<leftarrow> answered_with (status_frame STATUS_BAD_COMMAND 14)
       (dispatch_with_bpf_and_executor (\<lambda>metadata backing w. Some (Inr 1, backing, w)) request s);
     let request = request\<lparr>req_sequence := 15\<rparr>;
     s \<leftarrow> answered_with (status_frame STATUS_BAD_COMMAND 15)
       (dispatch_with_bpf_and_executor (\<lambda>metadata backing w. Some (Inl STATUS_BAD_COMMAND, backing, w)) request s);
     Some ()
   }"

definition start_bpf_rejects_pending_loads_without_executing :: "unit may_panic" where
  "start_bpf_rejects_pending_loads_without_executing = do {
     (crc, ld, f) \<leftarrow> load_zero_program loader_new fake_new;
     (res, ld) \<leftarrow> accepts_load ld (load_request (zero_begin crc));
     assert_that (res = Inr ());
     let request = request_empty\<lparr>req_command := CMD_START_BPF, req_sequence := 16\<rparr>;
     s \<leftarrow> answered_with (status_frame STATUS_BUSY 16)
       (dispatch_with_bpf_and_executor panics request ((fresh_state ())\<lparr>ds_loader := ld\<rparr>));
     assert_that (has_pending (ds_loader s));
     assert_that (query (ds_loader s) = Inl STATUS_BUSY)
   }"

lemma load_zero_value:
  assumes "idle_on ld f"
  obtains ld' f' where "load_zero_program ld f = Some (crc32_iso_hdlc (replicate 8 0), ld', f')"
    and "committed_on ld' f' 8 0 (replicate 8 0)"
proof -
  let ?c = "crc32_iso_hdlc (replicate 8 0)"
  obtain ld' f' where l: "load_steps (load_payloads 8 0 ?c [replicate 8 0]) ld f = Some (ld', f')"
    and co: "committed_on ld' f' 8 0 (replicate 8 0)"
    using load_commits [OF assms zero_load(1-4)] zero_load(5) by (metis option.distinct(1))
  have pl: "set_at (replicate 11 0) 0 1 = Some (1 # replicate 10 0 :: bytes)"
    "copy_into (1 # replicate 10 0 :: bytes) 3 (replicate 8 0) = Some [1, 0, 0, 0, 0, 0, 0, 0, 0, 0, 0]"
    by (simp_all add: set_at_def copy_into_def eval_nat_numeral)
  have "load_zero_program ld f = Some (?c, ld', f')"
    using l unfolding load_zero_program_def Let_def zero_begin_payload zero_payloads
    by (auto simp: case_prod_beta' bind_eq_Some_conv pl)
  then show ?thesis using co by (rule that)
qed

text \<open>An answer without payload, as the tests check it.\<close>

lemma answered_respond:
  assumes "length (ds_output s) = 21" and "req_sequence r = sq"
  shows "answered_with (status_frame st sq) (respond r s st [])
    = Some (s\<lparr>ds_output := status_frame st sq @ drop 5 (ds_output s)\<rparr>)"
  using encode_response_ok [of "ds_output s" "[]" st sq 0] assms
  by (simp add: answered_with_def respond_def response_def status_frame_def slice_def assert_that_def)

lemma length_status_frame: "length (status_frame st sq) = 5"
  by (simp add: status_frame_def)

definition plain_start :: "request \<Rightarrow> bool" where
  "plain_start r \<longleftrightarrow> req_command r = CMD_START_BPF \<and> req_flags r = 0 \<and> req_payload_len r = 0"

lemma start_refused:
  assumes "plain_start r" and "req_sequence r = sq" and "length (ds_output s) = 21"
    and "execution_metadata (ds_loader s) = Some (Inl st)"
  shows "answered_with (status_frame st sq) (dispatch_with_bpf_and_executor execute r s)
    = Some (s\<lparr>ds_output := status_frame st sq @ drop 5 (ds_output s)\<rparr>)"
  using answered_respond [OF assms(3,2)] assms(1,4)
  by (simp add: plain_start_def dispatch_with_bpf_and_executor_def handle_start_def command_codes)

lemma start_ran:
  assumes "plain_start r" and "req_sequence r = sq" and "length (ds_output s) = 21"
    and "execution_metadata (ds_loader s) = Some (Inr md)"
    and "execute md (ds_backing s) (ds_world s) = Some (res, backing, w)"
    and "start_status res (ds_loader s) = (st, ld)"
  shows "answered_with (status_frame st sq) (dispatch_with_bpf_and_executor execute r s)
    = Some (s\<lparr>ds_loader := ld, ds_backing := backing, ds_world := w,
        ds_output := status_frame st sq @ drop 5 (ds_output s)\<rparr>)"
  using answered_respond [of "s\<lparr>ds_loader := ld, ds_backing := backing, ds_world := w\<rparr>" r sq st] assms
  by (simp add: plain_start_def dispatch_with_bpf_and_executor_def handle_start_def command_codes)

lemma committed_state:
  assumes "committed_on ld f b m img"
  shows "execution_metadata ld = Some (Inr (program_metadata ld))"
    and "start_status (Inr 0) ld = (STATUS_OK, ld\<lparr>ld_state := Running (crc32_iso_hdlc img)\<rparr>)"
    and "loader_inv (ld\<lparr>ld_state := Running (crc32_iso_hdlc img)\<rparr>)" and "ld_pending ld = None"
    and "loader_inv ld" and "idle_on ld f" and "ld_state ld = Committed (crc32_iso_hdlc img)"
  using assms execution_metadata_value [of ld] mark_running_committed [of ld "crc32_iso_hdlc img"]
  by (simp_all add: committed_on_def idle_on_def start_status_def)

lemma fresh_state_output: "length (ds_output (fresh_state w)) = 21" "ds_world (fresh_state w) = w"
  by (simp_all add: fresh_state_def)

lemma start_test_runs_once: "start_bpf_executes_once_and_enters_running_state = Some ()"
proof -
  let ?c = "crc32_iso_hdlc (replicate 8 0)"
  obtain ld f where l: "load_zero_program loader_new fake_new = Some (?c, ld, f)"
    and co: "committed_on ld f 8 0 (replicate 8 0)"
    using load_zero_value [OF idle_on_new] .
  let ?running = "ld\<lparr>ld_state := Running ?c\<rparr>" let ?r = "request_empty\<lparr>req_command := CMD_START_BPF, req_sequence := 12\<rparr>"
  let ?s = "(fresh_state (0 :: nat))\<lparr>ds_loader := ld\<rparr>"
  define t where "t = ?s\<lparr>ds_loader := ?running, ds_world := 1, ds_output := status_frame STATUS_OK 12 @ drop 5 (ds_output ?s)\<rparr>"
  have t: "ds_loader t = ?running" "ds_world t = 1" "length (ds_output t) = 21"
    by (simp_all add: t_def length_status_frame fresh_state_output)
  have r: "plain_start ?r" "req_sequence ?r = 12" by (simp_all add: plain_start_def request_empty_def)
  have one: "answered_with (status_frame STATUS_OK 12) (dispatch_with_bpf_and_executor
      (\<lambda>metadata backing invocations. Some (Inr 0, backing, invocations + 1)) ?r ?s) = Some t"
    using start_ran [OF r, of ?s] committed_state [OF co] fresh_state_output [of "0 :: nat"]
    by (simp add: t_def)
  have "execution_metadata ?running = Some (Inl STATUS_BAD_STATE)"
    using execution_metadata_value [of ?running] committed_state [OF co] by simp
  then have two: "\<exists>u. answered_with (status_frame STATUS_BAD_STATE 12)
      (dispatch_with_bpf_and_executor panics ?r (t\<lparr>ds_loader := ?running\<rparr>)) = Some u"
    using start_refused [OF r, of "t\<lparr>ds_loader := ?running\<rparr>"] t(3) by simp
  have "query ?running = Inr ?c" "rejects STATUS_BAD_STATE p ?running = Some ?running" for p
    using committed_state(4) [OF co] by (simp_all add: query_def rejects_def accepts_load_def assert_that_def)
  then show ?thesis
    using one two l t(1,2) unfolding start_bpf_executes_once_and_enters_running_state_def Let_def
    by (auto simp: assert_that_def)
qed

lemma start_test_failures: "start_bpf_rejects_invalid_requests_and_execution_failures = Some ()"
proof -
  let ?c = "crc32_iso_hdlc (replicate 8 0)"
  obtain ld f where l: "load_zero_program loader_new fake_new = Some (?c, ld, f)"
    and co: "committed_on ld f 8 0 (replicate 8 0)"
    using load_zero_value [OF idle_on_new] .
  define s0 :: "unit dispatch_state" where "s0 = fresh_state ()"
  define s1 where "s1 = s0\<lparr>ds_output := status_frame STATUS_NO_PROGRAM 13 @ drop 5 (ds_output s0)\<rparr>"
  define s2 where "s2 = s1\<lparr>ds_output := status_frame STATUS_BAD_FLAGS 13 @ drop 5 (ds_output s1)\<rparr>"
  define s3 where "s3 = s2\<lparr>ds_output := status_frame STATUS_BAD_LENGTH 13 @ drop 5 (ds_output s2)\<rparr>"
  define s4 where "s4 = s3\<lparr>ds_loader := ld\<rparr>"
  define s5 where "s5 = s4\<lparr>ds_output := status_frame STATUS_BAD_COMMAND 14 @ drop 5 (ds_output s4)\<rparr>"
  have len: "length (ds_output s0) = 21" "length (ds_output s1) = 21" "length (ds_output s2) = 21"
    "length (ds_output s3) = 21" "length (ds_output s4) = 21" "length (ds_output s5) = 21"
    by (simp_all add: s0_def s1_def s2_def s3_def s4_def s5_def fresh_state_output length_status_frame)
  have ld0: "ds_loader s0 = loader_new" "ds_loader s1 = loader_new" "ds_loader s2 = loader_new" "ds_loader s3 = loader_new"
    by (simp_all add: s0_def s1_def s2_def s3_def fresh_state_def)
  have ld4: "ds_loader s4 = ld" "ds_loader s5 = ld" by (simp_all add: s4_def s5_def)
  let ?r = "request_empty\<lparr>req_command := CMD_START_BPF, req_sequence := 13\<rparr>"
  have "execution_metadata loader_new = Some (Inl STATUS_NO_PROGRAM)"
    using execution_metadata_value [OF loader_inv_new] by (simp add: loader_new_def)
  then have a1: "answered_with (status_frame STATUS_NO_PROGRAM 13) (dispatch_with_bpf_and_executor panics ?r s0) = Some s1"
    using start_refused [of ?r 13 s0] len(1) ld0(1) by (simp add: plain_start_def request_empty_def s1_def)
  let ?r1 = "?r\<lparr>req_flags := 1\<rparr>"
  have a2: "answered_with (status_frame STATUS_BAD_FLAGS 13) (dispatch_with_bpf_and_executor panics ?r1 s1) = Some s2"
    using answered_respond [OF len(2), of ?r1 13] by (simp add: dispatch_with_bpf_and_executor_def s2_def)
  let ?r2 = "?r1\<lparr>req_flags := 0, req_payload_len := 1\<rparr>"
  have a3: "answered_with (status_frame STATUS_BAD_LENGTH 13) (dispatch_with_bpf_and_executor panics ?r2 s2) = Some s3"
    using answered_respond [OF len(3), of ?r2 13]
    by (simp add: dispatch_with_bpf_and_executor_def handle_start_def command_codes s3_def)
  let ?r3 = "?r2\<lparr>req_payload_len := 0, req_sequence := 14\<rparr>"
  have a4: "answered_with (status_frame STATUS_BAD_COMMAND 14) (dispatch_with_bpf_and_executor
      (\<lambda>metadata backing w. Some (Inr 1, backing, w)) ?r3 s4) = Some s5"
    using start_ran [of ?r3 14 s4 "program_metadata ld"] committed_state(1) [OF co] len(5) ld4(1)
    by (simp add: plain_start_def start_status_def s5_def)
  let ?r4 = "?r3\<lparr>req_sequence := 15\<rparr>"
  have a5: "\<exists>u. answered_with (status_frame STATUS_BAD_COMMAND 15) (dispatch_with_bpf_and_executor
      (\<lambda>metadata backing w. Some (Inl STATUS_BAD_COMMAND, backing, w)) ?r4 s5) = Some u"
    using start_ran [of ?r4 15 s5 "program_metadata ld"] committed_state(1) [OF co] len(6) ld4(2)
    by (simp add: plain_start_def start_status_def)
  show ?thesis
    using l a1 a2 a3 a4 a5 ld0(4) s4_def
    unfolding start_bpf_rejects_invalid_requests_and_execution_failures_def Let_def s0_def [symmetric]
    by auto
qed

lemma start_test_pending: "start_bpf_rejects_pending_loads_without_executing = Some ()"
proof -
  let ?c = "crc32_iso_hdlc (replicate 8 0)"
  obtain ld f where l: "load_zero_program loader_new fake_new = Some (?c, ld, f)"
    and co: "committed_on ld f 8 0 (replicate 8 0)"
    using load_zero_value [OF idle_on_new] .
  note st = committed_state [OF co]
  let ?pending = "ld\<lparr>ld_pending := Some (Begin 8 0 ?c)\<rparr>"
  have len: "length (begin_payload 8 0 ?c) \<le> 16" by (simp add: begin_payload_def)
  have dec: "decode_load ld (begin_payload 8 0 ?c) = Some (Inr (Begin 8 0 ?c))"
    using zero_load(1) by (simp add: decode_begin_payload)
  have acc: "accepts_load ld (load_request (begin_payload 8 0 ?c)) = Some (Inr (), ?pending)"
    using accepts_decoded [OF st(4) _ len dec] st(7) by simp
  have em: "execution_metadata ?pending = Some (Inl STATUS_BUSY)" by (simp add: execution_metadata_def)
  let ?r = "request_empty\<lparr>req_command := CMD_START_BPF, req_sequence := 16\<rparr>"
  let ?s = "(fresh_state ())\<lparr>ds_loader := ?pending\<rparr>"
  have "answered_with (status_frame STATUS_BUSY 16) (dispatch_with_bpf_and_executor panics ?r ?s)
      = Some (?s\<lparr>ds_output := status_frame STATUS_BUSY 16 @ drop 5 (ds_output ?s)\<rparr>)"
    using start_refused [of ?r 16 ?s] em fresh_state_output(1) [of "()"]
    by (simp add: plain_start_def request_empty_def)
  moreover have "has_pending ?pending" "query ?pending = Inl STATUS_BUSY"
    by (simp_all add: has_pending_def query_def)
  ultimately show ?thesis
    using l acc unfolding start_bpf_rejects_pending_loads_without_executing_def Let_def
    by (simp add: zero_begin_payload assert_that_def)
qed

end
