(* ===== verification/Map_Tests.thy ===== *)
theory Map_Tests
  imports Loader_Tests
begin

text \<open>
  The unit test of \<^verbatim>\<open>crates/optibridge-protocol/src/lib.rs\<close> that loads an image with two
  maps, reboots, and reads and writes the maps through the dispatcher, with every error answer. A
  run of requests is a list: how the request at hand is changed, and the status and payload of the
  answer it must get.
\<close>

section \<open>Runs of requests\<close>

type_synonym check = "(request \<Rightarrow> request) \<times> u8 \<times> bytes"

fun run_checks ::
    "check list \<Rightarrow> request \<Rightarrow> unit dispatch_state \<Rightarrow> (request \<times> unit dispatch_state) may_panic" where
  "run_checks [] r s = Some (r, s)"
| "run_checks ((change, status, payload) # checks) r s = do {
     let r = change r;
     s \<leftarrow> answered_with (reply_frame status 9 payload) (dispatch_with_bpf r s);
     run_checks checks r s
   }"

text \<open>\<open>request.payload[at..].copy_from_slice(bs)\<close>\<close>

definition put_payload :: "nat \<Rightarrow> bytes \<Rightarrow> request \<Rightarrow> request" where
  "put_payload at bs r = r\<lparr>req_payload := take at (req_payload r) @ bs @ drop (at + length bs) (req_payload r)\<rparr>"

definition with_command :: "u8 \<Rightarrow> u8 \<Rightarrow> request \<Rightarrow> request" where
  "with_command command len r = r\<lparr>req_command := command, req_payload_len := len\<rparr>"

definition with_flags :: "u8 \<Rightarrow> request \<Rightarrow> request" where
  "with_flags fl r = r\<lparr>req_flags := fl\<rparr>"

section \<open>The test\<close>

definition two_map_image :: "bytes may_panic" where
  "two_map_image = do {
     image \<leftarrow> copy_into (replicate 40 0) 8 (to_le_bytes 4 (1 :: u32));
     image \<leftarrow> copy_into image 12 (to_le_bytes 4 (4 :: u32));
     image \<leftarrow> copy_into image 16 (to_le_bytes 4 (2 :: u32));
     image \<leftarrow> copy_into image 20 (to_le_bytes 4 (4 :: u32));
     image \<leftarrow> copy_into image 24 (to_le_bytes 4 (1 :: u32));
     image \<leftarrow> copy_into image 28 (to_le_bytes 4 (4 :: u32));
     image \<leftarrow> copy_into image 32 (to_le_bytes 4 (4 :: u32));
     copy_into image 36 (to_le_bytes 4 (8 :: u32))
   }"

text \<open>From the image to the rebooted loader.\<close>

definition load_two_maps :: "bpf_loader may_panic" where
  "load_two_maps = do {
     image \<leftarrow> two_map_image;
     let crc = crc32_iso_hdlc image;
     begin \<leftarrow> begin_bytes 8 2 crc;
     (ld, f) \<leftarrow> load_step begin loader_new fake_new;
     (ld, f) \<leftarrow> load_chunks (map (\<lambda>index. (index * 12, take 12 (drop (index * 12) image))) [0, 1, 2, 3]) ld f;
     (ld, f) \<leftarrow> load_step [2] ld f;
     (ld, f) \<leftarrow> validate_committed fake_api loader_new f;
     assert_that (query ld = Inr crc);
     Some ld
   }"

definition written_bytes :: bytes where
  "written_bytes = [0xa0, 0xa1, 0xa2, 0xa3, 0xa4, 0xa5, 0xa6, 0xa7, 0xa8, 0xa9, 0xaa, 0xab, 0xac, 0xad]"

definition read_check :: check where
  "read_check = (put_payload 0 [1, 12, 0, 16] \<circ> with_command CMD_READ_BPF_MAP 4, STATUS_OK,
     [20, 21, 22, 23, 24, 25, 26, 27, 28, 29, 30, 31, 32, 33, 34, 35])"

definition write_check :: check where
  "write_check = (put_payload 0 ([12, 4] @ written_bytes) \<circ> with_command CMD_WRITE_BPF_MAP 16, STATUS_OK, [])"

definition read_back_check :: check where
  "read_back_check = (put_payload 0 [1, 12, 0, 16] \<circ> with_command CMD_READ_BPF_MAP 4, STATUS_OK,
     written_bytes @ [34, 35])"

definition write_errors :: "check list" where
  "write_errors = [
     (with_command CMD_WRITE_BPF_MAP 2, STATUS_BAD_LENGTH, []),
     (put_payload 0 [0, 0x20, 1] \<circ> with_command CMD_WRITE_BPF_MAP 3, STATUS_BAD_LENGTH, []),
     (put_payload 0 [31, 4, 1, 2] \<circ> with_command CMD_WRITE_BPF_MAP 4, STATUS_BAD_LENGTH, []),
     (put_payload 0 [0, 8, 1, 2], STATUS_BAD_COMMAND, [])]"

definition read_errors :: "check list" where
  "read_errors = [
     (with_flags 1 \<circ> put_payload 0 [0, 0, 1], STATUS_BAD_FLAGS, []),
     (with_flags 1 \<circ> put_payload 0 [1, 12, 0, 16] \<circ> with_command CMD_READ_BPF_MAP 4 \<circ> with_flags 0, STATUS_BAD_FLAGS, []),
     (with_command CMD_READ_BPF_MAP 3 \<circ> with_flags 0, STATUS_BAD_LENGTH, []),
     (put_payload 3 [0] \<circ> with_command CMD_READ_BPF_MAP 4, STATUS_BAD_LENGTH, []),
     (put_payload 3 [17] \<circ> put_payload 3 [16], STATUS_BAD_LENGTH, []),
     (put_payload 0 [2] \<circ> put_payload 3 [16], STATUS_BAD_COMMAND, []),
     (put_payload 1 [31, 0, 2] \<circ> put_payload 0 [1], STATUS_BAD_LENGTH, []),
     (put_payload 1 [0xff, 0xff, 1], STATUS_BAD_LENGTH, [])]"

definition no_program_checks :: "check list" where
  "no_program_checks = [(put_payload 1 [0, 0, 1], STATUS_NO_PROGRAM, [])]"

definition ready_text :: bytes where
  "ready_text = [0x72, 0x65, 0x61, 0x64, 0x79]"

definition last_checks :: "check list" where
  "last_checks = [(with_command CMD_READ_STATUS 0, STATUS_OK, ready_text),
     (with_command CMD_START_BPF 0, STATUS_NOT_IMPLEMENTED, [])]"

definition map_checks :: "bpf_loader \<Rightarrow> unit may_panic" where
  "map_checks ld = do {
     map_backing \<leftarrow> copy_into (replicate BPF_MAX_MAP_BYTES 0) 0 (map of_nat [0..<40]);
     let original_backing = map_backing;
     assert_that (read_map ld 1 0 0 map_backing = Inl STATUS_BAD_LENGTH);
     assert_that (read_map ld 1 0 (of_nat MAX_PAYLOAD + 1) map_backing = Inl STATUS_BAD_LENGTH);
     let s = (fresh_state ())\<lparr>ds_loader := ld, ds_backing := map_backing\<rparr>;
     let request = request_empty\<lparr>req_command := CMD_READ_BPF_MAP, req_sequence := 9, req_payload_len := 4\<rparr>;
     (request, s) \<leftarrow> run_checks [read_check] request s;
     assert_that (ds_backing s = original_backing);
     (request, s) \<leftarrow> run_checks [write_check] request s;
     assert_that (slice (ds_backing s) 20 36 = Some (written_bytes @ [34, 35]));
     assert_that (take 20 (ds_backing s) = take 20 original_backing);
     assert_that (drop 36 (ds_backing s) = drop 36 original_backing);
     (request, s) \<leftarrow> run_checks [read_back_check] request s;
     let updated_backing = ds_backing s;
     (request, s) \<leftarrow> run_checks write_errors request s;
     let (res, backing) = write_map (ds_loader s) 1 0 [] (ds_backing s);
     assert_that (res = Inl STATUS_BAD_LENGTH);
     let (res, backing) = write_map (ds_loader s) 1 0 (replicate (MAX_MAP_WRITE_BYTES + 1) 0) backing;
     assert_that (res = Inl STATUS_BAD_LENGTH);
     let (res, backing) = write_map loader_new 0 0 [1] backing;
     assert_that (res = Inl STATUS_NO_PROGRAM);
     assert_that (backing = updated_backing);
     (request, s) \<leftarrow> run_checks read_errors request (s\<lparr>ds_backing := backing\<rparr>);
     (request, t) \<leftarrow> run_checks no_program_checks request (s\<lparr>ds_loader := loader_new\<rparr>);
     (request, s) \<leftarrow> run_checks last_checks request (t\<lparr>ds_loader := ds_loader s\<rparr>);
     Some ()
   }"

definition read_bpf_map_returns_committed_backing_ranges_and_errors :: "unit may_panic" where
  "read_bpf_map_returns_committed_backing_ranges_and_errors = do {
     ld \<leftarrow> load_two_maps;
     map_checks ld
   }"

section \<open>The load\<close>

definition two_map_bytes :: bytes where
  "two_map_bytes = replicate 8 0 @ [1, 0, 0, 0, 4, 0, 0, 0, 2, 0, 0, 0, 4, 0, 0, 0,
     1, 0, 0, 0, 4, 0, 0, 0, 4, 0, 0, 0, 8, 0, 0, 0]"

definition two_layouts :: "map_layout list" where
  "two_layouts = [\<lparr>ml_offset = 0, ml_len = 8, ml_key_size = 4, ml_value_size = 2\<rparr>,
     \<lparr>ml_offset = 8, ml_len = 32, ml_key_size = 4, ml_value_size = 4\<rparr>]"

lemma two_map_image_value: "two_map_image = Some two_map_bytes"
  by code_simp

lemma two_map_image_maps: "image_maps two_map_bytes 8 2 = Some two_layouts"
  by code_simp

lemma load_two_maps_value:
  "load_two_maps = Some (booted (crc32_iso_hdlc two_map_bytes) 8 2 two_layouts)"
proof -
  let ?img = two_map_bytes let ?c = "crc32_iso_hdlc ?img"
  define at where "at = map (\<lambda>index. (index * 12, take 12 (drop (index * 12) ?img))) [0, 1, 2, 3 :: nat]"
  have len: "length ?img = 40" by (simp add: two_map_bytes_def)
  have cc: "concat (map snd at) = ?img" and ok: "list_all chunk_ok (map snd at)"
    and at: "list_all (\<lambda>(offset, chunk). length chunk \<le> 12) at"
    by (simp_all add: at_def two_map_bytes_def chunk_ok_def)
  have pl: "load_payloads 8 2 ?c (map snd at) = begin_payload 8 2 ?c # map (case_prod data_payload) at @ [[2]]"
    using len by (simp add: at_def load_payloads_def finalize_payload_def)
  have ib: "image_bounds 8 2" "length ?img = unat (8 :: u16) + 16 * unat (2 :: u8)"
    using len by (simp_all add: image_bounds_def)
  obtain ld f where steps: "load_steps (load_payloads 8 2 ?c (map snd at)) loader_new fake_new = Some (ld, f)"
    and co: "committed_on ld f 8 2 ?img"
    using load_commits [OF idle_on_new ib(1) cc ib(2) ok] two_map_image_maps by (metis option.distinct(1))
  obtain f' where boot: "validate_committed fake_api loader_new f = Some (booted ?c 8 2 two_layouts, f')"
    using committed_reboots [OF co two_map_image_maps] .
  obtain ld2 f2 ld3 f3 where "load_step (begin_payload 8 2 ?c) loader_new fake_new = Some (ld2, f2)"
    "load_chunks at ld2 f2 = Some (ld3, f3)" "load_step [2] ld3 f3 = Some (ld, f)"
    using load_in_chunks [OF at steps [unfolded pl]] .
  then show ?thesis
    using boot query_booted [of ?c 8 2 two_layouts]
    unfolding load_two_maps_def two_map_image_value
    by (simp add: Let_def begin_bytes_value assert_that_def flip: at_def del: list.map One_nat_def)
qed

section \<open>The requests\<close>

text \<open>Between two requests the loader, the backing store and the queue are known, and the output
  has its length.\<close>

definition at_state :: "bpf_loader \<Rightarrow> bytes \<Rightarrow> unit dispatch_state \<Rightarrow> bool" where
  "at_state ld backing s \<longleftrightarrow> ds_loader s = ld \<and> ds_backing s = backing \<and> ds_queue s = status_queue_ready
     \<and> length (ds_output s) = MAX_FRAME"

definition passes :: "bpf_loader \<Rightarrow> check list \<Rightarrow> request \<Rightarrow> bytes \<Rightarrow> request \<Rightarrow> bytes \<Rightarrow> bool" where
  "passes ld checks r backing r' backing' \<longleftrightarrow>
     (\<forall>s. at_state ld backing s \<longrightarrow> (\<exists>s'. run_checks checks r s = Some (r', s') \<and> at_state ld backing' s'))"

lemma answered_reply:
  assumes "length (ds_output s) = MAX_FRAME" and "req_sequence r = sq" and "length payload \<le> MAX_PAYLOAD"
  shows "\<exists>out. answered_with (reply_frame st sq payload) (respond r s st payload) = Some (s\<lparr>ds_output := out\<rparr>)
    \<and> length out = MAX_FRAME"
proof -
  obtain outcome out where "respond r s st payload = Some (outcome, s\<lparr>ds_output := out\<rparr>)"
    "length out = MAX_FRAME" "replies (s\<lparr>ds_output := out\<rparr>) outcome st (req_sequence r) payload"
    using respond_replies [OF assms(1,3), of r st] by blast
  then show ?thesis
    using assms(2,3) by (auto simp: answered_with_def replies_def slice_def assert_that_def)
qed

lemma passes_Nil: "passes ld [] r backing r backing"
  by (simp add: passes_def)

lemma passes_Cons:
  assumes "\<And>s. at_state ld backing s \<Longrightarrow>
      dispatch_with_bpf (change r) s = respond (change r) (s\<lparr>ds_backing := backing1\<rparr>) st payload"
    and "req_sequence (change r) = 9" and "length payload \<le> MAX_PAYLOAD"
    and "passes ld checks (change r) backing1 r' backing'"
  shows "passes ld ((change, st, payload) # checks) r backing r' backing'"
  unfolding passes_def
proof (intro allI impI)
  fix s assume s: "at_state ld backing s"
  let ?s = "s\<lparr>ds_backing := backing1\<rparr>"
  have "length (ds_output ?s) = MAX_FRAME" using s by (simp add: at_state_def)
  from answered_reply [OF this assms(2,3), of st] assms(1) [OF s] obtain out
    where a: "answered_with (reply_frame st 9 payload) (dispatch_with_bpf (change r) s) = Some (?s\<lparr>ds_output := out\<rparr>)"
      "length out = MAX_FRAME" by auto
  have "at_state ld backing1 (?s\<lparr>ds_output := out\<rparr>)" using s a(2) by (simp add: at_state_def)
  then obtain s' where "run_checks checks (change r) (?s\<lparr>ds_output := out\<rparr>) = Some (r', s')" "at_state ld backing' s'"
    using assms(4) unfolding passes_def by blast
  then show "\<exists>s'. run_checks ((change, st, payload) # checks) r s = Some (r', s') \<and> at_state ld backing' s'"
    using a(1) by (simp add: Let_def)
qed

lemma passes_error:
  assumes "\<And>s. at_state ld backing s \<Longrightarrow> dispatch_with_bpf (change r) s = respond (change r) s st payload"
    and "req_sequence (change r) = 9" and "length payload \<le> MAX_PAYLOAD"
    and "passes ld checks (change r) backing r' backing'"
  shows "passes ld ((change, st, payload) # checks) r backing r' backing'"
proof (rule passes_Cons [where change = change and r = r, OF _ assms(2-4)])
  fix s assume s: "at_state ld backing s"
  then have "s\<lparr>ds_backing := backing\<rparr> = s" by (simp add: at_state_def)
  then show "dispatch_with_bpf (change r) s = respond (change r) (s\<lparr>ds_backing := backing\<rparr>) st payload"
    using assms(1) [OF s] by simp
qed

lemmas request_changes = put_payload_def with_command_def with_flags_def comp_def

text \<open>The loader of the test and what its maps answer.\<close>

definition two_map_loader :: bpf_loader where
  "two_map_loader = booted (crc32_iso_hdlc two_map_bytes) 8 2 two_layouts"

lemma two_map_loader_fields:
  "has_program (ld_state two_map_loader)" "ld_committed_map_count two_map_loader = 2"
  "ld_map_layouts two_map_loader = two_layouts @ replicate 6 map_layout_empty"
  "ld_pending two_map_loader = None"
  by (simp_all add: two_map_loader_def booted_def loader_new_def stored_layouts_def)

definition numbers :: bytes where
  "numbers = [0, 1, 2, 3, 4, 5, 6, 7, 8, 9, 10, 11, 12, 13, 14, 15, 16, 17, 18, 19, 20, 21, 22, 23, 24, 25, 26,
     27, 28, 29, 30, 31, 32, 33, 34, 35, 36, 37, 38, 39]"

abbreviation req9 :: "u8 \<Rightarrow> u8 \<Rightarrow> bytes \<Rightarrow> u8 \<Rightarrow> request" where
  "req9 command fl payload len \<equiv> \<lparr>req_command = command, req_sequence = 9, req_flags = fl,
     req_payload = payload, req_payload_len = len\<rparr>"

lemma first_request:
  "request_empty\<lparr>req_command := CMD_READ_BPF_MAP, req_sequence := 9, req_payload_len := 4\<rparr>
    = req9 4 0 [0, 0, 0, 0, 0, 0, 0, 0, 0, 0, 0, 0, 0, 0, 0, 0] 4"
  by (simp add: request_empty_def command_codes eval_nat_numeral)

lemma same_backing: "ds_backing s = backing \<Longrightarrow> s\<lparr>ds_backing := backing\<rparr> = s"
  by simp

text \<open>What evaluates one request.\<close>

lemmas request_eval = request_changes command_codes dispatch_with_bpf_def dispatch_with_bpf_and_executor_def
  handle_read_map_def handle_write_map_def MAP_WRITE_LOCATION_SIZE_def dispatch_def at_state_def read_map_def
  write_map_def two_map_loader_fields two_layouts_def get_at_def checked_add_def copy_into_def slice_def
  le_bytes_eval word_le_nat_alt word_less_nat_alt same_backing

definition new_numbers :: bytes where
  "new_numbers = [0, 1, 2, 3, 4, 5, 6, 7, 8, 9, 10, 11, 12, 13, 14, 15, 16, 17, 18, 19] @ written_bytes
     @ [34, 35, 36, 37, 38, 39]"

definition old_tail :: bytes where
  "old_tail = [0xa2, 0xa3, 0xa4, 0xa5, 0xa6, 0xa7, 0xa8, 0xa9, 0xaa, 0xab, 0xac, 0xad]"

lemmas request_data = numbers_def new_numbers_def written_bytes_def old_tail_def

lemma read_check_passes:
  "passes two_map_loader [read_check] (req9 4 0 [0, 0, 0, 0, 0, 0, 0, 0, 0, 0, 0, 0, 0, 0, 0, 0] 4) (numbers @ rest)
    (req9 4 0 [1, 12, 0, 16, 0, 0, 0, 0, 0, 0, 0, 0, 0, 0, 0, 0] 4) (numbers @ rest)"
  unfolding read_check_def by (rule passes_error) (simp_all add: request_eval request_data passes_Nil)

lemma write_check_passes:
  "passes two_map_loader [write_check] (req9 4 0 [1, 12, 0, 16, 0, 0, 0, 0, 0, 0, 0, 0, 0, 0, 0, 0] 4) (numbers @ rest)
    (req9 5 0 ([12, 4] @ written_bytes) 16) (new_numbers @ rest)"
  unfolding write_check_def
  by (rule passes_Cons [where ?backing1.0 = "new_numbers @ rest"])
     (simp_all add: request_eval request_data passes_Nil)

lemma read_back_check_passes:
  "passes two_map_loader [read_back_check] (req9 5 0 ([12, 4] @ written_bytes) 16) (new_numbers @ rest)
    (req9 4 0 ([1, 12, 0, 16] @ old_tail) 4) (new_numbers @ rest)"
  unfolding read_back_check_def by (rule passes_error) (simp_all add: request_eval request_data passes_Nil)

lemma write_errors_pass:
  "passes two_map_loader write_errors (req9 4 0 ([1, 12, 0, 16] @ old_tail) 4) (new_numbers @ rest)
    (req9 5 0 ([0, 8, 1, 2] @ old_tail) 4) (new_numbers @ rest)"
  unfolding write_errors_def
  by ((rule passes_error, (simp_all add: request_eval request_data)[3])+)
     (simp add: request_eval request_data passes_Nil)

lemma read_errors_pass:
  "passes two_map_loader read_errors (req9 5 0 ([0, 8, 1, 2] @ old_tail) 4) (new_numbers @ rest)
    (req9 4 0 ([1, 0xff, 0xff, 1] @ old_tail) 4) (new_numbers @ rest)"
  unfolding read_errors_def
  by ((rule passes_error, (simp_all add: request_eval request_data)[3])+)
     (simp add: request_eval request_data passes_Nil)

lemma no_program_passes:
  "passes loader_new no_program_checks (req9 4 0 ([1, 0xff, 0xff, 1] @ old_tail) 4)
    backing (req9 4 0 ([1, 0, 0, 1] @ old_tail) 4) backing"
  unfolding no_program_checks_def
  by ((rule passes_error, (simp_all add: request_eval request_data loader_new_def)[3])+)
     (simp add: request_eval request_data passes_Nil)

lemma two_map_loader_inv: "loader_inv two_map_loader"
  by (simp add: loader_inv_def two_map_loader_def booted_def loader_new_def program_ok_def stored_layouts_def
      two_layouts_def image_bounds_def layouts_ok_def)

lemma last_checks_pass:
  assumes "at_state two_map_loader backing s"
  shows "\<exists>r' s'. run_checks last_checks (req9 4 0 payload 4) s = Some (r', s')"
proof -
  let ?q = "status_queue_ready\<lparr>sq_newest_len := 0\<rparr>"
  let ?r1 = "req9 6 0 payload 0" let ?r2 = "req9 3 0 payload 0"
  have s: "length (ds_output (s\<lparr>ds_queue := ?q\<rparr>)) = MAX_FRAME" "ds_queue s = status_queue_ready" "ds_loader s = two_map_loader"
    using assms by (simp_all add: at_state_def)
  have "status_queue_pop status_queue_ready = Some (ready_text, ?q)" by (simp add: status_queue_pop_def
      status_queue_ready_def slice_def ready_text_def)
  then have d1: "dispatch_with_bpf ?r1 s = respond ?r1 (s\<lparr>ds_queue := ?q\<rparr>) STATUS_OK ready_text"
    using s by (simp add: request_eval)
  obtain out where a1: "answered_with (reply_frame STATUS_OK 9 ready_text) (dispatch_with_bpf ?r1 s) = Some (s\<lparr>ds_queue := ?q, ds_output := out\<rparr>)"
    "length out = MAX_FRAME"
    using answered_reply [OF s(1), of ?r1 9 ready_text STATUS_OK] d1 by (auto simp: ready_text_def)
  let ?s = "s\<lparr>ds_queue := ?q, ds_output := out\<rparr>"
  have same: "ds_loader ?s = two_map_loader" "length (ds_output ?s) = MAX_FRAME" using s a1(2) by simp_all
  have "execution_metadata two_map_loader = Some (Inr (program_metadata two_map_loader))"
    using execution_metadata_value [OF two_map_loader_inv] two_map_loader_fields(4)
    by (simp add: two_map_loader_def booted_def)
  moreover define t where "t = ?s\<lparr>ds_loader := two_map_loader, ds_backing := ds_backing s, ds_world := ()\<rparr>"
  ultimately have d2: "dispatch_with_bpf ?r2 ?s = respond ?r2 t STATUS_NOT_IMPLEMENTED []"
    using same(1) by (simp add: request_eval handle_start_def not_implemented_def start_status_def)
  have t: "length (ds_output t) = MAX_FRAME" using a1(2) by (simp add: t_def)
  obtain u where "answered_with (reply_frame STATUS_NOT_IMPLEMENTED 9 []) (dispatch_with_bpf ?r2 ?s) = Some u"
    using answered_reply [OF t, of ?r2 9 "[]" STATUS_NOT_IMPLEMENTED] d2 by auto
  then show ?thesis using a1(1) by (simp add: last_checks_def request_changes command_codes)
qed

text \<open>The direct calls between the requests.\<close>

lemma direct_calls:
  "read_map two_map_loader 1 0 0 backing = Inl STATUS_BAD_LENGTH"
  "read_map two_map_loader 1 0 17 backing = Inl STATUS_BAD_LENGTH"
  "write_map ld 1 0 [] backing = (Inl STATUS_BAD_LENGTH, backing)"
  "write_map ld 1 0 (replicate 15 0) backing = (Inl STATUS_BAD_LENGTH, backing)"
  "write_map loader_new 0 0 [1] backing = (Inl STATUS_NO_PROGRAM, backing)"
  by (simp_all add: read_map_def write_map_def loader_new_def)

lemma numbers_backing:
  "copy_into (replicate BPF_MAX_MAP_BYTES 0) 0 (map of_nat [0..<40]) = Some (numbers @ replicate 984 (0 :: u8))"
proof -
  have "map of_nat [0..<40] = numbers" by (simp add: numbers_def upt_rec)
  then show ?thesis by (simp add: copy_into_def numbers_def)
qed

lemma passesD:
  "passes ld checks r backing r' backing' \<Longrightarrow> at_state ld backing s
     \<Longrightarrow> \<exists>s'. run_checks checks r s = Some (r', s') \<and> at_state ld backing' s'"
  by (simp add: passes_def)

lemma map_checks_pass: "map_checks two_map_loader = Some ()"
proof -
  define rest :: bytes where "rest = replicate 984 0"
  let ?r = "req9 4 0 [0, 0, 0, 0, 0, 0, 0, 0, 0, 0, 0, 0, 0, 0, 0, 0] 4"
  let ?s = "(fresh_state ())\<lparr>ds_loader := two_map_loader, ds_backing := numbers @ rest\<rparr>"
  have "at_state two_map_loader (numbers @ rest) ?s" by (simp add: at_state_def fresh_state_def)
  from passesD [OF read_check_passes this] obtain s1 r1 where
    c1: "run_checks [read_check] ?r ?s = Some (r1, s1)" "r1 = req9 4 0 [1, 12, 0, 16, 0, 0, 0, 0, 0, 0, 0, 0, 0, 0, 0, 0] 4"
    and s1: "at_state two_map_loader (numbers @ rest) s1" by blast
  from passesD [OF write_check_passes s1] obtain s2 r2 where
    c2: "run_checks [write_check] r1 s1 = Some (r2, s2)" "r2 = req9 5 0 ([12, 4] @ written_bytes) 16"
    and s2: "at_state two_map_loader (new_numbers @ rest) s2" unfolding c1(2) by blast
  from passesD [OF read_back_check_passes s2] obtain s3 r3 where
    c3: "run_checks [read_back_check] r2 s2 = Some (r3, s3)" "r3 = req9 4 0 ([1, 12, 0, 16] @ old_tail) 4"
    and s3: "at_state two_map_loader (new_numbers @ rest) s3" unfolding c2(2) by blast
  from passesD [OF write_errors_pass s3] obtain s4 r4 where
    c4: "run_checks write_errors r3 s3 = Some (r4, s4)" "r4 = req9 5 0 ([0, 8, 1, 2] @ old_tail) 4"
    and s4: "at_state two_map_loader (new_numbers @ rest) s4" unfolding c3(2) by blast
  from passesD [OF read_errors_pass s4] obtain s5 r5 where
    c5: "run_checks read_errors r4 s4 = Some (r5, s5)"
      "r5 = req9 4 0 ([1, 0xff, 0xff, 1] @ old_tail) 4"
    and s5: "at_state two_map_loader (new_numbers @ rest) s5" unfolding c4(2) by blast
  have "at_state loader_new (new_numbers @ rest) (s5\<lparr>ds_loader := loader_new\<rparr>)"
    using s5 by (simp add: at_state_def)
  from passesD [OF no_program_passes this] obtain s6 r6 where
    c6: "run_checks no_program_checks r5 (s5\<lparr>ds_loader := loader_new\<rparr>) = Some (r6, s6)"
      "r6 = req9 4 0 ([1, 0, 0, 1] @ old_tail) 4"
    and s6: "at_state loader_new (new_numbers @ rest) s6" unfolding c5(2) by blast
  have "at_state two_map_loader (new_numbers @ rest) (s6\<lparr>ds_loader := two_map_loader\<rparr>)"
    using s6 by (simp add: at_state_def)
  from last_checks_pass [OF this] obtain r7 s7 where
    c7: "run_checks last_checks r6 (s6\<lparr>ds_loader := two_map_loader\<rparr>) = Some (r7, s7)"
    unfolding c6(2) by blast
  have b: "ds_backing s1 = numbers @ rest" "ds_backing s2 = new_numbers @ rest" "ds_backing s3 = new_numbers @ rest"
    "ds_backing s4 = new_numbers @ rest" "ds_loader s4 = two_map_loader" "ds_loader s5 = two_map_loader"
    using s1 s2 s3 s4 s5 by (simp_all add: at_state_def)
  have cmp: "slice (new_numbers @ rest) 20 36 = Some (written_bytes @ [34, 35])"
    "take 20 (new_numbers @ rest) = take 20 (numbers @ rest)" "drop 36 (new_numbers @ rest) = drop 36 (numbers @ rest)"
    by (simp_all add: slice_def request_data)
  show ?thesis
    unfolding map_checks_def Let_def numbers_backing rest_def [symmetric] first_request
    by (simp add: direct_calls assert_that_def c1(1) c2(1) c3(1) c4(1) c5(1) c6(1) c7 b cmp
        del: run_checks.simps take_append drop_append One_nat_def)
qed

lemma map_test_passes: "read_bpf_map_returns_committed_backing_ranges_and_errors = Some ()"
  unfolding read_bpf_map_returns_committed_backing_ranges_and_errors_def load_two_maps_value
  by (simp add: map_checks_pass flip: two_map_loader_def)

end
