(* ===== verification/Helper_Tests.thy ===== *)
theory Helper_Tests
  imports Map_Helpers Protocol_Tests
begin

text \<open>
  The unit tests of \<^verbatim>\<open>firmware/optibridge/src/map_helpers.rs\<close>, with \<open>None\<close> for a
  failed assertion.
\<close>

definition test_map :: bpf_map_metadata where
  "test_map = \<lparr>mm_backing_offset = 4, mm_backing_len = 8, mm_key_size = 4, mm_value_size = 4\<rparr>"

definition array_entries_are_fixed_size_and_bounded :: "unit may_panic" where
  "array_entries_are_fixed_size_and_bounded = do {
     assert_that (value_range test_map 0 = Some (0, 4));
     assert_that (value_range test_map 1 = Some (4, 8));
     assert_that (value_range test_map 2 = None)
   }"

definition lookup_and_update_use_value_ranges :: "unit may_panic" where
  "lookup_and_update_use_value_ranges = do {
     let metadata = test_map;
     let backing = replicate 12 0;
     assert_that (lookup metadata 0 backing = Some [0, 0, 0, 0]);
     backing \<leftarrow> update metadata 1 [1, 2, 3, 4] backing;
     assert_that (lookup metadata 1 backing = Some [1, 2, 3, 4]);
     found \<leftarrow> slice backing 0 4;
     assert_that (found = [0, 0, 0, 0]);
     assert_that (update metadata 0 [1, 2] backing = None)
   }"

lemma helper_tests_pass:
  "array_entries_are_fixed_size_and_bounded = Some ()"
  "lookup_and_update_use_value_ranges = Some ()"
proof -
  have z: "replicate 12 (0 :: u8) = [0, 0, 0, 0, 0, 0, 0, 0, 0, 0, 0, 0]"
    by (simp add: eval_nat_numeral)
  note defs = assert_that_def test_map_def lookup_def update_def value_range_def usize_mul_def usize_add_def
    slice_def copy_into_def
  show "array_entries_are_fixed_size_and_bounded = Some ()"
    by (simp add: array_entries_are_fixed_size_and_bounded_def defs)
  show "lookup_and_update_use_value_ranges = Some ()"
    unfolding lookup_and_update_use_value_ranges_def Let_def z by (simp add: defs)
qed

end
