(* ===== verification/Spec2Isabelle.thy ===== *)
theory Spec2Isabelle
  imports Test_Bench Bus_Load Pin_Setup Hal_Generation Map_Tests Helper_Tests
begin

text \<open>
  OptiBridge is a two-board system written in Rust. The target board runs the OptiBridge firmware: an
  I2C slave that receives a BPF image in small pieces, stores it in its own flash, runs it on request
  or when a timer expires, and lets the host read and write the program's array maps. A second board
  runs the test harness's I2C bridge, which carries the same frames between USB serial and I2C. Both
  share the crate \<^verbatim>\<open>crates/optibridge-protocol\<close>. A build tool, \<^verbatim>\<open>xtask\<close>,
  keeps both images within their flash budgets. This development models these parts as they are
  written and proves what they are meant to guarantee.

  \<^bold>\<open>How the parts interact.\<close> A packet from the I2C master enters \<open>on_i2c_packet\<close>
  (\<^verbatim>\<open>firmware/optibridge/src/main.rs\<close>) in a callback that may interrupt the main loop
  between any two of its critical sections. The callback parses the frame, answers BUSY if a timer
  event is executing, and otherwise dispatches the request: a Load is only checked and put into the
  loader's one-entry queue, a map access goes to the backing store in RAM, a Start runs the program on
  the spot, a Reset sets a flag. The main loop performs the reset, executes the pending flash operation
  when the bus is idle, polls the timer, and runs the program for a ready timer event. The program
  calls back into the firmware through four helpers (map lookup and update, timer schedule and cancel).

  \<^bold>\<open>Conventions.\<close> Machine integers are words of their width (\<open>u8\<close> to
  \<open>u64\<close>); \<open>usize\<close> is \<open>nat\<close> where it cannot overflow and a 32-bit word in the
  helper arithmetic, which the code writes with checked operations. A slice or array is a list of bytes.
  \<open>Result\<close> is \<open>rust_result\<close>, with the error on the left. Code that can panic returns an
  option whose \<open>None\<close> is the panic (\<open>may_panic\<close>), so every theorem that gives
  \<open>Some\<close> excludes it. A \<open>&mut\<close> argument is returned updated.

  \<^bold>\<open>Theories and code.\<close>
  \<^item> \<open>Bridge_Base\<close>: words, slices, in-place copies, little-endian encodings.
  \<^item> \<open>Wire_Protocol\<close> (lib.rs: \<open>Request\<close>, \<open>Parser\<close>, \<open>encode_response\<close>,
    \<open>validate_i2c_request\<close>): the byte-wise parser is shown to accept exactly the frames of a
    grammar (\<open>frames_from\<close>) and to resynchronise after an error; responses parse back.
  \<^item> \<open>Crc32\<close> (\<open>crc32_update\<close>, \<open>crc32_finish\<close>): equality with division of the
    reflected polynomial, and detection of every change inside 32 consecutive bits.
  \<^item> \<open>Flash_Store\<close> (\<open>BpfFlash\<close>, the double \<open>FakeFlash\<close>): the trait is a
    record of operations. The locale \<open>nor_flash\<close> states what a NOR flash does when an operation
    may fail at any time and leave the range it works on in any state; \<open>reliable_flash\<close> extends
    it with operations that succeed. Both are interpreted on the repository's double.
  \<^item> \<open>Map_Layout\<close> (\<open>image_len\<close>, \<open>map_layouts\<close>): image sizes, and the
    placement of the maps in the 1024-byte backing store.
  \<^item> \<open>Bpf_Loader\<close> (\<open>BpfLoader\<close>): every operation, from \<open>accepts_load\<close> to
    \<open>validate_committed\<close>, with the loader's invariant.
  \<^item> \<open>Loader_Session\<close>: \<open>committed_image\<close>, the on-flash format; \<open>device_inv\<close>,
    which ties the loader's state to the flash; \<open>loader_run\<close>, the sequences of boots, accepted
    requests, deferred operations and starts; and an abstract session they refine.
  \<^item> \<open>Host_Load\<close>: a load from the host's side, from the payloads it sends to the committed image.
  \<^item> \<open>Map_Access\<close> and \<open>Map_Helpers\<close> (\<open>read_map\<close>, \<open>write_map\<close>,
    \<^verbatim>\<open>map_helpers.rs\<close>): the host's and the program's view of the maps. The locale
    \<open>byte_maps\<close> is what both promise; it is interpreted once on each.
  \<^item> \<open>Dispatch\<close> (\<open>StatusQueue\<close>, \<open>dispatch\<close>,
    \<open>dispatch_with_bpf_and_executor\<close>): every command, with all its error answers. The closure
    that runs a program is an argument.
  \<^item> \<open>Bpf_Memory\<close> (main.rs: \<open>bpf_map_lookup_elem\<close>, \<open>bpf_map_update_elem\<close>):
    the helpers that take raw pointers, over the 10 KiB of RAM as a list of bytes.
  \<^item> \<open>Event_Timer\<close> (\<open>TimerState\<close> and its functions): the one-shot timer and the
    abstract alarm it implements; generations are 32 bits wide and skip 0.
  \<^item> \<open>Bpf_Execution\<close> (\<open>execute_loaded_bpf\<close>, \<open>run_bpf_size_probe\<close>): one
    invocation, with the interpreter as a process that loads, stores and calls helpers.
  \<^item> \<open>Firmware\<close> (\<open>on_i2c_packet\<close>, \<open>execute_timer_event\<close>, \<open>main\<close>):
    the packet handler and the main loop as a step relation. A step of the main loop is one critical
    section or one action of the interpreter, and a packet may arrive between any two steps
    (\<open>fw_reachable\<close>). \<open>Firmware_Invariant\<close>, \<open>Firmware_Liveness\<close> and
    \<open>Firmware_Properties\<close> hold what is true of every reachable state.
  \<^item> \<open>Device\<close> and \<open>Device_Refinement\<close>: the device as the host sees it (load
    session, queued job, status message, map contents), what it answers, and its internal steps. The
    dispatcher and then the whole firmware are shown to implement it (\<open>dispatch_refines_device\<close>,
    \<open>run_trace\<close>).
  \<^item> \<open>Bus_Load\<close>: the load of \<open>Host_Load\<close> as frames on the bus, with the packet
    handler and the main loop taking turns, up to the reply to the Query that ends it.
  \<^item> \<open>Pin_Setup\<close> (\<open>configure_i2c_pins\<close> of both firmwares, \<open>reset_mcu\<close>): register
    accesses over a bus.
  \<^item> \<open>I2c_Bridge\<close> (\<^verbatim>\<open>firmware/i2c-bridge/src/main.rs\<close>): request handler, byte
    loop, session and reset.
  \<^item> \<open>Test_Bench\<close>: the bridge and the firmware connected by an I2C bus.
  \<^item> \<open>Size_Gate\<close> and \<open>Hal_Generation\<close> (\<^verbatim>\<open>xtask/src/main.rs\<close>): the report of
    llvm-size as a list of code points, its parsing, and the limits; the commands that
    \<open>generate-hal\<close> runs, in their order, and the command line.
  \<^item> \<open>Protocol_Tests\<close>, \<open>Loader_Tests\<close>, \<open>Map_Tests\<close>, \<open>Helper_Tests\<close>: the
    repository's unit tests as functions of the model, assertion by assertion, with the mocked flash.

  \<^bold>\<open>What the theorems show.\<close> Loading: a complete transfer over the bus commits exactly the sent
  image or its final Query names the reason it did not; whatever the flash does, a program the loader reports is on the flash, and
  a power loss in a transfer leaves none. Requests: each gets one answer, with the status of the first
  violated condition. Maps: they are disjoint and inside the backing store; host and program share the
  same bytes; a helper touches nothing but the entry it names. Execution: a program gets exactly the
  committed bytecode and the ranges of its maps, at most one runs at a time, nothing outside the ranges it
  was given changes, the bus is answered BUSY during a timer event, a due timer is served within
  eight steps of the main loop and an accepted load operation is executed within ten. No reachable state of the firmware makes the main loop panic. Refinement:
  every run of the firmware, with packets between any two steps, is a trace of the abstract device, and a
  host behind the bridge gets that device's answers, if it sends packets of at most 21 bytes. The model passes the repository's unit tests.

  \<^bold>\<open>Parameters and what is assumed of them.\<close> Code that is not in the repository is an argument:
  \<^item> the generated flash driver, under \<open>nor_flash\<close> or \<open>reliable_flash\<close>;
  \<^item> embassy-time, under \<open>time_ok\<close> (adding a delay does not go back; the difference to an
    earlier instant exists and is positive) and \<open>time_total\<close> (delays below 2^32 ms do not
    overflow an instant);
  \<^item> sonde-bpf, under \<open>sonde_ok\<close>: a program accesses only its stack, its context and the map
    regions it was given, and calls only registered helpers with pointers to memory it may read. That is
    the interpreter's documented memory check. Programs may run forever; \<open>halting\<close> is a separate
    hypothesis where a result is claimed;
  \<^item> the placement of the backing store, event context and stack in RAM, in \<open>platform_ok\<close>;
  \<^item> the I2C master and CDC endpoint of the bridge, under \<open>io_ok\<close> (a read fills its buffer; a USB
    packet longer than the buffer fails with \<open>BufferOverflow\<close>, as embassy-usb documents), and
    with the slave driver on the other end under \<open>link_ok\<close> (a written frame arrives as one packet, a
    read returns the newest response and zeros), which is REQ-OPT-FW-009 to -013 of the specification;
  \<^item> the MCU's registers, under \<open>registers_ok\<close>;
  \<^item> the commands that xtask runs and the file system, about which nothing is assumed.
  Each property with such a hypothesis has a witness on concrete instances: the flash double, a
  millisecond clock, and an interpreter with one program.

  \<^bold>\<open>Loops and fuel.\<close> No definition runs on fuel. Loops over a range or a buffer are structural
  recursion; the boot check's CRC loop recurses on the bytes left. The interpreter's run is
  \<open>partial_function (option)\<close>, with termination for halting programs as a property of its own. The
  main loop and the bridge's session do not end by design: they are steps, with reachability and runs
  over finite lists of actions, and progress is stated by counting steps.

  \<^bold>\<open>Where the code and its documents differ.\<close> The model follows the code. Start after a failed load
  answers the stored failure, and Start while a load operation is pending answers BUSY, where
  REQ-OPT-ACT-005 asks for NO_PROGRAM if no image is committed (\<open>start_runs_committed_program\<close>; the
  abstract device does the same). Query reports BAD_STATE after an invalid image, which REQ-OPT-BPF-007
  does not list. The bridge resets on a USB packet of more than 21 bytes, where REQ-BRIDGE-004 asks it to
  accept 64 (\<open>session_serves_frames\<close>).

  \<^bold>\<open>Not modelled.\<close> The constructors and \<open>enable_clock\<close>-like calls of the generated HAL
  in both \<open>main\<close> functions, the linker arguments of the build scripts, the panic handlers, and the
  USB descriptors and task: they configure hardware and keep no state of the program. The spin loop on the
  bus status register is modelled over a stream of the values read. The Python tools drive hardware; the
  exchange they rest on, a bridged write followed by a bridged read, is a property of \<open>Test_Bench\<close>.
  A Start runs inside the packet callback and is one step of the model, since the callback is not
  interrupted by the main loop.
\<close>

section \<open>The unit tests of the repository\<close>

definition unit_tests :: "unit may_panic list" where
  "unit_tests =
     [parses_read_status_request, rejects_bad_magic_and_recovers, parses_frame_fragmented_at_each_byte_boundary,
      parses_coalesced_maximum_length_frames_in_order, recovers_from_invalid_length_within_same_stream,
      validates_i2c_request_statuses, dispatches_read_status_response, dispatches_action_request_errors,
      dispatches_action_stubs_as_not_implemented, dispatches_reset_outcomes, read_status_pops_newest_message,
      dispatch_packet_uses_only_the_final_complete_frame, dispatch_packet_rejects_incomplete_and_malformed_packets,
      dispatch_packet_rejects_trailing_partial_frames, dispatch_packet_returns_reset_for_valid_reset,
      dispatch_packet_rejects_truncated_valid_prefixes, dispatch_packet_does_not_pop_status_for_invalid_requests,
      crc32_iso_hdlc_matches_known_vector, loader_commits_valid_image_and_reports_crc,
      start_bpf_executes_once_and_enters_running_state, start_bpf_rejects_invalid_requests_and_execution_failures,
      start_bpf_rejects_pending_loads_without_executing, read_bpf_map_returns_committed_backing_ranges_and_errors,
      loader_rejects_invalid_transfer_and_never_commits_partial_image,
      loader_retains_flash_and_crc_failures_for_query, loader_rejects_invalid_map_definitions_at_finalize,
      dispatches_bpf_operations_and_query_responses,
      array_entries_are_fixed_size_and_bounded, lookup_and_update_use_value_ranges]"

text \<open>No assertion of the 29 tests fails and no operation they call panics. This checks the
  definitions against the repository's own expectations; what they guarantee for every input is in the
  theories above.\<close>

lemma unit_tests_pass: "set unit_tests = {Some ()}"
  by (simp add: unit_tests_def parser_tests_pass bridge_test_passes dispatch_tests_pass packet_tests_pass
      small_tests_pass loader_test_commits start_test_runs_once start_test_failures start_test_pending
      map_test_passes loader_test_partial loader_test_failures loader_test_invalid_maps helper_tests_pass)

end
